(* ===== verification/Tvd_Prelude.thy ===== *)
theory Tvd_Prelude
  imports Main "HOL-Library.Word"
begin

text \<open>
  Shared vocabulary of the development: machine integers, faults, sequencing of
  computations that may fault, C pointers, and the two loop combinators the
  components are written with, together with their rules.

  A C function becomes a HOL function into \<open>'a res\<close>. \<open>Inr x\<close> is a normal return.
  \<open>Inl f\<close> says that the execution performs an operation that C leaves undefined
  (reading an indeterminate or dangling pointer, writing past an object, freeing what is
  not allocated, calling a null function pointer) or that it calls \<open>abort\<close>. Error codes
  the program itself returns are ordinary results and never faults.
\<close>

section \<open>Machine integers\<close>

type_synonym u8 = "8 word"
type_synonym u32 = "32 word"
type_synonym u64 = "64 word"
type_synonym i32 = "32 word" \<comment> \<open>a C \<open>int\<close>; read with \<open>sint\<close> where its sign matters\<close>

lemma unat_bound32: "unat (w :: u32) < 4294967296"
  using unsigned_less [of w] by simp

lemma unat_bound64: "unat (w :: u64) < 18446744073709551616"
  using unsigned_less [of w] by simp

section \<open>Faults and sequencing\<close>

datatype fault =
    Null_deref        \<comment> \<open>read or write through a null pointer\<close>
  | Null_call         \<comment> \<open>call through a null function pointer\<close>
  | Uninit_use        \<comment> \<open>use of a pointer that was never assigned\<close>
  | Use_after_free    \<comment> \<open>access to an object that is no longer live\<close>
  | Bad_free          \<comment> \<open>\<open>free\<close> of something that is not a live object\<close>
  | Out_of_bounds     \<comment> \<open>access outside an object\<close>
  | Bad_vararg        \<comment> \<open>a variadic argument is missing or of another type than the format asks for\<close>
  | Division_by_zero
  | Abort_call        \<comment> \<open>the program calls \<open>abort\<close>\<close>

type_synonym 'a res = "fault + 'a"

fun andThen :: "'a res \<Rightarrow> ('a \<Rightarrow> 'b res) \<Rightarrow> 'b res" where
  "andThen (Inl f) k = Inl f"
| "andThen (Inr x) k = k x"

named_theorems res_simps \<open>equations that expose the steps of a run that returns normally\<close>

lemma andThen_Inr_iff [res_simps]: "andThen m k = Inr y \<longleftrightarrow> (\<exists>x. m = Inr x \<and> k x = Inr y)"
  by (cases m) auto

lemma andThen_Inl_iff: "andThen m k = Inl f \<longleftrightarrow> m = Inl f \<or> (\<exists>x. m = Inr x \<and> k x = Inl f)"
  by (cases m) auto

lemma andThen_assoc: "andThen (andThen m k) l = andThen m (\<lambda>x. andThen (k x) l)"
  by (cases m) auto

lemma andThen_return [simp]: "andThen m Inr = m"
  by (cases m) auto

lemma andThen_InrE:
  assumes "andThen m k = Inr y"
  obtains x where "m = Inr x" and "k x = Inr y"
  using assms by (auto simp: andThen_Inr_iff)

lemma case_sum_Inr_iff [res_simps]:
  "(if b then Inl f else m) = Inr y \<longleftrightarrow> \<not> b \<and> m = (Inr y :: 'a res)"
  by auto

section \<open>Pointers\<close>

text \<open>
  A pointer value is null, indeterminate (a variable or field that was never assigned), or
  the address of an object together with the object it points to. The program never writes
  through one alias of a string and reads through another, so the pointee can travel with
  the address; what aliasing does matter for, whether the object is still live, is decided by
  the address and the set of live addresses.
\<close>

datatype 'a ptr = Null | Wild | Ptr (ptr_addr: nat) (pointee: 'a)

definition load :: "nat set \<Rightarrow> 'a ptr \<Rightarrow> 'a res" where
  "load live p =
     (case p of
        Null \<Rightarrow> Inl Null_deref
      | Wild \<Rightarrow> Inl Uninit_use
      | Ptr a v \<Rightarrow> if a \<in> live then Inr v else Inl Use_after_free)"

definition load_at :: "nat set \<Rightarrow> 'a list ptr \<Rightarrow> nat \<Rightarrow> 'a res" where
  "load_at live p i =
     andThen (load live p) (\<lambda>xs. if i < length xs then Inr (xs ! i) else Inl Out_of_bounds)"

definition store_at :: "nat set \<Rightarrow> 'a list ptr \<Rightarrow> nat \<Rightarrow> 'a \<Rightarrow> 'a list ptr res" where
  "store_at live p i v =
     andThen (load live p)
       (\<lambda>xs. if i < length xs then Inr (Ptr (ptr_addr p) (xs[i := v])) else Inl Out_of_bounds)"

lemma load_simps [simp]:
  "load live Null = Inl Null_deref"
  "load live Wild = Inl Uninit_use"
  "load live (Ptr a v) = (if a \<in> live then Inr v else Inl Use_after_free)"
  by (simp_all add: load_def)

lemma load_Inr_iff [res_simps]: "load live p = Inr v \<longleftrightarrow> (\<exists>a \<in> live. p = Ptr a v)"
  by (cases p) auto

lemma load_at_Ptr [simp]:
  "a \<in> live \<Longrightarrow> i < length xs \<Longrightarrow> load_at live (Ptr a xs) i = Inr (xs ! i)"
  by (simp add: load_at_def)

lemma load_at_Inr_iff [res_simps]:
  "load_at live p i = Inr v \<longleftrightarrow> (\<exists>a \<in> live. \<exists>xs. p = Ptr a xs \<and> i < length xs \<and> v = xs ! i)"
  by (auto simp: load_at_def res_simps)

lemma store_at_Ptr [simp]:
  "a \<in> live \<Longrightarrow> i < length xs \<Longrightarrow> store_at live (Ptr a xs) i v = Inr (Ptr a (xs[i := v]))"
  by (simp add: store_at_def)

lemma store_at_Inr_iff [res_simps]:
  "store_at live p i v = Inr q \<longleftrightarrow>
     (\<exists>a \<in> live. \<exists>xs. p = Ptr a xs \<and> i < length xs \<and> q = Ptr a (xs[i := v]))"
  by (auto simp: store_at_def res_simps)

section \<open>Counted loops\<close>

text \<open>
  \<open>for_loop body i n s\<close> is \<open>for (k = i; k < i + n; k++) body\<close> on the loop state \<open>s\<close>;
  \<open>for_until\<close> is the same loop with an early exit, taken when the body yields \<open>False\<close>.
\<close>

fun for_loop :: "(nat \<Rightarrow> 's \<Rightarrow> 's res) \<Rightarrow> nat \<Rightarrow> nat \<Rightarrow> 's \<Rightarrow> 's res" where
  "for_loop body i 0 s = Inr s"
| "for_loop body i (Suc n) s = andThen (body i s) (for_loop body (Suc i) n)"

fun for_until :: "(nat \<Rightarrow> 's \<Rightarrow> (bool \<times> 's) res) \<Rightarrow> nat \<Rightarrow> nat \<Rightarrow> 's \<Rightarrow> (bool \<times> 's) res" where
  "for_until body i 0 s = Inr (True, s)"
| "for_until body i (Suc n) s =
     andThen (body i s)
       (\<lambda>(go_on, s'). if go_on then for_until body (Suc i) n s' else Inr (False, s'))"

lemma for_loop_rule:
  assumes "for_loop body i n s = Inr s'"
    and "I i s"
    and "\<And>k t t'. i \<le> k \<Longrightarrow> k < i + n \<Longrightarrow> I k t \<Longrightarrow> body k t = Inr t' \<Longrightarrow> I (Suc k) t'"
  shows "I (i + n) s'"
  using assms
proof (induction n arbitrary: i s)
  case 0
  then show ?case by simp
next
  case (Suc n)
  from Suc.prems(1) obtain t where t: "body i s = Inr t" "for_loop body (Suc i) n t = Inr s'"
    by (auto simp: res_simps)
  have "I (Suc i) t" using Suc.prems(2,3) t(1) by simp
  then have "I (Suc i + n) s'" using Suc.IH [OF t(2)] Suc.prems(3) by simp
  then show ?case by simp
qed

lemma for_loop_total:
  assumes "I i s"
    and "\<And>k t. i \<le> k \<Longrightarrow> k < i + n \<Longrightarrow> I k t \<Longrightarrow> \<exists>t'. body k t = Inr t' \<and> I (Suc k) t'"
  shows "\<exists>s'. for_loop body i n s = Inr s' \<and> I (i + n) s'"
  using assms
proof (induction n arbitrary: i s)
  case 0
  then show ?case by simp
next
  case (Suc n)
  from Suc.prems obtain t where t: "body i s = Inr t" "I (Suc i) t"
    by (metis add_Suc_right le_refl less_add_Suc1)
  have "\<exists>s'. for_loop body (Suc i) n t = Inr s' \<and> I (Suc i + n) s'"
    using Suc.IH [OF t(2)] Suc.prems(2) by simp
  with t(1) show ?case by simp
qed

lemma for_until_rule:
  assumes "for_until body i n s = Inr (b, s')"
    and "I i s"
    and "\<And>k t t'. i \<le> k \<Longrightarrow> k < i + n \<Longrightarrow> I k t \<Longrightarrow> body k t = Inr (True, t') \<Longrightarrow> I (Suc k) t'"
    and "\<And>k t t'. i \<le> k \<Longrightarrow> k < i + n \<Longrightarrow> I k t \<Longrightarrow> body k t = Inr (False, t') \<Longrightarrow> E t'"
  shows "(b \<longrightarrow> I (i + n) s') \<and> (\<not> b \<longrightarrow> E s')"
  using assms
proof (induction n arbitrary: i s)
  case 0
  then show ?case by simp
next
  case (Suc n)
  from Suc.prems(1) obtain g t where t: "body i s = Inr (g, t)"
    "(if g then for_until body (Suc i) n t else Inr (False, t)) = Inr (b, s')"
    by (auto simp: res_simps)
  show ?case
  proof (cases g)
    case True
    with t(1) Suc.prems(2,3) have "I (Suc i) t" by simp
    from True t(2) have "for_until body (Suc i) n t = Inr (b, s')" by simp
    then have "(b \<longrightarrow> I (Suc i + n) s') \<and> (\<not> b \<longrightarrow> E s')"
      using \<open>I (Suc i) t\<close> Suc.prems(3,4) by (rule Suc.IH) auto
    then show ?thesis by simp
  next
    case False
    with t have "body i s = Inr (False, s')" and "\<not> b" by auto
    with Suc.prems(2) Suc.prems(4) [of i s s'] show ?thesis by simp
  qed
qed

lemma for_until_total:
  assumes "I i s"
    and "\<And>k t. i \<le> k \<Longrightarrow> k < i + n \<Longrightarrow> I k t \<Longrightarrow>
           \<exists>b t'. body k t = Inr (b, t') \<and> (b \<longrightarrow> I (Suc k) t')"
  shows "\<exists>b s'. for_until body i n s = Inr (b, s') \<and> (b \<longrightarrow> I (i + n) s')"
  using assms
proof (induction n arbitrary: i s)
  case 0
  then show ?case by auto
next
  case (Suc n)
  from Suc.prems obtain b t where t: "body i s = Inr (b, t)" "b \<longrightarrow> I (Suc i) t"
    by (metis add_Suc_right le_refl less_add_Suc1)
  show ?case
  proof (cases b)
    case True
    with t(2) have "\<exists>b s'. for_until body (Suc i) n t = Inr (b, s') \<and> (b \<longrightarrow> I (Suc i + n) s')"
      using Suc.IH [of "Suc i" t] Suc.prems(2) by simp
    with True t(1) show ?thesis by simp
  next
    case False
    with t(1) show ?thesis by auto
  qed
qed

section \<open>An interface: steps that keep an invariant\<close>

text \<open>
  The recurring shape of the state machines below: a step that may fault, and an invariant
  under which it does not fault and which it re-establishes. The two consequences, for runs
  of any length, are proved here once.
\<close>

fun run_steps :: "('e \<Rightarrow> 's \<Rightarrow> 's res) \<Rightarrow> 'e list \<Rightarrow> 's \<Rightarrow> 's res" where
  "run_steps step [] s = Inr s"
| "run_steps step (e # es) s = andThen (step e s) (run_steps step es)"

locale invariant_steps =
  fixes step :: "'e \<Rightarrow> 's \<Rightarrow> 's res"
    and inv :: "'s \<Rightarrow> bool"
    and legal :: "'e \<Rightarrow> bool"
  assumes step_keeps: "inv s \<Longrightarrow> legal e \<Longrightarrow> \<exists>s'. step e s = Inr s' \<and> inv s'"
begin

lemma run_keeps:
  "inv s \<Longrightarrow> list_all legal es \<Longrightarrow> \<exists>s'. run_steps step es s = Inr s' \<and> inv s'"
proof (induction es arbitrary: s)
  case Nil
  then show ?case by simp
next
  case (Cons e es)
  from Cons.prems step_keeps obtain t where "step e s = Inr t" "inv t"
    by (metis list.pred_inject(2))
  with Cons.IH [of t] Cons.prems(2) show ?case by simp
qed

lemma run_no_fault: "inv s \<Longrightarrow> list_all legal es \<Longrightarrow> run_steps step es s \<noteq> Inl f"
  using run_keeps by force

end

lemma run_steps_append:
  "run_steps step (xs @ ys) s = andThen (run_steps step xs s) (run_steps step ys)"
proof (induction xs arbitrary: s)
  case Nil
  then show ?case by simp
next
  case (Cons x xs)
  show ?case by (cases "step x s") (simp_all add: Cons.IH)
qed

end
