(* ===== verification/Tvd_Platform.thy ===== *)
theory Tvd_Platform
  imports Tvd_Prelude
begin

text \<open>
  What lies outside the repository: libpdu, libfdio, the Android TV input HAL, the wake lock
  and the POSIX calls. Each call is a field of the record \<open>platform\<close>, a function of the
  opaque outside world \<open>'w\<close>, so that a model of a C function takes the platform as an
  argument and its theorems hold for every behaviour of those libraries. What the program
  relies on is stated as named hypotheses over the record. The theory also holds the data
  that crosses the boundary (PDUs, write and read buffers, TV streams) and the record \<open>env\<close>:
  the live heap objects, the wake lock, the messages handed to the socket so far, what the epoll loop watches for, and the
  outside world.
\<close>

section \<open>Data that crosses the boundary\<close>

text \<open>
  The directives of the format strings of \<open>append_to_pdu\<close> and \<open>read_pdu_at\<close>, and their
  arguments: \<open>C\<close>, \<open>I\<close> and \<open>L\<close> are unsigned integers of 1, 4 and 8 octets, \<open>0\<close> is a string
  with its terminator (doc/ipc.txt gives the field sizes).
\<close>

datatype pdu_fmt = FmtC | FmtI | FmtL | Fmt0

datatype pdu_arg = ArgC u8 | ArgI u32 | ArgL u64 | Arg0 string

fun arg_fmt :: "pdu_arg \<Rightarrow> pdu_fmt" where
  "arg_fmt (ArgC _) = FmtC"
| "arg_fmt (ArgI _) = FmtI"
| "arg_fmt (ArgL _) = FmtL"
| "arg_fmt (Arg0 _) = Fmt0"

fun arg_size :: "pdu_arg \<Rightarrow> nat" where
  "arg_size (ArgC _) = 1"
| "arg_size (ArgI _) = 4"
| "arg_size (ArgL _) = 8"
| "arg_size (Arg0 s) = length s + 1"

definition args_size :: "pdu_arg list \<Rightarrow> nat" where
  "args_size args = sum_list (map arg_size args)"

lemma args_size_simps [simp]:
  "args_size [] = 0"
  "args_size (a # as) = arg_size a + args_size as"
  "args_size (as @ bs) = args_size as + args_size bs"
  by (simp_all add: args_size_def)

text \<open>A PDU: service and opcode octets, then the payload (doc/ipc.txt, IPC protocol).\<close>

record pdu =
  pdu_service :: u8
  pdu_opcode :: u8
  pdu_data :: "u8 list"

text \<open>
  The tail area of a write buffer, used by tvd for \<open>struct ancillary_data\<close>: where the structure
  lies, its count and the descriptors.
\<close>

record ancillary =
  anc_base :: nat
  anc_fd_num :: i32
  anc_fds :: "i32 list"

record wbuf =
  wb_addr :: nat               \<comment> \<open>the heap object\<close>
  wb_size :: nat               \<comment> \<open>payload capacity given to \<open>create_pdu_wbuf\<close>\<close>
  wb_tail_size :: nat          \<comment> \<open>size of the tail area\<close>
  wb_ancillary :: bool         \<comment> \<open>was \<open>build_ancillary_data\<close> given as callback\<close>
  wb_tail :: "ancillary option" \<comment> \<open>contents of the tail area\<close>
  wb_pdu :: pdu

record rbuf =
  rb_addr :: nat
  rb_maxlen :: nat
  rb_len :: nat
  rb_raw :: "u8 list"

text \<open>hardware/tv_input.h and system/window.h: events, stream configurations, streams, handles.\<close>

datatype event_type =
    TV_INPUT_EVENT_DEVICE_AVAILABLE
  | TV_INPUT_EVENT_DEVICE_UNAVAILABLE
  | TV_INPUT_EVENT_STREAM_CONFIGURATIONS_CHANGED
  | TV_INPUT_EVENT_OTHER

record tv_event =
  ev_type :: event_type
  ev_device_id :: i32
  ev_device_type :: i32

record native_handle =
  nh_version :: i32
  nh_numFds :: i32
  nh_numInts :: i32
  nh_data :: "i32 list"

record stream_config =
  sc_stream_id :: i32
  sc_type :: i32
  sc_max_width :: i32
  sc_max_height :: i32

record tv_stream =
  ts_type :: i32
  ts_stream_id :: i32
  ts_width :: i32
  ts_height :: i32
  ts_handle :: "native_handle ptr"

section \<open>The platform\<close>

record 'w platform =
  \<comment> \<open>compiler and C library\<close>
  char_is_signed :: bool
  ptr_size :: nat                                  \<comment> \<open>\<open>sizeof(void*)\<close>, also that of \<open>size_t\<close>\<close>
  junk :: u32                                      \<comment> \<open>what uninitialised integers happen to hold\<close>
  malloc_ok :: "nat \<Rightarrow> 'w \<Rightarrow> bool \<times> 'w"            \<comment> \<open>does an allocation of this size succeed\<close>
  cmsg_hdr :: nat                                  \<comment> \<open>\<open>sizeof(struct cmsghdr)\<close>\<close>
  cmsg_space :: "nat \<Rightarrow> nat"
  cmsg_len :: "nat \<Rightarrow> nat"
  \<comment> \<open>libpdu\<close>
  PDU_MAX_NUM_SERVICES :: nat
  PDU_MAX_NUM_OPCODES :: nat
  PDU_MAX_DATA_LENGTH :: nat
  create_pdu_wbuf_ok :: "nat \<Rightarrow> nat \<Rightarrow> 'w \<Rightarrow> bool \<times> 'w"
  create_pdu_rbuf_ok :: "nat \<Rightarrow> 'w \<Rightarrow> bool \<times> 'w"
  append_to_pdu :: "pdu \<Rightarrow> pdu_arg list \<Rightarrow> pdu option"  \<comment> \<open>\<open>None\<close>: negative result\<close>
  read_pdu_at :: "pdu \<Rightarrow> nat \<Rightarrow> pdu_fmt list \<Rightarrow> pdu_arg list option"
  pdu_wbuf_tail :: "wbuf \<Rightarrow> nat"                   \<comment> \<open>address of the tail area\<close>
  send_pdu_wbuf :: "wbuf \<Rightarrow> int \<Rightarrow> 'w \<Rightarrow> int \<times> 'w"  \<comment> \<open>0: the operation would block\<close>
  pdu_rbuf_has_pdu :: "rbuf \<Rightarrow> bool"
  pdu_rbuf_is_full :: "rbuf \<Rightarrow> bool"
  rbuf_pdu :: "rbuf \<Rightarrow> pdu"                        \<comment> \<open>\<open>buf.pdu\<close>, the received octets as a PDU\<close>
  \<comment> \<open>libfdio\<close>
  sizeof_fd_events :: nat                          \<comment> \<open>\<open>sizeof(struct fd_events)\<close>\<close>
  add_fd_events_to_epoll_loop :: "int \<Rightarrow> u32 \<Rightarrow> 'w \<Rightarrow> int \<times> 'w"
  remove_fd_from_epoll_loop :: "int \<Rightarrow> 'w \<Rightarrow> 'w"
  run_task :: "wbuf \<Rightarrow> 'w \<Rightarrow> int \<times> 'w"
  init_task_queue :: "'w \<Rightarrow> int \<times> 'w"
  uninit_task_queue :: "'w \<Rightarrow> 'w"
  \<comment> \<open>POSIX, each retried on \<open>EINTR\<close>\<close>
  recvmsg :: "int \<Rightarrow> nat \<Rightarrow> 'w \<Rightarrow> (int \<times> u8 list) \<times> 'w"
  close_fd :: "int \<Rightarrow> 'w \<Rightarrow> int \<times> 'w"
  socket :: "'w \<Rightarrow> int \<times> 'w"
  fcntl_getfd :: "int \<Rightarrow> 'w \<Rightarrow> i32 \<times> 'w"
  fcntl_setfd :: "int \<Rightarrow> i32 \<Rightarrow> 'w \<Rightarrow> int \<times> 'w"
  fcntl_getfl :: "int \<Rightarrow> 'w \<Rightarrow> i32 \<times> 'w"
  fcntl_setfl :: "int \<Rightarrow> i32 \<Rightarrow> 'w \<Rightarrow> int \<times> 'w"
  connect_fd :: "int \<Rightarrow> u8 list \<Rightarrow> nat \<Rightarrow> 'w \<Rightarrow> int \<times> 'w"
  setsid :: "'w \<Rightarrow> int \<times> 'w"
  umask :: "u32 \<Rightarrow> 'w \<Rightarrow> u32 \<times> 'w"
  chdir :: "string \<Rightarrow> 'w \<Rightarrow> int \<times> 'w"
  \<comment> \<open>Android TV input HAL\<close>
  TV_INPUT_TYPE_TUNER :: i32
  TV_STREAM_TYPE_INDEPENDENT_VIDEO_SOURCE :: i32
  TV_STREAM_TYPE_BUFFER_PRODUCER :: i32
  hw_get_module :: "'w \<Rightarrow> int \<times> 'w"
  hw_module_open :: "'w \<Rightarrow> int \<times> 'w"
  hw_initialize :: "'w \<Rightarrow> (int \<times> tv_event list) \<times> 'w"  \<comment> \<open>result, events signalled meanwhile\<close>
  get_stream_configurations :: "i32 \<Rightarrow> 'w \<Rightarrow> (int \<times> stream_config list) \<times> 'w"
  open_stream :: "i32 \<Rightarrow> tv_stream \<Rightarrow> 'w \<Rightarrow> (int \<times> tv_stream) \<times> 'w"
  close_stream :: "i32 \<Rightarrow> i32 \<Rightarrow> 'w \<Rightarrow> int \<times> 'w"

text \<open>Arithmetic of type \<open>size_t\<close>.\<close>

definition to_size :: "'w platform \<Rightarrow> int \<Rightarrow> nat" where
  "to_size P n = nat (n mod 2 ^ (8 * ptr_size P))"

lemma to_size_id: "0 \<le> n \<Longrightarrow> n < 2 ^ (8 * ptr_size P) \<Longrightarrow> to_size P n = nat n"
  by (simp add: to_size_def)

section \<open>The environment\<close>

record 'w env =
  live :: "nat set"        \<comment> \<open>addresses of the live objects\<close>
  next_addr :: nat
  awake :: bool            \<comment> \<open>was the last wake-lock call an \<open>acquire_wake_lock\<close>\<close>
  sent :: "pdu list"       \<comment> \<open>PDUs for which \<open>send_pdu_wbuf\<close> has not returned 0, oldest first\<close>
  watched :: "int \<Rightarrow> u32 option"  \<comment> \<open>events the epoll loop watches for, by descriptor\<close>
  world :: 'w

definition ext_call :: "('w \<Rightarrow> 'a \<times> 'w) \<Rightarrow> 'w env \<Rightarrow> 'a \<times> 'w env" where
  "ext_call f e = (case f (world e) of (r, w) \<Rightarrow> (r, e\<lparr>world := w\<rparr>))"

definition fresh :: "'w env \<Rightarrow> nat \<times> 'w env" where
  "fresh e = (next_addr e, e\<lparr>live := insert (next_addr e) (live e), next_addr := Suc (next_addr e)\<rparr>)"

definition malloc :: "'w platform \<Rightarrow> nat \<Rightarrow> 'a \<Rightarrow> 'w env \<Rightarrow> 'a ptr \<times> 'w env" where
  "malloc P n contents e =
     (case ext_call (malloc_ok P n) e of
        (ok, e1) \<Rightarrow> if ok then (case fresh e1 of (a, e2) \<Rightarrow> (Ptr a contents, e2)) else (Null, e1))"

definition free_ptr :: "'a ptr \<Rightarrow> 'w env \<Rightarrow> 'w env res" where
  "free_ptr p e =
     (case p of
        Null \<Rightarrow> Inr e
      | Wild \<Rightarrow> Inl Bad_free
      | Ptr a _ \<Rightarrow> if a \<in> live e then Inr (e\<lparr>live := live e - {a}\<rparr>) else Inl Bad_free)"

definition acquire_wake_lock :: "'w env \<Rightarrow> 'w env" where
  "acquire_wake_lock e = e\<lparr>awake := True\<rparr>"

definition release_wake_lock :: "'w env \<Rightarrow> 'w env" where
  "release_wake_lock e = e\<lparr>awake := False\<rparr>"

text \<open>The epoll loop: a successful call replaces what is watched for the descriptor.\<close>

definition add_fd_events :: "'w platform \<Rightarrow> int \<Rightarrow> u32 \<Rightarrow> 'w env \<Rightarrow> int \<times> 'w env" where
  "add_fd_events P fd events e =
     (case ext_call (add_fd_events_to_epoll_loop P fd events) e of
        (r, e1) \<Rightarrow> (r, if r < 0 then e1 else e1\<lparr>watched := (watched e1)(fd := Some events)\<rparr>))"

definition remove_fd :: "'w platform \<Rightarrow> int \<Rightarrow> 'w env \<Rightarrow> 'w env" where
  "remove_fd P fd e =
     e\<lparr>world := remove_fd_from_epoll_loop P fd (world e), watched := (watched e)(fd := None)\<rparr>"

text \<open>Live addresses lie below the next one to be handed out.\<close>

definition env_wf :: "'w env \<Rightarrow> bool" where
  "env_wf e \<longleftrightarrow> (\<forall>a \<in> live e. a < next_addr e)"

lemma env_wf_fresh: "env_wf e \<Longrightarrow> next_addr e \<notin> live e"
  by (auto simp: env_wf_def)

lemma free_ptr_simps [simp]:
  "free_ptr Null e = Inr e"
  "free_ptr Wild e = Inl Bad_free"
  "free_ptr (Ptr a v) e =
     (if a \<in> live e then Inr (e\<lparr>live := live e - {a}\<rparr>) else Inl Bad_free)"
  by (simp_all add: free_ptr_def)

lemma free_ptr_Inr:
  "free_ptr p e = Inr e' \<Longrightarrow> e' = e\<lparr>live := live e'\<rparr> \<and> live e' \<subseteq> live e"
  by (cases p) (auto split: if_splits)

lemma ext_call_env:
  "ext_call f e = (r, e') \<Longrightarrow>
     live e' = live e \<and> next_addr e' = next_addr e \<and> awake e' = awake e \<and> sent e' = sent e \<and>
     watched e' = watched e"
  by (auto simp: ext_call_def split: prod.splits)

lemma add_fd_events_env:
  assumes "add_fd_events P fd ev e = (r, e')"
  shows "live e' = live e" "next_addr e' = next_addr e" "awake e' = awake e" "sent e' = sent e"
    "watched e' = (if r < 0 then watched e else (watched e)(fd := Some ev))"
  using assms by (auto simp: add_fd_events_def ext_call_def split: prod.splits if_splits)

lemma remove_fd_env [simp]:
  "live (remove_fd P fd e) = live e" "next_addr (remove_fd P fd e) = next_addr e"
  "awake (remove_fd P fd e) = awake e" "sent (remove_fd P fd e) = sent e"
  "watched (remove_fd P fd e) = (watched e)(fd := None)"
  by (simp_all add: remove_fd_def)

lemma env_wf_ext_call: "ext_call f e = (r, e') \<Longrightarrow> env_wf e' = env_wf e"
  by (drule ext_call_env) (simp add: env_wf_def)

lemma env_wf_free: "free_ptr p e = Inr e' \<Longrightarrow> env_wf e \<Longrightarrow> env_wf e'"
  by (cases p) (auto simp: env_wf_def split: if_splits)

end
