(* ===== verification/Tvd_Pdubuf.thy ===== *)
theory Tvd_Pdubuf
  imports Tvd_Platform
begin

text \<open>
  Write buffers as tvd uses them. A buffer is a heap object with room for \<open>wb_size\<close>
  octets of payload, and \<open>append_to_pdu\<close> is handed the PDU inside it and not the capacity, so
  staying inside the buffer is the caller's duty: \<open>wbuf_append\<close> faults when an append leaves
  it. The second half names what tvd relies on libpdu for, and gives one platform that
  satisfies it, on which the closed examples of the development are evaluated.
\<close>

section \<open>Buffers\<close>

definition create_pdu_wbuf ::
  "'w platform \<Rightarrow> nat \<Rightarrow> nat \<Rightarrow> bool \<Rightarrow> 'w env \<Rightarrow> wbuf option \<times> 'w env" where
  "create_pdu_wbuf P sz tail_size ancillary_cb e =
     (case ext_call (create_pdu_wbuf_ok P sz tail_size) e of
        (ok, e1) \<Rightarrow>
          if ok then
            (case fresh e1 of (a, e2) \<Rightarrow>
               (Some \<lparr>wb_addr = a, wb_size = sz, wb_tail_size = tail_size,
                      wb_ancillary = ancillary_cb, wb_tail = None,
                      wb_pdu = \<lparr>pdu_service = 0, pdu_opcode = 0, pdu_data = []\<rparr>\<rparr>, e2))
          else (None, e1))"

definition destroy_pdu_wbuf :: "wbuf \<Rightarrow> 'w env \<Rightarrow> 'w env res" where
  "destroy_pdu_wbuf w e = free_ptr (Ptr (wb_addr w) ()) e"

definition init_pdu :: "u8 \<Rightarrow> u8 \<Rightarrow> wbuf \<Rightarrow> wbuf" where
  "init_pdu service opcode w =
     w\<lparr>wb_pdu := \<lparr>pdu_service = service, pdu_opcode = opcode, pdu_data = []\<rparr>\<rparr>"

definition wbuf_append :: "'w platform \<Rightarrow> pdu_arg list \<Rightarrow> wbuf \<Rightarrow> (bool \<times> wbuf) res" where
  "wbuf_append P args w =
     (case append_to_pdu P (wb_pdu w) args of
        None \<Rightarrow> Inr (False, w)
      | Some q \<Rightarrow>
          if length (pdu_data q) \<le> wb_size w then Inr (True, w\<lparr>wb_pdu := q\<rparr>)
          else Inl Out_of_bounds)"

text \<open>
  \<open>append_to_pdu\<close> takes its arguments as a variadic function does. \<open>wbuf_append\<close> stands for the
  calls whose format is that of their arguments; \<open>wbuf_append_fmt\<close> has the format of its own, and a
  missing argument or one of another type is a fault (surplus arguments are ignored).
\<close>

definition wbuf_append_fmt ::
  "'w platform \<Rightarrow> pdu_fmt list \<Rightarrow> pdu_arg list \<Rightarrow> wbuf \<Rightarrow> (bool \<times> wbuf) res" where
  "wbuf_append_fmt P fmt args w =
     (if take (length fmt) (map arg_fmt args) = fmt then wbuf_append P (take (length fmt) args) w
      else Inl Bad_vararg)"

definition wbuf_used :: "wbuf \<Rightarrow> nat" where
  "wbuf_used w = length (pdu_data (wb_pdu w))"

lemma create_pdu_wbuf_None:
  "create_pdu_wbuf P n t c e = (None, e') \<Longrightarrow> ext_call (create_pdu_wbuf_ok P n t) e = (False, e')"
  by (auto simp: create_pdu_wbuf_def split: prod.splits if_splits)

lemma create_pdu_wbuf_Some:
  assumes "create_pdu_wbuf P n t c e = (Some w, e')"
  shows "wb_addr w = next_addr e" "wb_size w = n" "wb_tail_size w = t" "wb_ancillary w = c"
    "wb_tail w = None" "live e' = insert (next_addr e) (live e)"
    "next_addr e' = Suc (next_addr e)" "sent e' = sent e" "awake e' = awake e"
  using assms
  by (auto simp: create_pdu_wbuf_def fresh_def ext_call_def split: prod.splits if_splits)

lemma create_pdu_wbuf_env:
  assumes "create_pdu_wbuf P n t c e = (r, e')"
  shows "sent e' = sent e" "awake e' = awake e" "live e \<subseteq> live e'"
  using assms
  by (auto simp: create_pdu_wbuf_def fresh_def ext_call_def split: prod.splits if_splits)

lemma create_pdu_wbuf_wf:
  "create_pdu_wbuf P n t c e = (r, e') \<Longrightarrow> env_wf e \<Longrightarrow> env_wf e'"
  by (auto simp: create_pdu_wbuf_def fresh_def ext_call_def env_wf_def less_Suc_eq
      split: prod.splits if_splits)

lemma destroy_pdu_wbuf_Inr [res_simps]:
  "destroy_pdu_wbuf w e = Inr e' \<longleftrightarrow> wb_addr w \<in> live e \<and> e' = e\<lparr>live := live e - {wb_addr w}\<rparr>"
  by (auto simp: destroy_pdu_wbuf_def)

lemma init_pdu_simps [simp]:
  "wb_addr (init_pdu s c w) = wb_addr w" "wb_size (init_pdu s c w) = wb_size w"
  "wb_tail_size (init_pdu s c w) = wb_tail_size w"
  "wb_ancillary (init_pdu s c w) = wb_ancillary w" "wb_tail (init_pdu s c w) = wb_tail w"
  "wb_pdu (init_pdu s c w) = \<lparr>pdu_service = s, pdu_opcode = c, pdu_data = []\<rparr>"
  "wbuf_used (init_pdu s c w) = 0"
  by (simp_all add: init_pdu_def wbuf_used_def)

lemma wbuf_append_Inr [res_simps]:
  "wbuf_append P args w = Inr (ok, w') \<longleftrightarrow>
     (\<not> ok \<and> append_to_pdu P (wb_pdu w) args = None \<and> w' = w) \<or>
     (ok \<and> (\<exists>q. append_to_pdu P (wb_pdu w) args = Some q \<and> length (pdu_data q) \<le> wb_size w \<and>
                w' = w\<lparr>wb_pdu := q\<rparr>))"
  by (auto simp: wbuf_append_def split: option.splits)

lemma wbuf_append_frame:
  assumes "wbuf_append P args w = Inr (ok, w')"
  shows "wb_addr w' = wb_addr w" "wb_size w' = wb_size w" "wb_tail_size w' = wb_tail_size w"
    "wb_ancillary w' = wb_ancillary w" "wb_tail w' = wb_tail w"
  using assms by (auto simp: res_simps)

section \<open>What tvd relies on\<close>

text \<open>
  \<open>pdu_codec P enc\<close>: appending adds the encodings of the arguments to the payload and leaves
  the header alone, an encoding has the size doc/ipc.txt gives for it, and reading where
  encoded arguments lie, in the same format, gives them back (strings of the program hold no
  null character, since they are C strings). The encoding itself, the byte order in
  particular, is not in this repository and stays a parameter.
\<close>

fun arg_ok :: "pdu_arg \<Rightarrow> bool" where
  "arg_ok (Arg0 s) = (CHR 0x00 \<notin> set s)"
| "arg_ok _ = True"

definition encodes :: "(pdu_arg \<Rightarrow> u8 list) \<Rightarrow> pdu_arg list \<Rightarrow> u8 list" where
  "encodes enc args = concat (map enc args)"

definition pdu_codec :: "'w platform \<Rightarrow> (pdu_arg \<Rightarrow> u8 list) \<Rightarrow> bool" where
  "pdu_codec P enc \<longleftrightarrow>
     (\<forall>a. length (enc a) = arg_size a) \<and>
     (\<forall>p args q. append_to_pdu P p args = Some q \<longrightarrow>
        q = p\<lparr>pdu_data := pdu_data p @ encodes enc args\<rparr>) \<and>
     (\<forall>p args xs ys. list_all arg_ok args \<longrightarrow> pdu_data p = xs @ encodes enc args @ ys \<longrightarrow>
        read_pdu_at P p (length xs) (map arg_fmt args) = Some args)"

text \<open>An append succeeds when the payload stays within the protocol's maximum.\<close>

definition append_total :: "'w platform \<Rightarrow> bool" where
  "append_total P \<longleftrightarrow>
     (\<forall>p args. length (pdu_data p) + args_size args \<le> PDU_MAX_DATA_LENGTH P \<longrightarrow>
        append_to_pdu P p args \<noteq> None)"

text \<open>\<open>read_pdu_at\<close> fills one variable per directive.\<close>

definition read_typed :: "'w platform \<Rightarrow> bool" where
  "read_typed P \<longleftrightarrow>
     (\<forall>p off fmt args. read_pdu_at P p off fmt = Some args \<longrightarrow> map arg_fmt args = fmt)"

text \<open>Service ids and opcodes are one octet, and the look-up tables have an entry for each.\<close>

definition octet_tables :: "'w platform \<Rightarrow> bool" where
  "octet_tables P \<longleftrightarrow> PDU_MAX_NUM_SERVICES P = 256 \<and> PDU_MAX_NUM_OPCODES P = 256"

lemma length_encodes:
  "pdu_codec P enc \<Longrightarrow> length (encodes enc args) = args_size args"
  by (induction args) (auto simp: encodes_def pdu_codec_def)

lemma encodes_simps [simp]:
  "encodes enc [] = []"
  "encodes enc (a # as) = enc a @ encodes enc as"
  "encodes enc (as @ bs) = encodes enc as @ encodes enc bs"
  by (simp_all add: encodes_def)

lemma codec_append:
  "pdu_codec P enc \<Longrightarrow> append_to_pdu P p args = Some q \<Longrightarrow>
     q = p\<lparr>pdu_data := pdu_data p @ encodes enc args\<rparr>"
  by (simp add: pdu_codec_def)

lemma codec_append_length:
  "pdu_codec P enc \<Longrightarrow> append_to_pdu P p args = Some q \<Longrightarrow>
     length (pdu_data q) = length (pdu_data p) + args_size args"
  by (drule (1) codec_append [rotated]) (simp add: length_encodes)

lemma codec_read:
  "pdu_codec P enc \<Longrightarrow> list_all arg_ok args \<Longrightarrow> pdu_data p = xs @ encodes enc args @ ys \<Longrightarrow>
     read_pdu_at P p (length xs) (map arg_fmt args) = Some args"
  unfolding pdu_codec_def by blast

lemma wbuf_append_codec:
  assumes "pdu_codec P enc" "wbuf_append P args w = Inr (True, w')"
  shows "w' = w\<lparr>wb_pdu := (wb_pdu w)\<lparr>pdu_data := pdu_data (wb_pdu w) @ encodes enc args\<rparr>\<rparr>"
    and "wbuf_used w' = wbuf_used w + args_size args" "wbuf_used w' \<le> wb_size w"
  using assms(2) codec_append [OF assms(1)] codec_append_length [OF assms(1)]
  by (auto simp: res_simps wbuf_used_def)

lemma wbuf_append_no_overflow:
  assumes "pdu_codec P enc" "wbuf_used w + args_size args \<le> wb_size w"
  shows "wbuf_append P args w \<noteq> Inl f"
  using assms(2) codec_append_length [OF assms(1)]
  by (auto simp: wbuf_append_def wbuf_used_def split: option.splits)

lemma wbuf_append_succeeds:
  assumes "pdu_codec P enc" "append_total P"
    and "wbuf_used w + args_size args \<le> wb_size w"
    and "wbuf_used w + args_size args \<le> PDU_MAX_DATA_LENGTH P"
  shows "wbuf_append P args w =
           Inr (True, w\<lparr>wb_pdu := (wb_pdu w)\<lparr>pdu_data := pdu_data (wb_pdu w) @ encodes enc args\<rparr>\<rparr>)"
proof -
  obtain q where q: "append_to_pdu P (wb_pdu w) args = Some q"
    using assms(2,4) by (auto simp: append_total_def wbuf_used_def)
  moreover have "q = (wb_pdu w)\<lparr>pdu_data := pdu_data (wb_pdu w) @ encodes enc args\<rparr>"
    using codec_append [OF assms(1) q] .
  ultimately show ?thesis
    using assms(3) length_encodes [OF assms(1)] by (simp add: wbuf_append_def wbuf_used_def)
qed

section \<open>A platform that satisfies the hypotheses\<close>

fun le_bytes :: "nat \<Rightarrow> nat \<Rightarrow> u8 list" where
  "le_bytes 0 n = []"
| "le_bytes (Suc k) n = of_nat n # le_bytes k (n div 256)"

fun le_value :: "u8 list \<Rightarrow> nat" where
  "le_value [] = 0"
| "le_value (b # bs) = unat b + 256 * le_value bs"

lemma length_le_bytes [simp]: "length (le_bytes k n) = k"
  by (induction k arbitrary: n) auto

lemma le_value_le_bytes: "le_value (le_bytes k n) = n mod 256 ^ k"
  by (induction k arbitrary: n) (simp_all add: unat_of_nat mod_mult2_eq)

definition byte_of :: "char \<Rightarrow> u8" where
  "byte_of c = of_nat (of_char c)"

definition char_of_byte :: "u8 \<Rightarrow> char" where
  "char_of_byte b = char_of (unat b)"

lemma of_char_less: "(of_char c :: nat) < 256"
  by (metis of_char_mod_256 mod_less_divisor zero_less_numeral)

lemma char_of_byte_of [simp]: "char_of_byte (byte_of c) = c"
  using of_char_less [of c] by (simp add: byte_of_def char_of_byte_def unat_of_nat)

lemma byte_of_eq_0 [simp]: "byte_of c = 0 \<longleftrightarrow> c = CHR 0x00"
proof
  assume "byte_of c = 0"
  then have "char_of_byte (byte_of c) = char_of_byte 0" by simp
  then have "c = char_of_byte 0" by simp
  then show "c = CHR 0x00" by (simp add: char_of_byte_def char_of_def)
qed (simp add: byte_of_def of_char_def)

fun sample_enc :: "pdu_arg \<Rightarrow> u8 list" where
  "sample_enc (ArgC b) = [b]"
| "sample_enc (ArgI w) = le_bytes 4 (unat w)"
| "sample_enc (ArgL w) = le_bytes 8 (unat w)"
| "sample_enc (Arg0 s) = map byte_of s @ [0]"

fun sample_dec :: "pdu_fmt list \<Rightarrow> u8 list \<Rightarrow> pdu_arg list option" where
  "sample_dec [] bs = Some []"
| "sample_dec (FmtC # fs) bs =
     (case bs of [] \<Rightarrow> None | b # r \<Rightarrow> map_option ((#) (ArgC b)) (sample_dec fs r))"
| "sample_dec (FmtI # fs) bs =
     (if length bs < 4 then None
      else map_option ((#) (ArgI (of_nat (le_value (take 4 bs))))) (sample_dec fs (drop 4 bs)))"
| "sample_dec (FmtL # fs) bs =
     (if length bs < 8 then None
      else map_option ((#) (ArgL (of_nat (le_value (take 8 bs))))) (sample_dec fs (drop 8 bs)))"
| "sample_dec (Fmt0 # fs) bs =
     (case dropWhile (\<lambda>b. b \<noteq> 0) bs of
        [] \<Rightarrow> None
      | _ # r \<Rightarrow> map_option ((#) (Arg0 (map char_of_byte (takeWhile (\<lambda>b. b \<noteq> 0) bs))))
                   (sample_dec fs r))"

lemma sample_dec_enc:
  "list_all arg_ok args \<Longrightarrow>
     sample_dec (map arg_fmt args) (encodes sample_enc args @ ys) = Some args"
proof (induction args)
  case Nil
  then show ?case by simp
next
  case (Cons a args)
  then have IH: "sample_dec (map arg_fmt args) (encodes sample_enc args @ ys) = Some args"
    by simp
  show ?case
  proof (cases a)
    case (ArgI w)
    then show ?thesis
      using IH unat_bound32 [of w]
      by (simp add: le_value_le_bytes del: le_bytes.simps)
  next
    case (ArgL w)
    then show ?thesis
      using IH unat_bound64 [of w]
      by (simp add: le_value_le_bytes del: le_bytes.simps)
  next
    case (Arg0 s)
    with Cons.prems have "CHR 0x00 \<notin> set s" by simp
    then have nz: "\<forall>b \<in> set (map byte_of s). b \<noteq> 0" by auto
    have "map char_of_byte (map byte_of s) = s" by (simp add: o_def)
    then show ?thesis
      using Arg0 IH nz
      by (simp add: takeWhile_append2 dropWhile_append2 takeWhile_append dropWhile_append)
  qed (use IH in simp)
qed

lemma length_sample_enc: "length (sample_enc a) = arg_size a"
  by (cases a) (simp_all del: le_bytes.simps)

definition sample_append :: "pdu \<Rightarrow> pdu_arg list \<Rightarrow> pdu option" where
  "sample_append p args =
     (let d = pdu_data p @ encodes sample_enc args
      in if length d \<le> 65535 then Some (p\<lparr>pdu_data := d\<rparr>) else None)"

definition sample_platform :: "unit platform" where
  "sample_platform =
     \<lparr>char_is_signed = True, ptr_size = 8, junk = 0xDEADBEEF, malloc_ok = \<lambda>_ w. (True, w),
      cmsg_hdr = 16, cmsg_space = \<lambda>n. 16 + 8 * ((n + 7) div 8), cmsg_len = \<lambda>n. 16 + n,
      PDU_MAX_NUM_SERVICES = 256, PDU_MAX_NUM_OPCODES = 256, PDU_MAX_DATA_LENGTH = 65535,
      create_pdu_wbuf_ok = \<lambda>_ _ w. (True, w), create_pdu_rbuf_ok = \<lambda>_ w. (True, w),
      append_to_pdu = sample_append,
      read_pdu_at = \<lambda>p off fmt. sample_dec fmt (drop off (pdu_data p)),
      pdu_wbuf_tail = \<lambda>w. 4096 + wb_size w, send_pdu_wbuf = \<lambda>_ _ w. (1, w),
      pdu_rbuf_has_pdu = \<lambda>b. 4 \<le> rb_len b, pdu_rbuf_is_full = \<lambda>b. rb_len b = rb_maxlen b,
      rbuf_pdu = \<lambda>b. \<lparr>pdu_service = rb_raw b ! 0, pdu_opcode = rb_raw b ! 1,
                       pdu_data = drop 4 (take (rb_len b) (rb_raw b))\<rparr>,
      sizeof_fd_events = 40, add_fd_events_to_epoll_loop = \<lambda>_ _ w. (0, w), remove_fd_from_epoll_loop = \<lambda>_ w. w,
      run_task = \<lambda>_ w. (0, w), init_task_queue = \<lambda>w. (0, w), uninit_task_queue = \<lambda>w. w,
      recvmsg = \<lambda>_ _ w. ((0, []), w), close_fd = \<lambda>_ w. (0, w), socket = \<lambda>w. (3, w),
      fcntl_getfd = \<lambda>_ w. (0, w), fcntl_setfd = \<lambda>_ _ w. (0, w), fcntl_getfl = \<lambda>_ w. (0, w),
      fcntl_setfl = \<lambda>_ _ w. (0, w), connect_fd = \<lambda>_ _ _ w. (0, w),
      setsid = \<lambda>w. (1, w), umask = \<lambda>_ w. (18, w), chdir = \<lambda>_ w. (0, w),
      TV_INPUT_TYPE_TUNER = 1, TV_STREAM_TYPE_INDEPENDENT_VIDEO_SOURCE = 1,
      TV_STREAM_TYPE_BUFFER_PRODUCER = 2,
      hw_get_module = \<lambda>w. (0, w), hw_module_open = \<lambda>w. (0, w), hw_initialize = \<lambda>w. ((0, []), w),
      get_stream_configurations = \<lambda>_ w. ((0, []), w),
      open_stream = \<lambda>_ s w. ((0, s), w), close_stream = \<lambda>_ _ w. (0, w)\<rparr>"

definition sample_env :: "unit env" where
  "sample_env = \<lparr>live = {}, next_addr = 1, awake = False, sent = [], watched = \<lambda>_. None, world = ()\<rparr>"

lemma sample_append_codec:
  "append_to_pdu P = sample_append \<Longrightarrow>
   read_pdu_at P = (\<lambda>p off fmt. sample_dec fmt (drop off (pdu_data p))) \<Longrightarrow>
   pdu_codec P sample_enc"
  by (auto simp: pdu_codec_def length_sample_enc sample_append_def sample_dec_enc Let_def
      split: if_splits)

lemma sample_codec: "pdu_codec sample_platform sample_enc"
  by (rule sample_append_codec) (simp_all add: sample_platform_def)

lemma sample_append_total: "append_total sample_platform"
proof -
  have "length (encodes sample_enc args) = args_size args" for args
    using length_encodes [OF sample_codec] .
  then show ?thesis
    by (simp add: append_total_def sample_platform_def sample_append_def Let_def)
qed

lemma sample_dec_typed: "sample_dec fmt bs = Some args \<Longrightarrow> map arg_fmt args = fmt"
  by (induction fmt bs arbitrary: args rule: sample_dec.induct)
    (auto split: list.splits if_splits)

lemma sample_read_typed: "read_typed sample_platform"
  by (auto simp: read_typed_def sample_platform_def dest: sample_dec_typed)

lemma sample_octet_tables: "octet_tables sample_platform"
  by (simp add: octet_tables_def sample_platform_def)

text \<open>The components of the sample platform, for evaluation without unfolding the record.\<close>

lemma sample_platform_fields [simp]:
  "char_is_signed sample_platform" "ptr_size sample_platform = 8"
  "malloc_ok sample_platform n w = (True, w)"
  "cmsg_hdr sample_platform = 16" "cmsg_space sample_platform n = 16 + 8 * ((n + 7) div 8)"
  "cmsg_len sample_platform n = 16 + n"
  "PDU_MAX_NUM_SERVICES sample_platform = 256" "PDU_MAX_NUM_OPCODES sample_platform = 256"
  "PDU_MAX_DATA_LENGTH sample_platform = 65535"
  "create_pdu_wbuf_ok sample_platform m t w = (True, w)"
  "create_pdu_rbuf_ok sample_platform m w = (True, w)"
  "append_to_pdu sample_platform = sample_append"
  "read_pdu_at sample_platform p off fmt = sample_dec fmt (drop off (pdu_data p))"
  "pdu_wbuf_tail sample_platform b = 4096 + wb_size b"
  "send_pdu_wbuf sample_platform b fd w = (1, w)"
  "add_fd_events_to_epoll_loop sample_platform fd ev w = (0, w)"
  "remove_fd_from_epoll_loop sample_platform fd w = w"
  "TV_INPUT_TYPE_TUNER sample_platform = 1"
  "TV_STREAM_TYPE_INDEPENDENT_VIDEO_SOURCE sample_platform = 1"
  "TV_STREAM_TYPE_BUFFER_PRODUCER sample_platform = 2"
  "hw_get_module sample_platform w = (0, w)" "hw_module_open sample_platform w = (0, w)"
  "hw_initialize sample_platform w = ((0, []), w)"
  "recvmsg sample_platform fd len w = ((0, []), w)" "close_fd sample_platform fd w = (0, w)"
  "socket sample_platform w = (3, w)"
  "fcntl_getfd sample_platform fd w = (0, w)" "fcntl_setfd sample_platform fd fl w = (0, w)"
  "fcntl_getfl sample_platform fd w = (0, w)" "fcntl_setfl sample_platform fd fl w = (0, w)"
  "connect_fd sample_platform fd addr len w = (0, w)"
  "close_stream sample_platform dv st w = (0, w)"
  "get_stream_configurations sample_platform dv w = ((0, []), w)"
  "pdu_rbuf_has_pdu sample_platform rb = (4 \<le> rb_len rb)"
  "pdu_rbuf_is_full sample_platform rb = (rb_len rb = rb_maxlen rb)"
  "run_task sample_platform b w = (0, w)" "init_task_queue sample_platform w = (0, w)"
  by (simp_all add: sample_platform_def)

lemma sample_env_fields [simp]:
  "live sample_env = {}" "next_addr sample_env = 1" "\<not> awake sample_env" "sent sample_env = []"
  "watched sample_env = (\<lambda>_. None)" "world sample_env = ()"
  by (simp_all add: sample_env_def)

lemma ext_call_unit [simp]: "ext_call f (e :: unit env) = (fst (f ()), e)"
  by (simp add: ext_call_def split: prod.splits)

end
