(* ===== verification/Io_State.thy ===== *)
theory Io_State
  imports Tvd_Pdubuf "HOL-Library.While_Combinator"
begin

text \<open>
  The part of io.c that is about one connection: \<open>struct io_state\<close> with its send queue, and
  the operations \<open>io_state_err\<close>, \<open>io_state_hup\<close>, \<open>io_state_send_pending_wbufs\<close>, \<open>io_state_out\<close> and
  \<open>io_state_send\<close>. The abstract view is one output stream, the PDUs taken by the socket
  followed by those that wait: sending appends to it, and flushing does not change it.
\<close>

section \<open>State\<close>

definition EPOLLIN :: u32 where "EPOLLIN = 0x001"
definition EPOLLOUT :: u32 where "EPOLLOUT = 0x004"
definition EPOLLERR :: u32 where "EPOLLERR = 0x008"

lemmas epoll_defs = EPOLLIN_def EPOLLOUT_def EPOLLERR_def

text \<open>The functions io.c stores in \<open>struct fd_events\<close>.\<close>

datatype fd_callback = Fd_con_out | Fd_con_err | Fd_io_in | Fd_io_out | Fd_io_err | Fd_io_hup

record fd_events =
  epollin :: "fd_callback option"
  epollout :: "fd_callback option"
  epollerr :: "fd_callback option"
  epollhup :: "fd_callback option"

record io_state =
  io_fd :: int
  epoll_events :: u32
  epoll_funcs :: "fd_events ptr"
  io_rbuf :: "rbuf option"
  sendq :: "wbuf list"

definition IO_STATE_INITIALIZER :: io_state where
  "IO_STATE_INITIALIZER =
     \<lparr>io_fd = -1, epoll_events = 0, epoll_funcs = Null, io_rbuf = None, sendq = []\<rparr>"

definition INIT_IO_STATE :: "int \<Rightarrow> u32 \<Rightarrow> fd_events ptr \<Rightarrow> rbuf option \<Rightarrow> io_state" where
  "INIT_IO_STATE fd events funcs rbuf =
     \<lparr>io_fd = fd, epoll_events = events, epoll_funcs = funcs, io_rbuf = rbuf, sendq = []\<rparr>"

definition destroy_pdu_rbuf :: "rbuf \<Rightarrow> 'w env \<Rightarrow> 'w env res" where
  "destroy_pdu_rbuf b e = free_ptr (Ptr (rb_addr b) ()) e"

definition destroy_io_rbuf :: "io_state \<Rightarrow> 'w env \<Rightarrow> (io_state \<times> 'w env) res" where
  "destroy_io_rbuf io e =
     (case io_rbuf io of
        None \<Rightarrow> Inr (io, e)
      | Some b \<Rightarrow> andThen (destroy_pdu_rbuf b e) (\<lambda>e. Inr (io\<lparr>io_rbuf := None\<rparr>, e)))"

section \<open>Errors and hang-ups\<close>

definition io_state_err :: "'w platform \<Rightarrow> io_state \<Rightarrow> 'w env \<Rightarrow> (io_state \<times> 'w env) res" where
  "io_state_err P io e =
     andThen (destroy_io_rbuf io e) (\<lambda>(io, e).
       let e = remove_fd P (io_fd io) e;
           (_, e) = ext_call (close_fd P (io_fd io)) e
       in Inr (io\<lparr>epoll_events := 0, io_fd := -1\<rparr>, e))"

text \<open>The result of \<open>close\<close> is only logged.\<close>

definition io_state_hup :: "'w platform \<Rightarrow> io_state \<Rightarrow> 'w env \<Rightarrow> (io_state \<times> 'w env) res" where
  "io_state_hup P io e =
     andThen (destroy_io_rbuf io e) (\<lambda>(io, e).
       let e = remove_fd P (io_fd io) e;
           (_, e) = ext_call (close_fd P (io_fd io)) e
       in Inr (io\<lparr>epoll_events := 0, io_fd := -1\<rparr>, e))"

section \<open>Output\<close>

text \<open>
  The loop of \<open>io_state_send_pending_wbufs\<close> on the queue: it stops at the first buffer that
  would block, for which \<open>send_pdu_wbuf\<close> returns 0. A PDU for which it returns another value, also a
  negative one, counts as taken and is recorded in \<open>sent\<close>.
\<close>

fun send_pending ::
  "'w platform \<Rightarrow> int \<Rightarrow> wbuf list \<Rightarrow> 'w env \<Rightarrow> (wbuf list \<times> 'w env) res" where
  "send_pending P fd [] e = Inr ([], e)"
| "send_pending P fd (w # ws) e =
     (if wb_addr w \<notin> live e then Inl Use_after_free
      else case ext_call (send_pdu_wbuf P w fd) e of
        (res, e1) \<Rightarrow>
          if res = 0 then Inr (w # ws, e1)
          else andThen (destroy_pdu_wbuf w (e1\<lparr>sent := sent e1 @ [wb_pdu w]\<rparr>))
                 (send_pending P fd ws))"

definition io_state_send_pending_wbufs ::
  "'w platform \<Rightarrow> io_state \<Rightarrow> 'w env \<Rightarrow> (io_state \<times> 'w env) res" where
  "io_state_send_pending_wbufs P io e =
     andThen (send_pending P (io_fd io) (sendq io) e) (\<lambda>(q, e). Inr (io\<lparr>sendq := q\<rparr>, e))"

definition io_state_out :: "'w platform \<Rightarrow> io_state \<Rightarrow> 'w env \<Rightarrow> (int \<times> io_state \<times> 'w env) res" where
  "io_state_out P io e =
     andThen (io_state_send_pending_wbufs P io e) (\<lambda>(io, e).
       if sendq io = [] then
         let io = io\<lparr>epoll_events := and (epoll_events io) (not EPOLLOUT)\<rparr>
         in if epoll_events io \<noteq> 0 then
              let (r, e) = add_fd_events P (io_fd io) (epoll_events io) e
              in if r < 0 then Inr (-1, io, e) else Inr (0, io, e)
            else Inr (0, io, remove_fd P (io_fd io) e)
       else Inr (0, io, e))"

definition io_state_send ::
  "'w platform \<Rightarrow> wbuf \<Rightarrow> io_state \<Rightarrow> 'w env \<Rightarrow> (int \<times> io_state \<times> 'w env) res" where
  "io_state_send P w io e =
     (if wb_addr w \<notin> live e then Inl Use_after_free
      else andThen (io_state_send_pending_wbufs P (io\<lparr>sendq := sendq io @ [w]\<rparr>) e) (\<lambda>(io, e).
        if sendq io \<noteq> [] \<and> and (epoll_events io) EPOLLOUT = 0 then
          let events = or (epoll_events io) EPOLLOUT;
              (r, e) = add_fd_events P (io_fd io) events e
          in if r < 0 then Inr (-1, io, e) else Inr (0, io\<lparr>epoll_events := events\<rparr>, e)
        else Inr (0, io, e)))"

section \<open>The output stream\<close>

type_synonym 'w conn = "io_state \<times> 'w env"

definition output_stream :: "'w conn \<Rightarrow> pdu list" where
  "output_stream = (\<lambda>(io, e). sent e @ map wb_pdu (sendq io))"

text \<open>The queue holds distinct live buffers.\<close>

definition queue_ok :: "wbuf list \<Rightarrow> nat set \<Rightarrow> bool" where
  "queue_ok q lv \<longleftrightarrow> distinct (map wb_addr q) \<and> wb_addr ` set q \<subseteq> lv"

text \<open>
  What a flush does to the environment: it sends a prefix of the queue and frees exactly its
  buffers.
\<close>

lemma send_pending_total:
  assumes "queue_ok q (live e)"
  shows "\<exists>q1 q2 e'. send_pending P fd q e = Inr (q2, e') \<and> q = q1 @ q2 \<and>
           sent e' = sent e @ map wb_pdu q1 \<and> live e' = live e - wb_addr ` set q1 \<and>
           next_addr e' = next_addr e \<and> awake e' = awake e \<and> watched e' = watched e"
  using assms
proof (induction q arbitrary: e)
  case Nil
  then show ?case by simp
next
  case (Cons w ws)
  obtain res e1 where c: "ext_call (send_pdu_wbuf P w fd) e = (res, e1)" by (metis surj_pair)
  note e1 = ext_call_env [OF c]
  have w: "wb_addr w \<in> live e" using Cons.prems by (simp add: queue_ok_def)
  show ?case
  proof (cases "res \<noteq> 0")
    case False
    with c e1 w show ?thesis
      by (intro exI [of _ "[]"] exI [of _ "w # ws"] exI [of _ e1]) simp
  next
    case True
    let ?e2 = "e1\<lparr>sent := sent e1 @ [wb_pdu w], live := live e1 - {wb_addr w}\<rparr>"
    have "wb_addr w \<notin> wb_addr ` set ws" "wb_addr ` set ws \<subseteq> live e" "distinct (map wb_addr ws)"
      using Cons.prems by (simp_all add: queue_ok_def)
    then have "queue_ok ws (live ?e2)" using e1 by (simp add: queue_ok_def subset_Diff_insert)
    from Cons.IH [OF this] obtain q1 q2 e' where
      "send_pending P fd ws ?e2 = Inr (q2, e')" "ws = q1 @ q2"
      "sent e' = sent ?e2 @ map wb_pdu q1" "live e' = live ?e2 - wb_addr ` set q1"
      "next_addr e' = next_addr ?e2" "awake e' = awake ?e2" "watched e' = watched ?e2"
      by blast
    with c e1 w True show ?thesis
      by (intro exI [of _ "w # q1"] exI [of _ q2] exI [of _ e'])
        (auto simp: destroy_pdu_wbuf_def)
  qed
qed

lemma queue_ok_suffix:
  "queue_ok (q1 @ q2) lv \<Longrightarrow> queue_ok q2 (lv - wb_addr ` set q1)"
  by (auto simp: queue_ok_def)

text \<open>Every heap object of the connection is live, and none is shared.\<close>

definition conn_ok :: "'w conn \<Rightarrow> bool" where
  "conn_ok = (\<lambda>(io, e). env_wf e \<and> queue_ok (sendq io) (live e) \<and>
     (\<forall>b. io_rbuf io = Some b \<longrightarrow> rb_addr b \<in> live e \<and> rb_addr b \<notin> wb_addr ` set (sendq io)))"

text \<open>A buffer that may be handed to the connection.\<close>

definition sendable :: "wbuf \<Rightarrow> 'w conn \<Rightarrow> bool" where
  "sendable w = (\<lambda>(io, e). wb_addr w \<in> live e \<and> wb_addr w \<notin> wb_addr ` set (sendq io) \<and>
     (\<forall>b. io_rbuf io = Some b \<longrightarrow> rb_addr b \<noteq> wb_addr w))"

text \<open>What sending and flushing leave alone.\<close>

definition same_conn :: "'w conn \<Rightarrow> 'w conn \<Rightarrow> bool" where
  "same_conn = (\<lambda>(io, e) (io', e').
     io_fd io' = io_fd io \<and> epoll_funcs io' = epoll_funcs io \<and> io_rbuf io' = io_rbuf io \<and>
     next_addr e' = next_addr e \<and> awake e' = awake e \<and>
     live e - live e' \<subseteq> wb_addr ` set (sendq io) \<and> live e' \<subseteq> live e \<and>
     set (sendq io') \<subseteq> set (sendq io))"

lemma env_wf_subset: "env_wf e \<Longrightarrow> live e' \<subseteq> live e \<Longrightarrow> next_addr e' = next_addr e \<Longrightarrow> env_wf e'"
  by (auto simp: env_wf_def)

lemma pending_total:
  assumes "conn_ok (io, e)"
  shows "\<exists>io' e'. io_state_send_pending_wbufs P io e = Inr (io', e') \<and> conn_ok (io', e') \<and>
           output_stream (io', e') = output_stream (io, e) \<and> same_conn (io, e) (io', e') \<and>
           epoll_events io' = epoll_events io \<and> watched e' = watched e"
proof -
  have ok: "env_wf e" "queue_ok (sendq io) (live e)"
    "\<And>b. io_rbuf io = Some b \<Longrightarrow> rb_addr b \<in> live e \<and> rb_addr b \<notin> wb_addr ` set (sendq io)"
    using assms by (simp_all add: conn_ok_def)
  obtain q1 q2 e' where s: "send_pending P (io_fd io) (sendq io) e = Inr (q2, e')"
    "sendq io = q1 @ q2" "sent e' = sent e @ map wb_pdu q1" "live e' = live e - wb_addr ` set q1"
    "next_addr e' = next_addr e" "awake e' = awake e" "watched e' = watched e"
    using send_pending_total [OF ok(2), of P "io_fd io"] by blast
  have "queue_ok q2 (live e')" using queue_ok_suffix ok(2) s(2,4) by simp
  moreover have "env_wf e'" using ok(1) s(4,5) by (intro env_wf_subset [OF ok(1)]) auto
  ultimately have "conn_ok (io\<lparr>sendq := q2\<rparr>, e')"
    using ok(3) s(2,4) by (auto simp: conn_ok_def)
  moreover have "same_conn (io, e) (io\<lparr>sendq := q2\<rparr>, e')"
    using s by (auto simp: same_conn_def)
  moreover have "output_stream (io\<lparr>sendq := q2\<rparr>, e') = output_stream (io, e)"
    using s(2,3) by (simp add: output_stream_def)
  ultimately show ?thesis
    using s(1,7) by (intro exI [of _ "io\<lparr>sendq := q2\<rparr>"] exI [of _ e'])
      (simp add: io_state_send_pending_wbufs_def)
qed

lemma conn_ok_events [simp]: "conn_ok (io\<lparr>epoll_events := ev\<rparr>, e) = conn_ok (io, e)"
  by (simp add: conn_ok_def)

lemma output_stream_events [simp]:
  "output_stream (io\<lparr>epoll_events := ev\<rparr>, e) = output_stream (io, e)"
  by (simp add: output_stream_def)

lemma same_conn_events [simp]:
  "same_conn c (io\<lparr>epoll_events := ev\<rparr>, e) = same_conn c (io, e)"
  by (cases c) (simp add: same_conn_def)

text \<open>Changing what is watched keeps these, too.\<close>

lemma add_fd_events_conn:
  assumes "add_fd_events P fd ev e = (r, e')"
  shows "conn_ok (io, e') = conn_ok (io, e)" "output_stream (io, e') = output_stream (io, e)"
    "same_conn c (io, e') = same_conn c (io, e)"
  using add_fd_events_env [OF assms]
  by (cases c, simp add: conn_ok_def env_wf_def output_stream_def same_conn_def)+

lemma remove_fd_conn [simp]:
  "conn_ok (io, remove_fd P fd e) = conn_ok (io, e)"
  "output_stream (io, remove_fd P fd e) = output_stream (io, e)"
  "same_conn c (io, remove_fd P fd e) = same_conn c (io, e)"
  by (cases c, simp add: conn_ok_def env_wf_def output_stream_def same_conn_def)+

text \<open>
  While PDUs wait, the loop watches for writability; and what it watches for the connection's
  descriptor is \<open>epoll_events\<close>.
\<close>

definition polled :: "'w conn \<Rightarrow> bool" where
  "polled = (\<lambda>(io, e). watched e (io_fd io) =
       (if epoll_events io = 0 then None else Some (epoll_events io)) \<and>
     (sendq io \<noteq> [] \<longrightarrow> and (epoll_events io) EPOLLOUT \<noteq> 0))"

lemma or_EPOLLOUT: "and (or ev EPOLLOUT) EPOLLOUT \<noteq> 0" "or ev EPOLLOUT \<noteq> 0"
proof -
  have "bit (or ev EPOLLOUT) 2" by (simp add: epoll_defs bit_or_iff)
  moreover have "bit EPOLLOUT 2" by (simp add: epoll_defs)
  ultimately have "bit (and (or ev EPOLLOUT) EPOLLOUT) 2" by (simp add: bit_and_iff)
  then show "and (or ev EPOLLOUT) EPOLLOUT \<noteq> 0" by auto
  show "or ev EPOLLOUT \<noteq> 0" using \<open>bit (or ev EPOLLOUT) 2\<close> by auto
qed

lemma io_state_out_total:
  assumes "conn_ok (io, e)"
  shows "\<exists>r io' e'. io_state_out P io e = Inr (r, io', e') \<and> conn_ok (io', e') \<and>
           output_stream (io', e') = output_stream (io, e) \<and> same_conn (io, e) (io', e') \<and>
           (polled (io, e) \<and> r = 0 \<longrightarrow> polled (io', e'))"
proof -
  obtain io1 e1 where p: "io_state_send_pending_wbufs P io e = Inr (io1, e1)" "conn_ok (io1, e1)"
    "output_stream (io1, e1) = output_stream (io, e)" "same_conn (io, e) (io1, e1)"
    "epoll_events io1 = epoll_events io" "watched e1 = watched e"
    using pending_total [OF assms, of P] by blast
  have fd: "io_fd io1 = io_fd io" using p(4) by (simp add: same_conn_def)
  let ?io = "io1\<lparr>epoll_events := and (epoll_events io1) (not EPOLLOUT)\<rparr>"
  obtain r e2 where a: "add_fd_events P (io_fd io1) (epoll_events ?io) e1 = (r, e2)"
    by (metis surj_pair)
  note a2 = add_fd_events_env [OF a] add_fd_events_conn [OF a]
  consider "sendq io1 \<noteq> []" | "sendq io1 = []" "epoll_events ?io = 0"
    | "sendq io1 = []" "epoll_events ?io \<noteq> 0" by blast
  then show ?thesis
  proof cases
    case 1
    then have "sendq io \<noteq> []" using p(4) by (auto simp: same_conn_def)
    with 1 p fd show ?thesis by (auto simp: io_state_out_def polled_def)
  next
    case 2
    with p fd show ?thesis by (simp add: io_state_out_def polled_def)
  next
    case 3
    with p fd a a2 show ?thesis
      by (cases "r < 0") (simp_all add: io_state_out_def polled_def Let_def)
  qed
qed

lemma io_state_send_total:
  assumes ok: "conn_ok (io, e)" and w: "sendable w (io, e)"
  shows "\<exists>r io' e'. io_state_send P w io e = Inr (r, io', e') \<and> conn_ok (io', e') \<and>
           output_stream (io', e') = output_stream (io, e) @ [wb_pdu w] \<and>
           same_conn (io\<lparr>sendq := sendq io @ [w]\<rparr>, e) (io', e') \<and>
           (polled (io, e) \<and> r = 0 \<longrightarrow> polled (io', e'))"
proof -
  let ?io = "io\<lparr>sendq := sendq io @ [w]\<rparr>"
  have "conn_ok (?io, e)"
    using ok w by (auto simp: conn_ok_def sendable_def queue_ok_def)
  from pending_total [OF this, of P] obtain io1 e1 where
    p: "io_state_send_pending_wbufs P ?io e = Inr (io1, e1)" "conn_ok (io1, e1)"
    "output_stream (io1, e1) = output_stream (?io, e)" "same_conn (?io, e) (io1, e1)"
    "epoll_events io1 = epoll_events io" "watched e1 = watched e"
    by auto
  have out: "output_stream (?io, e) = output_stream (io, e) @ [wb_pdu w]"
    by (simp add: output_stream_def)
  have fd: "io_fd io1 = io_fd io" using p(4) by (simp add: same_conn_def)
  have live: "wb_addr w \<in> live e" using w by (simp add: sendable_def)
  let ?ev = "or (epoll_events io1) EPOLLOUT"
  obtain r e2 where a: "add_fd_events P (io_fd io1) ?ev e1 = (r, e2)" by (metis surj_pair)
  note a2 = add_fd_events_env [OF a] add_fd_events_conn [OF a]
  show ?thesis
  proof (cases "sendq io1 \<noteq> [] \<and> and (epoll_events io1) EPOLLOUT = 0")
    case True
    with p out fd live a a2 or_EPOLLOUT [of "epoll_events io1"] show ?thesis
      by (cases "r < 0") (auto simp: io_state_send_def polled_def Let_def)
  next
    case False
    with p out fd live show ?thesis by (auto simp: io_state_send_def polled_def)
  qed
qed

section \<open>An interface: ordered output\<close>

text \<open>
  What the services rely on: a PDU handed over ends up behind those handed over before, and
  handing one over or flushing does not invalidate the buffers that are yet to be sent.
\<close>

datatype out_op = Send wbuf | Flush

fun out_step ::
  "(wbuf \<Rightarrow> 's \<Rightarrow> (int \<times> 's) res) \<Rightarrow> ('s \<Rightarrow> (int \<times> 's) res) \<Rightarrow> out_op \<Rightarrow> 's \<Rightarrow> 's res" where
  "out_step send flush (Send w) s = andThen (send w s) (\<lambda>(_, s). Inr s)"
| "out_step send flush Flush s = andThen (flush s) (\<lambda>(_, s). Inr s)"

fun sends :: "out_op list \<Rightarrow> wbuf list" where
  "sends [] = []"
| "sends (Send w # ops) = w # sends ops"
| "sends (Flush # ops) = sends ops"

locale pdu_output =
  fixes send :: "wbuf \<Rightarrow> 's \<Rightarrow> (int \<times> 's) res"
    and flush :: "'s \<Rightarrow> (int \<times> 's) res"
    and out :: "'s \<Rightarrow> pdu list"
    and inv :: "'s \<Rightarrow> bool"
    and accepts :: "wbuf \<Rightarrow> 's \<Rightarrow> bool"
  assumes send_law: "inv s \<Longrightarrow> accepts w s \<Longrightarrow>
      \<exists>r s'. send w s = Inr (r, s') \<and> inv s' \<and> out s' = out s @ [wb_pdu w] \<and>
        (\<forall>v. wb_addr v \<noteq> wb_addr w \<longrightarrow> accepts v s \<longrightarrow> accepts v s')"
    and flush_law: "inv s \<Longrightarrow>
      \<exists>r s'. flush s = Inr (r, s') \<and> inv s' \<and> out s' = out s \<and>
        (\<forall>v. accepts v s \<longrightarrow> accepts v s')"
begin

lemma run_outputs:
  "inv s \<Longrightarrow> list_all (\<lambda>w. accepts w s) (sends ops) \<Longrightarrow> distinct (map wb_addr (sends ops)) \<Longrightarrow>
     \<exists>s'. run_steps (out_step send flush) ops s = Inr s' \<and> inv s' \<and>
          out s' = out s @ map wb_pdu (sends ops)"
proof (induction ops arbitrary: s)
  case Nil
  then show ?case by simp
next
  case (Cons op ops)
  show ?case
  proof (cases op)
    case (Send w)
    with Cons.prems send_law [of s w] obtain r s1 where
      s1: "send w s = Inr (r, s1)" "inv s1" "out s1 = out s @ [wb_pdu w]"
      "\<forall>v. wb_addr v \<noteq> wb_addr w \<longrightarrow> accepts v s \<longrightarrow> accepts v s1" by auto
    have "list_all (\<lambda>w. accepts w s1) (sends ops)" "distinct (map wb_addr (sends ops))"
      using Cons.prems(2,3) Send s1(4) by (simp_all add: list_all_iff) (metis image_eqI)
    from Cons.IH [OF s1(2) this] s1 Send show ?thesis by auto
  next
    case Flush
    with Cons.prems flush_law [of s] obtain r s1 where
      s1: "flush s = Inr (r, s1)" "inv s1" "out s1 = out s" "\<forall>v. accepts v s \<longrightarrow> accepts v s1"
      by auto
    have "list_all (\<lambda>w. accepts w s1) (sends ops)" "distinct (map wb_addr (sends ops))"
      using Cons.prems(2,3) Flush s1(4) by (auto simp: list_all_iff)
    from Cons.IH [OF s1(2) this] s1 Flush show ?thesis by auto
  qed
qed

end

lemma same_conn_sendable:
  assumes "same_conn (io, e) (io', e')" "sendable v (io, e)"
  shows "sendable v (io', e')"
  using assms unfolding same_conn_def sendable_def by auto

lemma sendable_queued:
  "sendable v (io, e) \<Longrightarrow> wb_addr v \<noteq> wb_addr w \<Longrightarrow> sendable v (io\<lparr>sendq := sendq io @ [w]\<rparr>, e)"
  by (simp add: sendable_def)

interpretation conn_output: pdu_output "\<lambda>w (io, e). io_state_send P w io e"
  "\<lambda>(io, e). io_state_out P io e" output_stream conn_ok sendable for P
proof unfold_locales
  fix s :: "'a conn" and w
  assume "conn_ok s" "sendable w s"
  moreover obtain io e where s: "s = (io, e)" by (cases s)
  ultimately obtain r io' e' where r: "io_state_send P w io e = Inr (r, io', e')" "conn_ok (io', e')"
    "output_stream (io', e') = output_stream (io, e) @ [wb_pdu w]"
    "same_conn (io\<lparr>sendq := sendq io @ [w]\<rparr>, e) (io', e')"
    using io_state_send_total [of io e w P] by auto
  then show "\<exists>r s'. (case s of (io, e) \<Rightarrow> io_state_send P w io e) = Inr (r, s') \<and> conn_ok s' \<and>
      output_stream s' = output_stream s @ [wb_pdu w] \<and>
      (\<forall>v. wb_addr v \<noteq> wb_addr w \<longrightarrow> sendable v s \<longrightarrow> sendable v s')"
    using s same_conn_sendable [OF r(4)] sendable_queued by fastforce
next
  fix s :: "'a conn"
  assume "conn_ok s"
  moreover obtain io e where s: "s = (io, e)" by (cases s)
  ultimately obtain r io' e' where r: "io_state_out P io e = Inr (r, io', e')" "conn_ok (io', e')"
    "output_stream (io', e') = output_stream (io, e)" "same_conn (io, e) (io', e')"
    using io_state_out_total [of io e P] by auto
  then show "\<exists>r s'. (case s of (io, e) \<Rightarrow> io_state_out P io e) = Inr (r, s') \<and> conn_ok s' \<and>
      output_stream s' = output_stream s \<and> (\<forall>v. sendable v s \<longrightarrow> sendable v s')"
    using s same_conn_sendable [OF r(4)] by fastforce
qed

section \<open>Closing\<close>

text \<open>
  After an error or a hang-up the receive buffer is freed, the descriptor is no longer watched
  and the state is the unconnected one; what waited in the queue stays there.
\<close>

lemma io_state_err_closes:
  assumes "conn_ok (io, e)"
  shows "\<exists>e'. io_state_err P io e =
           Inr (io\<lparr>io_rbuf := None, epoll_events := 0, io_fd := -1\<rparr>, e') \<and>
         conn_ok (io\<lparr>io_rbuf := None, epoll_events := 0, io_fd := -1\<rparr>, e') \<and>
         watched e' = (watched e)(io_fd io := None) \<and>
         live e' = live e - (case io_rbuf io of None \<Rightarrow> {} | Some b \<Rightarrow> {rb_addr b}) \<and>
         sent e' = sent e \<and> awake e' = awake e \<and> next_addr e' = next_addr e"
proof -
  obtain e1 where d: "destroy_io_rbuf io e = Inr (io\<lparr>io_rbuf := None\<rparr>, e1)"
    "e1 = e\<lparr>live := live e - (case io_rbuf io of None \<Rightarrow> {} | Some b \<Rightarrow> {rb_addr b})\<rparr>"
    using assms
    by (cases "io_rbuf io") (auto simp: destroy_io_rbuf_def destroy_pdu_rbuf_def conn_ok_def)
  obtain r e2 where c: "ext_call (close_fd P (io_fd io)) (remove_fd P (io_fd io) e1) = (r, e2)"
    by (metis surj_pair)
  note e2 = ext_call_env [OF c]
  have "queue_ok (sendq io) (live e1)" "env_wf e1"
    using assms d(2)
    by (cases "io_rbuf io"; simp add: conn_ok_def queue_ok_def env_wf_def subset_Diff_insert)+
  with d c e2 show ?thesis
    by (auto simp: io_state_err_def conn_ok_def env_wf_def)
qed

lemma io_state_hup_err: "io_state_hup P io e = io_state_err P io e"
  by (simp add: io_state_hup_def io_state_err_def)

section \<open>The send loop as a loop\<close>

text \<open>
  The loop of \<open>io_state_send_pending_wbufs\<close> statement by statement, on whether the function has returned,
  the queue and the environment; a fault ends it, too.
\<close>

type_synonym 'w send_state = "(bool \<times> wbuf list \<times> 'w env) res"

fun send_test :: "'w send_state \<Rightarrow> bool" where
  "send_test (Inl f) = False"
| "send_test (Inr (returned, q, e)) = (\<not> returned \<and> q \<noteq> [])"

definition send_body :: "'w platform \<Rightarrow> int \<Rightarrow> 'w send_state \<Rightarrow> 'w send_state" where
  "send_body P fd r =
     andThen r (\<lambda>(returned, q, e).
       if wb_addr (hd q) \<notin> live e then Inl Use_after_free
       else case ext_call (send_pdu_wbuf P (hd q) fd) e of
         (res, e) \<Rightarrow>
           if res = 0 then Inr (True, q, e)
           else andThen (destroy_pdu_wbuf (hd q) (e\<lparr>sent := sent e @ [wb_pdu (hd q)]\<rparr>)) (\<lambda>e.
                  Inr (False, tl q, e)))"

definition send_loop :: "'w platform \<Rightarrow> int \<Rightarrow> wbuf list \<Rightarrow> 'w env \<Rightarrow> 'w send_state option" where
  "send_loop P fd q e = while_option send_test (send_body P fd) (Inr (False, q, e))"

lemma while_option_stops: "\<not> b s \<Longrightarrow> while_option b c s = Some s"
  by (subst while_option_unfold) simp

lemma while_option_step: "b s \<Longrightarrow> while_option b c s = while_option b c (c s)"
  by (subst while_option_unfold) simp

lemma send_loop_result:
  "\<exists>r. send_loop P fd q e = Some r \<and>
       andThen r (\<lambda>(returned, q, e). Inr (q, e)) = send_pending P fd q e"
proof (induction q arbitrary: e)
  case Nil
  then show ?case by (simp add: send_loop_def while_option_stops)
next
  case (Cons w ws)
  let ?s = "Inr (False, w # ws, e) :: 'a send_state"
  have step: "send_loop P fd (w # ws) e = while_option send_test (send_body P fd) (send_body P fd ?s)"
    unfolding send_loop_def by (rule while_option_step) simp
  obtain res e1 where c: "ext_call (send_pdu_wbuf P w fd) e = (res, e1)" by (metis surj_pair)
  let ?d = "destroy_pdu_wbuf w (e1\<lparr>sent := sent e1 @ [wb_pdu w]\<rparr>)"
  consider "wb_addr w \<notin> live e" | "wb_addr w \<in> live e" "res = 0"
    | f where "wb_addr w \<in> live e" "res \<noteq> 0" "?d = Inl f"
    | e2 where "wb_addr w \<in> live e" "res \<noteq> 0" "?d = Inr e2"
    by (cases ?d) auto
  then show ?case
  proof cases
    case 4
    then have "send_body P fd ?s = Inr (False, ws, e2)" using c by (simp add: send_body_def)
    with step have "send_loop P fd (w # ws) e = send_loop P fd ws e2" by (simp add: send_loop_def)
    with Cons.IH [of e2] 4 c show ?thesis by simp
  qed (use step c in \<open>simp_all add: send_body_def while_option_stops\<close>)
qed

section \<open>Progress\<close>

text \<open>The socket takes at least one PDU, as it does when it has been reported to be writable.\<close>

definition takes_one :: "'w platform \<Rightarrow> 'w conn \<Rightarrow> bool" where
  "takes_one P = (\<lambda>(io, e). sendq io = [] \<or> fst (send_pdu_wbuf P (hd (sendq io)) (io_fd io) (world e)) \<noteq> 0)"

text \<open>A number of writable events, one after the other.\<close>

inductive writable_events :: "'w platform \<Rightarrow> nat \<Rightarrow> 'w conn \<Rightarrow> 'w conn \<Rightarrow> bool" for P where
  none: "writable_events P 0 c c"
| writable: "takes_one P (io, e) \<Longrightarrow> io_state_out P io e = Inr (r, io1, e1) \<Longrightarrow>
    writable_events P n (io1, e1) c \<Longrightarrow> writable_events P (Suc n) (io, e) c"

lemma send_pending_shrinks:
  assumes "send_pending P fd q e = Inr (q', e')" "q \<noteq> []" "fst (send_pdu_wbuf P (hd q) fd (world e)) \<noteq> 0"
  shows "length q' < length q"
proof -
  have le: "send_pending P fd q e = Inr (q', e') \<Longrightarrow> length q' \<le> length q" for q e
    by (induction q arbitrary: e) (fastforce simp: andThen_Inr_iff split: if_splits prod.splits)+
  from assms(2) obtain w ws where q: "q = w # ws" by (cases q) auto
  with assms(1,3) obtain e1 where "send_pending P fd ws e1 = Inr (q', e')"
    by (auto simp: ext_call_def andThen_Inr_iff case_prod_beta split: if_splits)
  from le [OF this] q show ?thesis by simp
qed

lemma io_state_out_queue:
  assumes "io_state_out P io e = Inr (r, io1, e1)"
  obtains e' where "send_pending P (io_fd io) (sendq io) e = Inr (sendq io1, e')"
  using assms
  by (auto simp: io_state_out_def io_state_send_pending_wbufs_def andThen_Inr_iff Let_def
      split: if_splits prod.splits)

lemma writable_events_drain:
  assumes "writable_events P n c c'" "conn_ok c" "length (sendq (fst c)) \<le> n"
  shows "sendq (fst c') = [] \<and> sent (snd c') = output_stream c"
  using assms
proof (induction rule: writable_events.induct)
  case (none c)
  then show ?case by (cases c) (simp add: output_stream_def)
next
  case (writable io e r io1 e1 n c)
  from io_state_out_total [OF writable.prems(1), of P] writable.hyps(2)
  have out: "conn_ok (io1, e1)" "output_stream (io1, e1) = output_stream (io, e)" by auto
  obtain e' where p: "send_pending P (io_fd io) (sendq io) e = Inr (sendq io1, e')"
    using io_state_out_queue [OF writable.hyps(2)] .
  have "length (sendq io1) \<le> n"
  proof (cases "sendq io")
    case Nil
    with p show ?thesis by simp
  next
    case (Cons w ws)
    with send_pending_shrinks [OF p] writable.hyps(1) writable.prems(2) show ?thesis
      by (simp add: takes_one_def)
  qed
  with writable.IH out show ?case by simp
qed

section \<open>Properties\<close>

text \<open>The closed examples run on a connection with a receive buffer and one PDU waiting.\<close>

definition plain_wbuf :: "nat \<Rightarrow> u8 \<Rightarrow> wbuf" where
  "plain_wbuf a c = \<lparr>wb_addr = a, wb_size = 4, wb_tail_size = 0, wb_ancillary = False, wb_tail = None,
     wb_pdu = \<lparr>pdu_service = 1, pdu_opcode = c, pdu_data = []\<rparr>\<rparr>"

definition sample_rbuf :: rbuf where
  "sample_rbuf = \<lparr>rb_addr = 1, rb_maxlen = 16, rb_len = 0, rb_raw = []\<rparr>"

definition sample_io :: io_state where
  "sample_io = \<lparr>io_fd = 3, epoll_events = 0xD, epoll_funcs = Ptr 2 \<lparr>epollin = Some Fd_io_in,
     epollout = Some Fd_io_out, epollerr = Some Fd_io_err, epollhup = Some Fd_io_hup\<rparr>,
     io_rbuf = Some sample_rbuf, sendq = [plain_wbuf 4 7]\<rparr>"

definition conn_env :: "unit env" where
  "conn_env = sample_env\<lparr>live := {1, 2, 4, 5, 6}, next_addr := 20, watched := [3 \<mapsto> 0xD]\<rparr>"

lemma sample_conn_fields [simp]:
  "wb_addr (plain_wbuf a c) = a" "wb_pdu (plain_wbuf a c) = \<lparr>pdu_service = 1, pdu_opcode = c, pdu_data = []\<rparr>"
  "io_fd sample_io = 3" "epoll_events sample_io = 0xD" "io_rbuf sample_io = Some sample_rbuf"
  "sendq sample_io = [plain_wbuf 4 7]" "rb_addr sample_rbuf = 1"
  "live conn_env = {1, 2, 4, 5, 6}" "next_addr conn_env = 20" "sent conn_env = []"
  "watched conn_env = [3 \<mapsto> 0xD]" "world conn_env = ()"
  by (simp_all add: plain_wbuf_def sample_io_def sample_rbuf_def conn_env_def)

lemma sample_io_queue [simp]: "sample_io\<lparr>sendq := [plain_wbuf 4 7]\<rparr> = sample_io"
  by (simp add: sample_io_def)

lemma sample_conn_ok [simp]: "conn_ok (sample_io, conn_env)"
  by (simp add: conn_ok_def env_wf_def queue_ok_def)

lemma sample_output [simp]: "output_stream (sample_io, conn_env) = [wb_pdu (plain_wbuf 4 7)]"
  by (simp add: output_stream_def)

text \<open>
  C8: Any interleaving of sends and flushes runs without a fault and leaves the output stream with
  exactly the PDUs sent, in their order, behind what it held: none is lost, duplicated or
  overtaken, however often the socket blocks. A PDU counts as sent once \<open>send_pdu_wbuf\<close> has not returned 0.
\<close>

theorem output_in_order:
  assumes "conn_ok (io, e)" and "list_all (\<lambda>w. sendable w (io, e)) (sends ops)"
    and "distinct (map wb_addr (sends ops))"
  shows "\<exists>io' e'. run_steps (out_step (\<lambda>w (io, e). io_state_send P w io e) (\<lambda>(io, e). io_state_out P io e))
             ops (io, e) = Inr (io', e') \<and> conn_ok (io', e') \<and>
           output_stream (io', e') = output_stream (io, e) @ map wb_pdu (sends ops)"
  using conn_output.run_outputs [OF assms, where P = P] by (metis surj_pair)

theorem output_in_order_witness:
  "\<exists>io' e'. run_steps (out_step (\<lambda>w (io, e). io_state_send sample_platform w io e)
        (\<lambda>(io, e). io_state_out sample_platform io e))
      [Send (plain_wbuf 5 8), Flush, Send (plain_wbuf 6 9)] (sample_io, conn_env) = Inr (io', e') \<and>
     map pdu_opcode (output_stream (io', e')) = [7, 8, 9]"
  using output_in_order [of sample_io conn_env
      "[Send (plain_wbuf 5 8), Flush, Send (plain_wbuf 6 9)]" sample_platform]
  by (auto simp: sendable_def simp del: run_steps.simps)

text \<open>
  C16: A send or a flush that reports success keeps the connection watched as its state says, and as
  long as PDUs wait it is watched for writability, so that the loop will flush them; and after as many
  writable events as PDUs wait, at each of which the socket takes at least one, all of the output has been sent.
\<close>

theorem waiting_output_sent:
  assumes "conn_ok (io, e)" and "polled (io, e)"
  shows "(io_state_out P io e = Inr (r1, io1, e1) \<and> 0 \<le> r1 \<longrightarrow> polled (io1, e1)) \<and>
         (sendable w (io, e) \<and> io_state_send P w io e = Inr (r2, io2, e2) \<and> 0 \<le> r2 \<longrightarrow>
            polled (io2, e2)) \<and>
         (writable_events P n (io, e) (io3, e3) \<and> length (sendq io) \<le> n \<longrightarrow>
            sendq io3 = [] \<and> sent e3 = output_stream (io, e))"
proof (intro conjI impI; elim conjE)
  assume "io_state_out P io e = Inr (r1, io1, e1)" "0 \<le> r1"
  moreover from this(1) have "r1 = 0 \<or> r1 = -1"
    by (auto simp: io_state_out_def Let_def andThen_Inr_iff case_prod_beta split: if_splits)
  ultimately show "polled (io1, e1)" using io_state_out_total [OF assms(1), of P] assms(2) by auto
next
  assume s: "sendable w (io, e)" "io_state_send P w io e = Inr (r2, io2, e2)" "0 \<le> r2"
  from s(2) have "r2 = 0 \<or> r2 = -1"
    by (auto simp: io_state_send_def Let_def andThen_Inr_iff case_prod_beta split: if_splits)
  with s(3) io_state_send_total [OF assms(1) s(1), of P] s(2) assms(2) show "polled (io2, e2)" by auto
next
  assume "writable_events P n (io, e) (io3, e3)" "length (sendq io) \<le> n"
  from writable_events_drain [OF this(1) assms(1)] this(2)
  show "sendq io3 = []" "sent e3 = output_stream (io, e)" by simp_all
qed

lemma sample_polled [simp]: "polled (sample_io, conn_env)"
  by (simp add: polled_def EPOLLOUT_def)

definition blocked_platform :: "unit platform" where
  "blocked_platform = sample_platform\<lparr>send_pdu_wbuf := \<lambda>_ _ w. (0, w)\<rparr>"

theorem waiting_output_sent_witness:
  "(\<exists>io' e'. io_state_out blocked_platform sample_io conn_env = Inr (0, io', e') \<and> sendq io' \<noteq> [] \<and>
      polled (io', e')) \<and>
   (\<exists>io' e'. writable_events sample_platform 1 (sample_io, conn_env) (io', e') \<and> sendq io' = [] \<and>
      map pdu_opcode (sent e') = [7])"
proof -
  have "io_state_out blocked_platform sample_io conn_env = Inr (0, sample_io, conn_env)"
    by (simp add: io_state_out_def io_state_send_pending_wbufs_def blocked_platform_def)
  moreover note waiting_output_sent [of sample_io conn_env blocked_platform 0 sample_io conn_env]
  ultimately have blocked: "polled (sample_io, conn_env)" by simp
  have "\<exists>io' e'. io_state_out sample_platform sample_io conn_env = Inr (0, io', e')"
    by (simp add: io_state_out_def io_state_send_pending_wbufs_def destroy_pdu_wbuf_def add_fd_events_def Let_def)
  then obtain io' e' where "io_state_out sample_platform sample_io conn_env = Inr (0, io', e')" by blast
  then have run: "writable_events sample_platform 1 (sample_io, conn_env) (io', e')"
    using writable_events.writable [of sample_platform sample_io conn_env 0 io' e' 0 "(io', e')"]
    by (simp add: takes_one_def writable_events.none)
  with waiting_output_sent [where P = sample_platform and io = sample_io and e = conn_env and n = 1
      and ?io3.0 = io' and ?e3.0 = e']
  have drained: "sendq io' = []" "map pdu_opcode (sent e') = [7]" by (auto simp: output_stream_def)
  have "sendq sample_io \<noteq> []" by simp
  from run drained have "\<exists>io' e'. writable_events sample_platform 1 (sample_io, conn_env) (io', e') \<and>
      sendq io' = [] \<and> map pdu_opcode (sent e') = [7]" by (intro exI [of _ io'] exI [of _ e'] conjI)
  moreover have "\<exists>io' e'. io_state_out blocked_platform sample_io conn_env = Inr (0, io', e') \<and> sendq io' \<noteq> [] \<and>
      polled (io', e')"
    using \<open>io_state_out blocked_platform sample_io conn_env = Inr (0, sample_io, conn_env)\<close> blocked
      \<open>sendq sample_io \<noteq> []\<close> by blast
  ultimately show ?thesis by (intro conjI)
qed
text \<open>
  C24: After an error or a hang-up the receive buffer is freed, once, the descriptor is no longer
  watched, the state is the unconnected one, and nothing was sent.
\<close>

theorem io_state_closed:
  assumes "conn_ok (io, e)"
  shows "\<exists>io' e'. io_state_err P io e = Inr (io', e') \<and> io_state_hup P io e = Inr (io', e') \<and>
           conn_ok (io', e') \<and> io_fd io' = -1 \<and> epoll_events io' = 0 \<and> io_rbuf io' = None \<and>
           watched e' = (watched e)(io_fd io := None) \<and>
           live e' = live e - (case io_rbuf io of None \<Rightarrow> {} | Some b \<Rightarrow> {rb_addr b}) \<and>
           output_stream (io', e') = output_stream (io, e)"
  using io_state_err_closes [OF assms, of P] io_state_hup_err [of P io e]
  by (auto simp: output_stream_def)

theorem io_state_closed_witness:
  "\<exists>io' e'. io_state_hup sample_platform sample_io conn_env = Inr (io', e') \<and> io_fd io' = -1 \<and>
     watched e' 3 = None \<and> 1 \<notin> live e'"
  using io_state_closed [of sample_io conn_env sample_platform]
  by auto

text \<open>
  C17: The loop that sends the waiting PDUs ends, whatever the socket answers and however long the
  queue is, and what it leaves (the rest of the queue, what was sent, a fault) is what \<open>send_pending\<close>
  computes.
\<close>

theorem send_loop_terminates:
  "\<exists>r. send_loop P fd q e = Some r \<and>
       andThen r (\<lambda>(returned, q, e). Inr (q, e)) = send_pending P fd q e"
  by (rule send_loop_result)

end
