(* ===== verification/Tv_Utils.thy ===== *)
theory Tv_Utils
  imports Tvd_Pdubuf
begin

text \<open>
  tv_utils.h and tv_utils.c: the structures that describe tuners, channels and programs, and
  the functions that release arrays of them. The structures hold C pointers, so a field that
  was never assigned is an indeterminate pointer and freeing it is a fault. The lemmas show
  when a release frees exactly what the array owns, and what \<open>release_programs\<close> does
  instead for every length but one.
\<close>

section \<open>Constants and structures\<close>

definition TV_STATUS_SUCCESS :: u8 where "TV_STATUS_SUCCESS = 0"
definition TV_STATUS_FAIL :: u8 where "TV_STATUS_FAIL = 1"
definition TV_STATUS_INVARG :: u8 where "TV_STATUS_INVARG = 2"
definition TV_STATUS_NO_SIGNAL :: u8 where "TV_STATUS_NO_SIGNAL = 3"
definition TV_STATUS_NOT_SUPPORTED :: u8 where "TV_STATUS_NOT_SUPPORTED = 4"

lemmas tv_status_defs =
  TV_STATUS_SUCCESS_def TV_STATUS_FAIL_def TV_STATUS_INVARG_def TV_STATUS_NO_SIGNAL_def
  TV_STATUS_NOT_SUPPORTED_def

definition DTV_CHANNEL_ADD :: u8 where "DTV_CHANNEL_ADD = 0"
definition DTV_SCAN_UNKNOWN :: u8 where "DTV_SCAN_UNKNOWN = 0"
definition DTV_SCAN_COMPLETE :: u8 where "DTV_SCAN_COMPLETE = 1"
definition DTV_SCAN_STOPPED :: u8 where "DTV_SCAN_STOPPED = 2"

text \<open>The source types of a tuner, with their codes on the wire, and their order by code.\<close>

datatype tvd_tuner_type =
    TVD_DVB_T | TVD_DVB_T2 | TVD_DVB_C | TVD_DVB_C2 | TVD_DVB_S | TVD_DVB_S2 | TVD_DVB_H | TVD_DVB_SH
  | TVD_ATSC | TVD_ATSC_M_H | TVD_ISDB_T | TVD_ISDB_Tb | TVD_ISDB_S | TVD_ISDB_C | TVD_ONE_SEG
  | TVD_DTMB | TVD_CMMB | TVD_T_DMB | TVD_S_DMB

fun tuner_type_code :: "tvd_tuner_type \<Rightarrow> u8" where
  "tuner_type_code TVD_DVB_T = 0x00" | "tuner_type_code TVD_DVB_T2 = 0x01"
| "tuner_type_code TVD_DVB_C = 0x02" | "tuner_type_code TVD_DVB_C2 = 0x03"
| "tuner_type_code TVD_DVB_S = 0x04" | "tuner_type_code TVD_DVB_S2 = 0x05"
| "tuner_type_code TVD_DVB_H = 0x06" | "tuner_type_code TVD_DVB_SH = 0x07"
| "tuner_type_code TVD_ATSC = 0x08" | "tuner_type_code TVD_ATSC_M_H = 0x09"
| "tuner_type_code TVD_ISDB_T = 0x0a" | "tuner_type_code TVD_ISDB_Tb = 0x0b"
| "tuner_type_code TVD_ISDB_S = 0x0c" | "tuner_type_code TVD_ISDB_C = 0x0d"
| "tuner_type_code TVD_ONE_SEG = 0x0e" | "tuner_type_code TVD_DTMB = 0x0f"
| "tuner_type_code TVD_CMMB = 0x10" | "tuner_type_code TVD_T_DMB = 0x11"
| "tuner_type_code TVD_S_DMB = 0x12"

lemma tuner_type_code_inject: "tuner_type_code a = tuner_type_code b \<Longrightarrow> a = b"
  by (cases a; cases b) simp_all

instantiation tvd_tuner_type :: linorder
begin

definition less_eq_tvd_tuner_type :: "tvd_tuner_type \<Rightarrow> tvd_tuner_type \<Rightarrow> bool" where
  "less_eq_tvd_tuner_type a b \<longleftrightarrow> tuner_type_code a \<le> tuner_type_code b"

definition less_tvd_tuner_type :: "tvd_tuner_type \<Rightarrow> tvd_tuner_type \<Rightarrow> bool" where
  "less_tvd_tuner_type a b \<longleftrightarrow> tuner_type_code a < tuner_type_code b"

instance
  by standard (auto simp: less_eq_tvd_tuner_type_def less_tvd_tuner_type_def
      intro: tuner_type_code_inject)

end

record tv_tuner =
  t_id :: "string ptr"
  num_types :: u32
  supported_types :: "u8 list ptr"

record tv_channel =
  network_id :: "string ptr"
  trans_stream_id :: "string ptr"
  service_id :: "string ptr"
  ch_type :: u8
  ch_number :: "string ptr"
  ch_name :: "string ptr"
  is_emergency :: u8
  is_free :: u8

record tv_program =
  evt_id :: "string ptr"
  title :: "string ptr"
  start_time :: u64
  duration :: u64
  descpt :: "string ptr"
  rating :: "string ptr"
  lang_num :: u32
  langs :: "string ptr list ptr"
  stl_lang_num :: u32
  stl_langs :: "string ptr list ptr"

text \<open>Their sizes: three, seven and eight pointer-sized slots, a program with 16 octets more.\<close>

definition sizeof_tv_tuner :: "'w platform \<Rightarrow> int" where
  "sizeof_tv_tuner P = 3 * int (ptr_size P)"
definition sizeof_tv_channel :: "'w platform \<Rightarrow> int" where
  "sizeof_tv_channel P = 7 * int (ptr_size P)"
definition sizeof_tv_program :: "'w platform \<Rightarrow> int" where
  "sizeof_tv_program P = 8 * int (ptr_size P) + 16"

text \<open>Fresh memory: every pointer is indeterminate, every integer is what the platform left there.\<close>

definition uninit_tuner :: "'w platform \<Rightarrow> tv_tuner" where
  "uninit_tuner P = \<lparr>t_id = Wild, num_types = junk P, supported_types = Wild\<rparr>"
definition uninit_channel :: "'w platform \<Rightarrow> tv_channel" where
  "uninit_channel P =
     \<lparr>network_id = Wild, trans_stream_id = Wild, service_id = Wild, ch_type = ucast (junk P),
      ch_number = Wild, ch_name = Wild, is_emergency = ucast (junk P), is_free = ucast (junk P)\<rparr>"
definition uninit_program :: "'w platform \<Rightarrow> tv_program" where
  "uninit_program P =
     \<lparr>evt_id = Wild, title = Wild, start_time = ucast (junk P), duration = ucast (junk P),
      descpt = Wild, rating = Wild, lang_num = junk P, langs = Wild, stl_lang_num = junk P,
      stl_langs = Wild\<rparr>"

section \<open>Releasing\<close>

text \<open>\<open>free(array[idx].field)\<close>: the element is read from the array before its field is freed.\<close>

definition free_field :: "'a list ptr \<Rightarrow> nat \<Rightarrow> ('a \<Rightarrow> 'b ptr) \<Rightarrow> 'w env \<Rightarrow> 'w env res" where
  "free_field arr idx field e =
     andThen (load_at (live e) arr idx) (\<lambda>x. free_ptr (field x) e)"

definition release_tuner_fields :: "tv_tuner list ptr \<Rightarrow> nat \<Rightarrow> 'w env \<Rightarrow> 'w env res" where
  "release_tuner_fields tuners idx e =
     andThen (free_field tuners idx t_id e) (\<lambda>e.
       free_field tuners idx supported_types e)"

definition release_tuners :: "u32 \<Rightarrow> tv_tuner list ptr \<Rightarrow> 'w env \<Rightarrow> 'w env res" where
  "release_tuners num tuners e =
     (if tuners = Null then Inr e
      else andThen (for_loop (release_tuner_fields tuners) 0 (unat num) e) (free_ptr tuners))"

definition release_channel_fields :: "tv_channel list ptr \<Rightarrow> nat \<Rightarrow> 'w env \<Rightarrow> 'w env res" where
  "release_channel_fields channels idx e =
     andThen (free_field channels idx network_id e) (\<lambda>e.
     andThen (free_field channels idx trans_stream_id e) (\<lambda>e.
     andThen (free_field channels idx service_id e) (\<lambda>e.
     andThen (free_field channels idx ch_number e) (\<lambda>e.
       free_field channels idx ch_name e))))"

definition release_channels :: "u32 \<Rightarrow> tv_channel list ptr \<Rightarrow> 'w env \<Rightarrow> 'w env res" where
  "release_channels num channels e =
     (if channels = Null then Inr e
      else andThen (for_loop (release_channel_fields channels) 0 (unat num) e) (free_ptr channels))"

text \<open>
  The two inner loops of \<open>release_programs\<close> free the strings of one language array: each
  iteration reads the program, then the array, then frees the element.
\<close>

definition release_langs ::
  "tv_program list ptr \<Rightarrow> nat \<Rightarrow> (tv_program \<Rightarrow> u32) \<Rightarrow> (tv_program \<Rightarrow> string ptr list ptr) \<Rightarrow>
     'w env \<Rightarrow> 'w env res" where
  "release_langs programs prog_idx num arr e =
     andThen (load_at (live e) programs prog_idx) (\<lambda>p.
     andThen (for_loop (\<lambda>attr_idx e.
                andThen (load_at (live e) programs prog_idx) (\<lambda>p.
                  free_field (arr p) attr_idx (\<lambda>s. s) e)) 0 (unat (num p)) e) (\<lambda>e.
       free_field programs prog_idx arr e))"

definition release_program_fields :: "tv_program list ptr \<Rightarrow> nat \<Rightarrow> 'w env \<Rightarrow> 'w env res" where
  "release_program_fields programs prog_idx e =
     andThen (free_field programs prog_idx evt_id e) (\<lambda>e.
     andThen (free_field programs prog_idx title e) (\<lambda>e.
     andThen (free_field programs prog_idx descpt e) (\<lambda>e.
     andThen (free_field programs prog_idx rating e) (\<lambda>e.
     andThen (release_langs programs prog_idx lang_num langs e) (\<lambda>e.
       release_langs programs prog_idx stl_lang_num stl_langs e)))))"

text \<open>The array itself is freed inside the loop, as in the source.\<close>

definition release_programs :: "u32 \<Rightarrow> tv_program list ptr \<Rightarrow> 'w env \<Rightarrow> 'w env res" where
  "release_programs num programs e =
     (if programs = Null then Inr e
      else for_loop (\<lambda>prog_idx e.
             andThen (release_program_fields programs prog_idx e) (free_ptr programs))
             0 (unat num) e)"

section \<open>What a release frees\<close>

definition ptr_addrs :: "'a ptr \<Rightarrow> nat list" where
  "ptr_addrs p = (case p of Ptr a _ \<Rightarrow> [a] | _ \<Rightarrow> [])"

lemma ptr_addrs_simps [simp]:
  "ptr_addrs Null = []" "ptr_addrs Wild = []" "ptr_addrs (Ptr a v) = [a]"
  by (simp_all add: ptr_addrs_def)

lemma free_ptr_owned [simp]:
  "p \<noteq> Wild \<Longrightarrow> set (ptr_addrs p) \<subseteq> live e \<Longrightarrow>
     free_ptr p e = Inr (e\<lparr>live := live e - set (ptr_addrs p)\<rparr>)"
  by (cases p) auto

lemma free_field_live [simp]:
  "a \<in> live e \<Longrightarrow> i < length xs \<Longrightarrow> free_field (Ptr a xs) i f e = free_ptr (f (xs ! i)) e"
  by (simp add: free_field_def)

text \<open>One step of a sequence of such frees, with the rest of the sequence as a premise.\<close>

lemma free_then:
  assumes "a \<in> live e" "i < length xs" "f (xs ! i) \<noteq> Wild"
    and "set (ptr_addrs (f (xs ! i))) \<subseteq> live e"
    and "k (e\<lparr>live := live e - set (ptr_addrs (f (xs ! i)))\<rparr>) = r"
  shows "andThen (free_field (Ptr a xs) i f e) k = r"
  using assms by simp

lemma free_last:
  assumes "a \<in> live e" "i < length xs" "f (xs ! i) \<noteq> Wild"
    and "set (ptr_addrs (f (xs ! i))) \<subseteq> live e"
    and "Inr (e\<lparr>live := live e - set (ptr_addrs (f (xs ! i)))\<rparr>) = r"
  shows "free_field (Ptr a xs) i f e = r"
  using assms by simp

lemma Diff_Diff_Un: "A - B - C = A - (B \<union> C)"
  by blast

lemma free_field_dead [simp]:
  "a \<notin> live e \<Longrightarrow> free_field (Ptr a xs) i f e = Inl Use_after_free"
  by (simp add: free_field_def load_at_def)

text \<open>
  The contract every element-wise release has: it frees what the element owns, provided that
  is live, without repetition, and disjoint from what the loop itself still reads. A loop of
  such releases then frees what all its elements own.
\<close>

locale element_release =
  fixes body :: "nat \<Rightarrow> 'w env \<Rightarrow> 'w env res"
    and owned :: "nat \<Rightarrow> nat list"
    and sound :: "nat \<Rightarrow> bool"
    and read_set :: "nat set"
  assumes body_frees:
    "read_set \<subseteq> live e \<Longrightarrow> sound i \<Longrightarrow> distinct (owned i) \<Longrightarrow>
     set (owned i) \<subseteq> live e - read_set \<Longrightarrow>
     body i e = Inr (e\<lparr>live := live e - set (owned i)\<rparr>)"
begin

lemma loop_frees:
  "read_set \<subseteq> live e \<Longrightarrow> list_all sound [i..<i + n] \<Longrightarrow>
   distinct (concat (map owned [i..<i + n])) \<Longrightarrow>
   set (concat (map owned [i..<i + n])) \<subseteq> live e - read_set \<Longrightarrow>
   for_loop body i n e = Inr (e\<lparr>live := live e - set (concat (map owned [i..<i + n]))\<rparr>)"
proof (induction n arbitrary: i e)
  case 0
  then show ?case by simp
next
  case (Suc n)
  let ?rest = "concat (map owned [Suc i..<Suc i + n])"
  let ?e = "e\<lparr>live := live e - set (owned i)\<rparr>"
  have split: "[i..<i + Suc n] = i # [Suc i..<Suc i + n]"
    by (simp add: upt_rec)
  have body: "body i e = Inr ?e"
    using Suc.prems unfolding split by (intro body_frees) auto
  have "for_loop body (Suc i) n ?e = Inr (?e\<lparr>live := live ?e - set ?rest\<rparr>)"
    using Suc.prems unfolding split by (intro Suc.IH) auto
  with body show ?case unfolding split by (simp add: Diff_Diff_Un)
qed

end

lemma map_nth_upt: "map (\<lambda>i. f (xs ! i)) [0..<length xs] = map f xs"
  by (rule nth_equalityI) simp_all

text \<open>What each structure owns, and which structures may be released at all.\<close>

definition owned_tuner :: "tv_tuner \<Rightarrow> nat list" where
  "owned_tuner t = ptr_addrs (t_id t) @ ptr_addrs (supported_types t)"

definition sound_tuner :: "tv_tuner \<Rightarrow> bool" where
  "sound_tuner t \<longleftrightarrow> t_id t \<noteq> Wild \<and> supported_types t \<noteq> Wild"

definition owned_channel :: "tv_channel \<Rightarrow> nat list" where
  "owned_channel c =
     ptr_addrs (network_id c) @ ptr_addrs (trans_stream_id c) @ ptr_addrs (service_id c) @
     ptr_addrs (ch_number c) @ ptr_addrs (ch_name c)"

definition sound_channel :: "tv_channel \<Rightarrow> bool" where
  "sound_channel c \<longleftrightarrow> network_id c \<noteq> Wild \<and> trans_stream_id c \<noteq> Wild \<and> service_id c \<noteq> Wild \<and>
     ch_number c \<noteq> Wild \<and> ch_name c \<noteq> Wild"

definition owned_langs :: "string ptr list ptr \<Rightarrow> nat list" where
  "owned_langs p = (case p of Ptr b ss \<Rightarrow> concat (map ptr_addrs ss) @ [b] | _ \<Rightarrow> [])"

definition sound_langs :: "u32 \<Rightarrow> string ptr list ptr \<Rightarrow> bool" where
  "sound_langs num p =
     (case p of Ptr b ss \<Rightarrow> length ss = unat num \<and> Wild \<notin> set ss | Null \<Rightarrow> num = 0 | Wild \<Rightarrow> False)"

definition owned_program :: "tv_program \<Rightarrow> nat list" where
  "owned_program p =
     ptr_addrs (evt_id p) @ ptr_addrs (title p) @ ptr_addrs (descpt p) @ ptr_addrs (rating p) @
     owned_langs (langs p) @ owned_langs (stl_langs p)"

definition sound_program :: "tv_program \<Rightarrow> bool" where
  "sound_program p \<longleftrightarrow> evt_id p \<noteq> Wild \<and> title p \<noteq> Wild \<and> descpt p \<noteq> Wild \<and> rating p \<noteq> Wild \<and>
     sound_langs (lang_num p) (langs p) \<and> sound_langs (stl_lang_num p) (stl_langs p)"

text \<open>An array at \<open>a\<close> and its elements are all live, and no two of the addresses coincide.\<close>

definition owns_array :: "('a \<Rightarrow> nat list) \<Rightarrow> nat \<Rightarrow> 'a list \<Rightarrow> nat set \<Rightarrow> bool" where
  "owns_array owned a xs lv \<longleftrightarrow>
     distinct (a # concat (map owned xs)) \<and> set (a # concat (map owned xs)) \<subseteq> lv"

lemma release_tuner_fields_frees:
  assumes "a \<in> live e" "i < length xs" "sound_tuner (xs ! i)"
    and "distinct (owned_tuner (xs ! i))" "set (owned_tuner (xs ! i)) \<subseteq> live e - {a}"
  shows "release_tuner_fields (Ptr a xs) i e =
           Inr (e\<lparr>live := live e - set (owned_tuner (xs ! i))\<rparr>)"
  using assms unfolding release_tuner_fields_def owned_tuner_def sound_tuner_def
  by (intro free_then free_last) (auto simp: Diff_Diff_Un Un_assoc)

interpretation tuner_release:
  element_release "release_tuner_fields (Ptr a xs)" "\<lambda>i. owned_tuner (xs ! i)"
    "\<lambda>i. i < length xs \<and> sound_tuner (xs ! i)" "{a}" for a xs
  by unfold_locales (auto intro!: release_tuner_fields_frees)

lemma release_channel_fields_frees:
  assumes "a \<in> live e" "i < length xs" "sound_channel (xs ! i)"
    and "distinct (owned_channel (xs ! i))" "set (owned_channel (xs ! i)) \<subseteq> live e - {a}"
  shows "release_channel_fields (Ptr a xs) i e =
           Inr (e\<lparr>live := live e - set (owned_channel (xs ! i))\<rparr>)"
  using assms unfolding release_channel_fields_def owned_channel_def sound_channel_def
  by (intro free_then free_last) (auto simp: Diff_Diff_Un Un_assoc)

interpretation channel_release:
  element_release "release_channel_fields (Ptr a xs)" "\<lambda>i. owned_channel (xs ! i)"
    "\<lambda>i. i < length xs \<and> sound_channel (xs ! i)" "{a}" for a xs
  by unfold_locales (auto intro!: release_channel_fields_frees)

text \<open>Freeing a whole array after a loop that has freed what its elements own.\<close>

lemma free_array_last:
  assumes "owns_array owned a xs (live e)"
    and "m = Inr (e\<lparr>live := live e - set (concat (map owned xs))\<rparr>)"
  shows "andThen m (free_ptr (Ptr a xs)) =
           Inr (e\<lparr>live := live e - set (a # concat (map owned xs))\<rparr>)"
proof -
  have "a \<in> live e - set (concat (map owned xs))"
    using assms(1) by (auto simp: owns_array_def)
  moreover have "live e - set (concat (map owned xs)) - {a} =
      live e - set (a # concat (map owned xs))"
    by auto
  ultimately show ?thesis using assms(2) by simp
qed

lemma release_tuners_frees:
  assumes "owns_array owned_tuner a ts (live e)" "list_all sound_tuner ts" "length ts = unat num"
  shows "release_tuners num (Ptr a ts) e =
           Inr (e\<lparr>live := live e - set (a # concat (map owned_tuner ts))\<rparr>)"
proof -
  have "for_loop (release_tuner_fields (Ptr a ts)) 0 (length ts) e =
          Inr (e\<lparr>live := live e - set (concat (map owned_tuner ts))\<rparr>)"
    using tuner_release.loop_frees [of a e ts 0 "length ts"] assms(1,2)
    by (auto simp: owns_array_def map_nth_upt list_all_length)
  from free_array_last [OF assms(1) this] assms(3) show ?thesis
    by (simp add: release_tuners_def)
qed

lemma release_channels_frees:
  assumes "owns_array owned_channel a cs (live e)" "list_all sound_channel cs"
    and "length cs = unat num"
  shows "release_channels num (Ptr a cs) e =
           Inr (e\<lparr>live := live e - set (a # concat (map owned_channel cs))\<rparr>)"
proof -
  have "for_loop (release_channel_fields (Ptr a cs)) 0 (length cs) e =
          Inr (e\<lparr>live := live e - set (concat (map owned_channel cs))\<rparr>)"
    using channel_release.loop_frees [of a e cs 0 "length cs"] assms(1,2)
    by (auto simp: owns_array_def map_nth_upt list_all_length)
  from free_array_last [OF assms(1) this] assms(3) show ?thesis
    by (simp add: release_channels_def)
qed

section \<open>Programs\<close>

interpretation lang_release:
  element_release
    "\<lambda>j e. andThen (load_at (live e) (Ptr a xs) i) (\<lambda>p. free_field (Ptr b ss) j (\<lambda>s. s) e)"
    "\<lambda>j. ptr_addrs (ss ! j)"
    "\<lambda>j. i < length xs \<and> j < length ss \<and> ss ! j \<noteq> Wild" "{a, b}" for a xs i b ss
proof (unfold_locales, goal_cases)
  case (1 e j)
  then have "set (ptr_addrs (ss ! j)) \<subseteq> live e" by blast
  with 1 show ?case by simp
qed

lemma for_loop_cong:
  assumes "\<And>k t. body k t = body' k t"
  shows "for_loop body i n s = for_loop body' i n s"
proof -
  have "body = body'" using assms by blast
  then show ?thesis by simp
qed

lemma release_langs_frees:
  assumes live: "a \<in> live e" and i: "i < length xs"
    and sound: "sound_langs (num (xs ! i)) (arr (xs ! i))"
    and own: "distinct (owned_langs (arr (xs ! i)))"
      "set (owned_langs (arr (xs ! i))) \<subseteq> live e - {a}"
  shows "release_langs (Ptr a xs) i num arr e =
           Inr (e\<lparr>live := live e - set (owned_langs (arr (xs ! i)))\<rparr>)"
proof (cases "arr (xs ! i)")
  case Null
  then show ?thesis using assms by (simp add: release_langs_def sound_langs_def owned_langs_def)
next
  case Wild
  then show ?thesis using sound by (simp add: sound_langs_def)
next
  case (Ptr b ss)
  let ?strs = "concat (map ptr_addrs ss)"
  let ?e = "e\<lparr>live := live e - set ?strs\<rparr>"
  have len: "unat (num (xs ! i)) = length ss" and nw: "Wild \<notin> set ss"
    using sound Ptr by (simp_all add: sound_langs_def)
  have d: "distinct (?strs @ [b])" "set (?strs @ [b]) \<subseteq> live e - {a}"
    using own Ptr by (simp_all add: owned_langs_def)
  have strs: "concat (map (\<lambda>j. ptr_addrs (ss ! j)) [0..<0 + length ss]) = ?strs"
    by (simp add: map_nth_upt)
  have nw': "ss ! j \<noteq> Wild" if "j < length ss" for j
    using nw nth_mem [OF that] by metis
  have "{a, b} \<subseteq> live e" "set ?strs \<subseteq> live e - {a, b}" "distinct ?strs"
    using live d by auto
  moreover have "list_all (\<lambda>j. i < length xs \<and> j < length ss \<and> ss ! j \<noteq> Wild) [0..<0 + length ss]"
    using i nw' by (simp add: list_all_iff)
  ultimately have "for_loop (\<lambda>j e. andThen (load_at (live e) (Ptr a xs) i)
          (\<lambda>p. free_field (Ptr b ss) j (\<lambda>s. s) e)) 0 (length ss) e = Inr ?e"
    using lang_release.loop_frees [of a b e i xs ss 0 "length ss", unfolded strs] by blast
  moreover have "for_loop (\<lambda>j e. andThen (load_at (live e) (Ptr a xs) i)
          (\<lambda>p. free_field (arr p) j (\<lambda>s. s) e)) 0 (length ss) e =
      for_loop (\<lambda>j e. andThen (load_at (live e) (Ptr a xs) i)
          (\<lambda>p. free_field (Ptr b ss) j (\<lambda>s. s) e)) 0 (length ss) e"
    by (rule for_loop_cong) (simp add: load_at_def Ptr)
  ultimately have loop: "for_loop (\<lambda>j e. andThen (load_at (live e) (Ptr a xs) i)
          (\<lambda>p. free_field (arr p) j (\<lambda>s. s) e)) 0 (length ss) e = Inr ?e"
    by simp
  have "a \<notin> set ?strs" "b \<notin> set ?strs" "b \<in> live e" using d by auto
  then show ?thesis
    using live i Ptr len loop
    by (auto simp: release_langs_def owned_langs_def Diff_Diff_Un)
qed

lemma release_langs_then:
  assumes "a \<in> live e" "i < length xs" "sound_langs (num (xs ! i)) (arr (xs ! i))"
    and "distinct (owned_langs (arr (xs ! i)))"
      "set (owned_langs (arr (xs ! i))) \<subseteq> live e - {a}"
    and "k (e\<lparr>live := live e - set (owned_langs (arr (xs ! i)))\<rparr>) = r"
  shows "andThen (release_langs (Ptr a xs) i num arr e) k = r"
  using release_langs_frees [where num = num and arr = arr, OF assms(1-5)] assms(6) by simp

lemma release_program_fields_frees:
  assumes "a \<in> live e" "i < length xs" "sound_program (xs ! i)"
    and "distinct (owned_program (xs ! i))" "set (owned_program (xs ! i)) \<subseteq> live e - {a}"
    and "k (e\<lparr>live := live e - set (owned_program (xs ! i))\<rparr>) = r"
  shows "andThen (release_program_fields (Ptr a xs) i e) k = r"
proof -
  have "release_program_fields (Ptr a xs) i e =
          andThen (release_program_fields (Ptr a xs) i e) Inr" by simp
  also have "\<dots> = Inr (e\<lparr>live := live e - set (owned_program (xs ! i))\<rparr>)"
    using assms(1-5)
    unfolding release_program_fields_def owned_program_def sound_program_def andThen_assoc
    by (intro free_then release_langs_then) (auto simp: Diff_Diff_Un Un_assoc)
  finally show ?thesis using assms(6) by simp
qed

text \<open>One program: everything is freed, the array too.\<close>

lemma release_one_program:
  assumes "owns_array owned_program a [p] (live e)" "sound_program p"
  shows "release_programs 1 (Ptr a [p]) e =
           Inr (e\<lparr>live := live e - set (a # owned_program p)\<rparr>)"
proof -
  have own: "a \<in> live e" "distinct (owned_program p)" "set (owned_program p) \<subseteq> live e - {a}"
    using assms(1) by (auto simp: owns_array_def)
  have "live e - set (owned_program p) - {a} = live e - set (a # owned_program p)" by auto
  then have "andThen (release_program_fields (Ptr a [p]) 0 e) (free_ptr (Ptr a [p])) =
        Inr (e\<lparr>live := live e - set (a # owned_program p)\<rparr>)"
    using own assms(2) by (intro release_program_fields_frees) auto
  then show ?thesis by (simp add: release_programs_def)
qed

text \<open>No program: the array is not freed at all.\<close>

lemma release_no_programs: "release_programs 0 p e = Inr e"
  by (simp add: release_programs_def)

text \<open>Several programs: the second iteration reads the array that the first one freed.\<close>

lemma release_many_programs:
  assumes "owns_array owned_program a ps (live e)" "list_all sound_program ps"
    and "2 \<le> unat num" "unat num \<le> length ps"
  shows "release_programs num (Ptr a ps) e = Inl Use_after_free"
proof -
  from assms(3,4) obtain p q qs n where ps: "ps = p # q # qs" and n: "unat num = Suc (Suc n)"
    by (cases ps; cases "tl ps") (auto simp: numeral_2_eq_2 le_iff_add)
  let ?e = "e\<lparr>live := live e - set (a # owned_program p)\<rparr>"
  have own: "a \<in> live e" "distinct (owned_program p)" "set (owned_program p) \<subseteq> live e - {a}"
    using assms(1) ps by (auto simp: owns_array_def)
  have "live e - set (owned_program p) - {a} = live e - set (a # owned_program p)" by auto
  then have first: "andThen (release_program_fields (Ptr a ps) 0 e) (free_ptr (Ptr a ps)) = Inr ?e"
    using own assms(2) ps by (intro release_program_fields_frees) auto
  have "release_program_fields (Ptr a ps) (Suc 0) ?e = Inl Use_after_free"
    by (simp add: release_program_fields_def)
  with first n show ?thesis by (simp add: release_programs_def)
qed

section \<open>Properties\<close>

text \<open>The closed examples release one tuner, one channel, and programs with one audio language.\<close>

definition sample_tuner :: tv_tuner where
  "sample_tuner = \<lparr>t_id = Ptr 2 ''7'', num_types = 1, supported_types = Ptr 3 [1]\<rparr>"

definition sample_channel :: tv_channel where
  "sample_channel = \<lparr>network_id = Ptr 2 ''9'', trans_stream_id = Ptr 3 ''1'', service_id = Ptr 4 ''0'',
     ch_type = 0, ch_number = Ptr 5 ''12'', ch_name = Ptr 6 ''one'', is_emergency = 0, is_free = 1\<rparr>"

definition sample_program :: "nat \<Rightarrow> tv_program" where
  "sample_program b = \<lparr>evt_id = Ptr b ''e'', title = Ptr (b + 1) ''t'', start_time = 0, duration = 60,
     descpt = Ptr (b + 2) ''d'', rating = Ptr (b + 3) [], lang_num = 1,
     langs = Ptr (b + 4) [Ptr (b + 5) ''eng''], stl_lang_num = 0, stl_langs = Null\<rparr>"

text \<open>
  C34: \<open>release_tuners\<close> on an array of \<open>num\<close> initialised tuners frees the array, the id and the source
  types of every tuner, each once, and nothing else.
\<close>

theorem release_tuners_exact:
  assumes "owns_array owned_tuner a ts (live e)" "list_all sound_tuner ts" "length ts = unat num"
  shows "release_tuners num (Ptr a ts) e =
           Inr (e\<lparr>live := live e - set (a # concat (map owned_tuner ts))\<rparr>)"
  using assms by (rule release_tuners_frees)

theorem release_tuners_exact_witness:
  "release_tuners 1 (Ptr 1 [sample_tuner]) (sample_env\<lparr>live := {1, 2, 3, 4}\<rparr>) =
     Inr (sample_env\<lparr>live := {4}\<rparr>)"
proof -
  have "{1, 2, 3, 4 :: nat} - {1, 2, 3} = {4}" by auto
  then show ?thesis
    using release_tuners_exact [of 1 "[sample_tuner]" "sample_env\<lparr>live := {1, 2, 3, 4}\<rparr>" 1]
    by (simp add: owns_array_def owned_tuner_def sound_tuner_def sample_tuner_def)
qed

end
