(* ===== verification/Tv_Hal.thy ===== *)
theory Tv_Hal
  imports Tvd_Pdubuf Tv_Utils
begin

text \<open>
  tv_hal.c: the table of known tuner devices, kept up to date by the events of the Android TV
  input HAL, and the choice, opening and closing of streams. The static variables are the
  record \<open>hal_state\<close>; \<open>module\<close> and \<open>device\<close> are modelled by whether they point anywhere. Loop
  indices are bounded by \<open>device_num\<close> (an octet) and never wrap, so they are natural numbers;
  every access to \<open>device_list\<close> is checked against its length.
\<close>

section \<open>State\<close>

record device_info =
  device_id :: i32
  device_type :: i32
  acting_stream_id :: i32

record hal_state =
  hal_module :: bool
  hal_device :: bool
  device_num :: u8
  device_list :: "device_info list"

definition MAX_DEVICE_NUM :: nat where "MAX_DEVICE_NUM = 100"

definition get_device :: "hal_state \<Rightarrow> nat \<Rightarrow> device_info res" where
  "get_device h i =
     (if i < length (device_list h) then Inr (device_list h ! i) else Inl Out_of_bounds)"

definition set_device :: "nat \<Rightarrow> device_info \<Rightarrow> hal_state \<Rightarrow> hal_state res" where
  "set_device i d h =
     (if i < length (device_list h) then Inr (h\<lparr>device_list := (device_list h)[i := d]\<rparr>)
      else Inl Out_of_bounds)"

text \<open>\<open>device->close_stream(device, ...)\<close>, a call through the device pointer.\<close>

definition device_close_stream ::
  "'w platform \<Rightarrow> hal_state \<Rightarrow> i32 \<Rightarrow> i32 \<Rightarrow> 'w env \<Rightarrow> (int \<times> 'w env) res" where
  "device_close_stream P h dev stream e =
     (if hal_device h then Inr (ext_call (close_stream P dev stream) e) else Inl Null_deref)"

section \<open>Device events\<close>

definition remove_device_by_idx :: "nat \<Rightarrow> hal_state \<Rightarrow> hal_state res" where
  "remove_device_by_idx target h =
     (let h1 = h\<lparr>device_num := device_num h - 1\<rparr> in
      for_loop (\<lambda>idx h. andThen (get_device h (idx + 1)) (\<lambda>d. set_device idx d h))
        target (unat (device_num h1) - target) h1)"

text \<open>
  The search loop of the event handler and of \<open>tv_input_hal_get_stream\<close>: the first index whose
  device has the given id, \<open>device_num\<close> if there is none.
\<close>

fun find_device_from :: "device_info list \<Rightarrow> i32 \<Rightarrow> nat \<Rightarrow> nat \<Rightarrow> nat res" where
  "find_device_from ds dev idx 0 = Inr idx"
| "find_device_from ds dev idx (Suc n) =
     (if idx < length ds then
        (if device_id (ds ! idx) = dev then Inr idx else find_device_from ds dev (Suc idx) n)
      else Inl Out_of_bounds)"

definition find_device :: "hal_state \<Rightarrow> i32 \<Rightarrow> nat res" where
  "find_device h dev = find_device_from (device_list h) dev 0 (unat (device_num h))"

definition device_init_notify ::
  "'w platform \<Rightarrow> tv_event \<Rightarrow> hal_state \<Rightarrow> 'w env \<Rightarrow> (hal_state \<times> 'w env) res" where
  "device_init_notify P event h e =
     (if ev_type event \<noteq> TV_INPUT_EVENT_OTHER \<and> ev_device_type event \<noteq> TV_INPUT_TYPE_TUNER P
      then Inr (h, e)
      else case ev_type event of
        TV_INPUT_EVENT_DEVICE_AVAILABLE \<Rightarrow>
          if MAX_DEVICE_NUM \<le> unat (device_num h) then Inr (h, e)
          else andThen
                 (set_device (unat (device_num h))
                    \<lparr>device_id = ev_device_id event, device_type = ev_device_type event,
                     acting_stream_id = -1\<rparr> h)
                 (\<lambda>h. Inr (h\<lparr>device_num := device_num h + 1\<rparr>, e))
      | TV_INPUT_EVENT_DEVICE_UNAVAILABLE \<Rightarrow>
          andThen (find_device h (ev_device_id event)) (\<lambda>idx.
            if unat (device_num h) \<le> idx then Inr (h, e)
            else andThen (get_device h idx) (\<lambda>d.
                 andThen (device_close_stream P h (ev_device_id event) (acting_stream_id d) e)
                   (\<lambda>(_, e). andThen (remove_device_by_idx idx h) (\<lambda>h. Inr (h, e)))))
      | TV_INPUT_EVENT_STREAM_CONFIGURATIONS_CHANGED \<Rightarrow>
          andThen (find_device h (ev_device_id event)) (\<lambda>idx.
            if unat (device_num h) \<le> idx then Inr (h, e)
            else andThen (get_device h idx) (\<lambda>d.
                 andThen (device_close_stream P h (ev_device_id event) (acting_stream_id d) e)
                   (\<lambda>(_, e). andThen (set_device idx (d\<lparr>acting_stream_id := -1\<rparr>) h)
                      (\<lambda>h. Inr (h, e)))))
      | TV_INPUT_EVENT_OTHER \<Rightarrow> Inr (h, e))"

definition notify_step ::
  "'w platform \<Rightarrow> tv_event \<Rightarrow> hal_state \<times> 'w env \<Rightarrow> (hal_state \<times> 'w env) res" where
  "notify_step P event = (\<lambda>(h, e). device_init_notify P event h e)"

section \<open>Initialising and uninitialising\<close>

text \<open>
  The result of \<open>device->initialize\<close> is not stored, so the check after it looks at the
  \<open>err\<close> of the call before, which is 0 there. Events the HAL signals from within
  \<open>initialize\<close> are handled before it returns. The expression statement \<open>device_list[MAX_DEVICE_NUM];\<close>
  before these calls computes a value that is not used; it has no effect and no counterpart here.
\<close>

definition tv_input_hal_init ::
  "'w platform \<Rightarrow> hal_state \<Rightarrow> 'w env \<Rightarrow> (u8 \<times> hal_state \<times> 'w env) res" where
  "tv_input_hal_init P h e =
     (let h = h\<lparr>hal_module := False, hal_device := False, device_num := 0\<rparr>;
          (err, e) = ext_call (hw_get_module P) e
      in if err \<noteq> 0 then Inr (TV_STATUS_FAIL, h, e)
         else
           let h = h\<lparr>hal_module := True\<rparr>;
               (err, e) = ext_call (hw_module_open P) e
           in if err \<noteq> 0 then Inr (TV_STATUS_FAIL, h, e)
              else
                let h = h\<lparr>hal_device := True\<rparr>;
                    ((_, events), e) = ext_call (hw_initialize P) e
                in andThen (run_steps (notify_step P) events (h, e)) (\<lambda>(h, e).
                     if err \<noteq> 0 then Inr (TV_STATUS_FAIL, h, e)
                     else Inr (TV_STATUS_SUCCESS, h, e)))"

definition tv_input_hal_uninit ::
  "'w platform \<Rightarrow> hal_state \<Rightarrow> 'w env \<Rightarrow> (u8 \<times> 'w env) res" where
  "tv_input_hal_uninit P h e =
     andThen
       (for_loop (\<lambda>idx e. andThen (get_device h idx) (\<lambda>d.
           if acting_stream_id d \<noteq> -1
           then andThen (device_close_stream P h (device_id d) (acting_stream_id d) e)
                  (\<lambda>(_, e). Inr e)
           else Inr e)) 0 (unat (device_num h)) e)
       (\<lambda>e. Inr (TV_STATUS_SUCCESS, e))"

section \<open>Queries\<close>

definition tv_input_hal_get_input_num_by_type :: "hal_state \<Rightarrow> i32 \<Rightarrow> u32 res" where
  "tv_input_hal_get_input_num_by_type h tp =
     for_loop (\<lambda>idx sum. andThen (get_device h idx) (\<lambda>d.
         Inr (if device_type d = tp then sum + 1 else sum))) 0 (unat (device_num h)) 0"

text \<open>\<open>input_num\<close> is not used: the caller's array is written for every matching device.\<close>

definition tv_input_hal_get_inputs_by_type ::
  "hal_state \<Rightarrow> nat set \<Rightarrow> u8 \<Rightarrow> i32 \<Rightarrow> i32 list ptr \<Rightarrow> (u8 \<times> i32 list ptr) res" where
  "tv_input_hal_get_inputs_by_type h lv input_num tp devices =
     andThen
       (for_loop (\<lambda>idx (devices, device_cnt). andThen (get_device h idx) (\<lambda>d.
           if device_type d = tp
           then andThen (store_at lv devices device_cnt (device_id d))
                  (\<lambda>devices. Inr (devices, device_cnt + 1))
           else Inr (devices, device_cnt))) 0 (unat (device_num h)) (devices, 0))
       (\<lambda>(devices, _). Inr (TV_STATUS_SUCCESS, devices))"

section \<open>Streams\<close>

definition select_config ::
  "'w platform \<Rightarrow> stream_config \<Rightarrow> tv_stream \<Rightarrow> tv_stream" where
  "select_config P c strm =
     (let strm = strm\<lparr>ts_type := sc_type c, ts_stream_id := sc_stream_id c\<rparr>
      in if ts_type strm = TV_STREAM_TYPE_BUFFER_PRODUCER P
         then strm\<lparr>ts_width := sc_max_width c, ts_height := sc_max_height c\<rparr>
         else strm)"

text \<open>
  What happens to the stream that is active on device \<open>idx\<close>, if any: \<open>Some ret\<close> when the
  function returns \<open>ret\<close> early, \<open>None\<close> when it goes on to open the new stream.
\<close>

definition retire_stream ::
  "'w platform \<Rightarrow> hal_state \<Rightarrow> nat \<Rightarrow> tv_stream \<Rightarrow> 'w env \<Rightarrow> (u8 option \<times> 'w env) res" where
  "retire_stream P h idx strm e =
     (if unat (device_num h) \<le> idx then Inr (None, e)
      else andThen (get_device h idx) (\<lambda>d.
        if acting_stream_id d = -1 then Inr (None, e)
        else if acting_stream_id d = ts_stream_id strm then Inr (Some TV_STATUS_SUCCESS, e)
        else andThen (device_close_stream P h (device_id d) (acting_stream_id d) e) (\<lambda>(result, e).
               if result \<noteq> 0 then Inr (Some TV_STATUS_FAIL, e) else Inr (None, e))))"

definition tv_input_hal_get_stream ::
  "'w platform \<Rightarrow> i32 \<Rightarrow> tv_stream \<Rightarrow> hal_state \<Rightarrow> 'w env \<Rightarrow>
     (u8 \<times> tv_stream \<times> hal_state \<times> 'w env) res" where
  "tv_input_hal_get_stream P dev strm h e =
     (if \<not> hal_device h then Inl Null_deref
      else case ext_call (get_stream_configurations P dev) e of ((r, configs), e) \<Rightarrow>
        if r \<noteq> 0 then Inr (TV_STATUS_FAIL, strm, h, e)
        else case List.find (\<lambda>c. sc_type c = TV_STREAM_TYPE_INDEPENDENT_VIDEO_SOURCE P) configs of
          None \<Rightarrow> Inr (TV_STATUS_FAIL, strm, h, e)
        | Some c \<Rightarrow>
            let strm = select_config P c strm in
            andThen (find_device h dev) (\<lambda>idx.
            andThen (retire_stream P h idx strm e) (\<lambda>(early, e).
              case early of
                Some ret \<Rightarrow> Inr (ret, strm, h, e)
              | None \<Rightarrow>
                  case ext_call (open_stream P dev strm) e of ((r, strm), e) \<Rightarrow>
                    if r \<noteq> 0 then Inr (TV_STATUS_FAIL, strm, h, e)
                    else andThen (get_device h idx) (\<lambda>d.
                         andThen (set_device idx (d\<lparr>acting_stream_id := ts_stream_id strm\<rparr>) h)
                           (\<lambda>h. Inr (TV_STATUS_SUCCESS, strm, h, e))))))"

section \<open>The device table as a list\<close>

text \<open>
  The contract of the table: \<open>devices\<close> is the list of known devices in the order of arrival.
  \<open>hal_wf\<close> is its representation invariant: the array has its declared length, the count stays
  within it, every entry in use is a tuner, and there is no entry before a device is open.
\<close>

definition devices :: "hal_state \<Rightarrow> device_info list" where
  "devices h = take (unat (device_num h)) (device_list h)"

definition hal_wf :: "'w platform \<Rightarrow> hal_state \<Rightarrow> bool" where
  "hal_wf P h \<longleftrightarrow> length (device_list h) = MAX_DEVICE_NUM \<and> unat (device_num h) \<le> MAX_DEVICE_NUM \<and>
     list_all (\<lambda>d. device_type d = TV_INPUT_TYPE_TUNER P) (devices h) \<and>
     (devices h \<noteq> [] \<longrightarrow> hal_device h)"

lemma length_devices [simp]: "hal_wf P h \<Longrightarrow> length (devices h) = unat (device_num h)"
  by (simp add: devices_def hal_wf_def)

lemma get_device_in [simp]:
  "hal_wf P h \<Longrightarrow> i < unat (device_num h) \<Longrightarrow> get_device h i = Inr (devices h ! i)"
  by (simp add: get_device_def devices_def hal_wf_def)

lemma devices_type:
  assumes "hal_wf P h" "i < unat (device_num h)"
  shows "device_type (devices h ! i) = TV_INPUT_TYPE_TUNER P"
proof -
  have "list_all (\<lambda>d. device_type d = TV_INPUT_TYPE_TUNER P) (devices h)"
    using assms(1) by (simp add: hal_wf_def)
  moreover have "i < length (devices h)" using assms by simp
  ultimately show ?thesis unfolding list_all_length by blast
qed

lemma hal_wf_device:
  assumes "hal_wf P h" "i < unat (device_num h)"
  shows "hal_device h"
proof -
  have "devices h \<noteq> []" using assms by (metis length_devices list.size(3) not_less_zero)
  then show ?thesis using assms(1) by (simp add: hal_wf_def)
qed

abbreviation (input) other_id :: "i32 \<Rightarrow> device_info \<Rightarrow> bool" where
  "other_id dev d \<equiv> device_id d \<noteq> dev"

lemma find_device_from_eq:
  "idx + n \<le> length ds \<Longrightarrow>
     find_device_from ds dev idx n =
       Inr (idx + length (takeWhile (other_id dev) (take n (drop idx ds))))"
proof (induction n arbitrary: idx)
  case 0
  then show ?case by simp
next
  case (Suc n)
  then have "take (Suc n) (drop idx ds) = ds ! idx # take n (drop (Suc idx) ds)"
    by (simp add: take_Suc drop_Suc tl_drop hd_drop_conv_nth)
  with Suc show ?case by simp
qed

lemma find_device_eq:
  "hal_wf P h \<Longrightarrow>
     find_device h dev = Inr (length (takeWhile (other_id dev) (devices h)))"
  by (simp add: find_device_def find_device_from_eq hal_wf_def devices_def)

text \<open>Removing shifts the later entries down by one.\<close>

lemma remove_device_by_idx_eq:
  assumes "length (device_list h) = MAX_DEVICE_NUM" "unat (device_num h) \<le> MAX_DEVICE_NUM"
    and i: "i < unat (device_num h)"
  shows "\<exists>xs. remove_device_by_idx i h =
                Inr (h\<lparr>device_num := device_num h - 1, device_list := xs\<rparr>) \<and>
              length xs = MAX_DEVICE_NUM \<and>
              take (unat (device_num h) - 1) xs = take i (devices h) @ drop (Suc i) (devices h)"
proof -
  let ?n = "unat (device_num h) - 1"
  let ?ds = "device_list h"
  let ?h1 = "h\<lparr>device_num := device_num h - 1\<rparr>"
  define I where "I k t \<longleftrightarrow> (\<exists>xs. t = ?h1\<lparr>device_list := xs\<rparr> \<and> length xs = length ?ds \<and>
      (\<forall>j < length ?ds. xs ! j = (if i \<le> j \<and> j < k then ?ds ! Suc j else ?ds ! j)))" for k t
  have num: "unat (device_num h - 1) = ?n" using i by (simp add: unat_minus_one unat_gt_0 [symmetric])
  have "\<exists>t. for_loop (\<lambda>idx h. andThen (get_device h (idx + 1)) (\<lambda>d. set_device idx d h))
          i (?n - i) ?h1 = Inr t \<and> I (i + (?n - i)) t"
  proof (rule for_loop_total)
    show "I i ?h1" unfolding I_def by (intro exI [of _ ?ds]) auto
  next
    fix k t
    assume k: "i \<le> k" "k < i + (?n - i)" and "I k t"
    then obtain xs where t: "t = ?h1\<lparr>device_list := xs\<rparr>" "length xs = length ?ds"
      "\<forall>j < length ?ds. xs ! j = (if i \<le> j \<and> j < k then ?ds ! Suc j else ?ds ! j)"
      by (auto simp: I_def)
    have k': "Suc k < length ?ds" using k assms by simp
    have "andThen (get_device t (k + 1)) (\<lambda>d. set_device k d t) =
        Inr (?h1\<lparr>device_list := xs[k := xs ! Suc k]\<rparr>)"
      using t k' by (simp add: get_device_def set_device_def)
    moreover have "I (Suc k) (?h1\<lparr>device_list := xs[k := xs ! Suc k]\<rparr>)"
      unfolding I_def using t k k'
      by (intro exI [of _ "xs[k := xs ! Suc k]"]) (auto simp: nth_list_update)
    ultimately show "\<exists>t'. andThen (get_device t (k + 1)) (\<lambda>d. set_device k d t) = Inr t' \<and>
        I (Suc k) t'" by blast
  qed
  then obtain xs where
    loop: "remove_device_by_idx i h = Inr (?h1\<lparr>device_list := xs\<rparr>)"
    and len: "length xs = length ?ds"
    and xs: "\<forall>j < length ?ds. xs ! j = (if i \<le> j \<and> j < i + (?n - i) then ?ds ! Suc j else ?ds ! j)"
    by (auto simp: I_def remove_device_by_idx_def Let_def num)
  have "take ?n xs = take i (devices h) @ drop (Suc i) (devices h)"
  proof (rule nth_equalityI)
    show "length (take ?n xs) = length (take i (devices h) @ drop (Suc i) (devices h))"
      using assms len by (simp add: devices_def)
  next
    fix j
    assume "j < length (take ?n xs)"
    then have "j < ?n" "j < length ?ds" using len by simp_all
    moreover from this have "Suc j < unat (device_num h)" by linarith
    ultimately show "take ?n xs ! j = (take i (devices h) @ drop (Suc i) (devices h)) ! j"
      using xs assms by (auto simp: devices_def nth_append min_def)
  qed
  with loop len assms(1) show ?thesis by auto
qed

section \<open>Events, as operations on the list\<close>

fun remove_first :: "('a \<Rightarrow> bool) \<Rightarrow> 'a list \<Rightarrow> 'a list" where
  "remove_first p [] = []"
| "remove_first p (x # xs) = (if p x then xs else x # remove_first p xs)"

fun update_first :: "('a \<Rightarrow> bool) \<Rightarrow> ('a \<Rightarrow> 'a) \<Rightarrow> 'a list \<Rightarrow> 'a list" where
  "update_first p f [] = []"
| "update_first p f (x # xs) = (if p x then f x # xs else x # update_first p f xs)"

lemma remove_first_split:
  "remove_first (\<lambda>d. device_id d = dev) ds =
     (let i = length (takeWhile (other_id dev) ds) in take i ds @ drop (Suc i) ds)"
  by (induction ds) (simp_all add: Let_def)

lemma update_first_split:
  "update_first (\<lambda>d. device_id d = dev) f ds =
     (let i = length (takeWhile (other_id dev) ds) in
      if i < length ds then ds[i := f (ds ! i)] else ds)"
  by (induction ds) (simp_all add: Let_def)

definition close_all :: "'w platform \<Rightarrow> (i32 \<times> i32) list \<Rightarrow> 'w env \<Rightarrow> 'w env" where
  "close_all P calls e = fold (\<lambda>(d, s) e. snd (ext_call (close_stream P d s) e)) calls e"

definition tuner_event :: "'w platform \<Rightarrow> tv_event \<Rightarrow> bool" where
  "tuner_event P event \<longleftrightarrow> ev_device_type event = TV_INPUT_TYPE_TUNER P"

text \<open>What an event does to the list of devices, and which streams it closes.\<close>

definition notify_devices ::
  "'w platform \<Rightarrow> tv_event \<Rightarrow> device_info list \<Rightarrow> device_info list" where
  "notify_devices P event ds =
     (if \<not> tuner_event P event then ds
      else case ev_type event of
        TV_INPUT_EVENT_DEVICE_AVAILABLE \<Rightarrow>
          if MAX_DEVICE_NUM \<le> length ds then ds
          else ds @ [\<lparr>device_id = ev_device_id event, device_type = ev_device_type event,
                      acting_stream_id = -1\<rparr>]
      | TV_INPUT_EVENT_DEVICE_UNAVAILABLE \<Rightarrow>
          remove_first (\<lambda>d. device_id d = ev_device_id event) ds
      | TV_INPUT_EVENT_STREAM_CONFIGURATIONS_CHANGED \<Rightarrow>
          update_first (\<lambda>d. device_id d = ev_device_id event) (\<lambda>d. d\<lparr>acting_stream_id := -1\<rparr>) ds
      | TV_INPUT_EVENT_OTHER \<Rightarrow> ds)"

definition notify_closes ::
  "'w platform \<Rightarrow> tv_event \<Rightarrow> device_info list \<Rightarrow> (i32 \<times> i32) list" where
  "notify_closes P event ds =
     (if tuner_event P event \<and>
         (ev_type event = TV_INPUT_EVENT_DEVICE_UNAVAILABLE \<or>
          ev_type event = TV_INPUT_EVENT_STREAM_CONFIGURATIONS_CHANGED)
      then case List.find (\<lambda>d. device_id d = ev_device_id event) ds of
             None \<Rightarrow> []
           | Some d \<Rightarrow> [(device_id d, acting_stream_id d)]
      else [])"

lemma find_takeWhile:
  "List.find (\<lambda>d. device_id d = dev) ds =
     (let i = length (takeWhile (other_id dev) ds) in if i < length ds then Some (ds ! i) else None)"
  by (induction ds) (simp_all add: Let_def)

lemma takeWhile_hit:
  "length (takeWhile (other_id dev) ds) < length ds \<Longrightarrow>
     device_id (ds ! length (takeWhile (other_id dev) ds)) = dev"
  using nth_length_takeWhile [of "other_id dev" ds] by simp

text \<open>
  The refinement: on a well-formed table with an open device, handling an event does not
  fault, keeps the table well-formed, changes the list as specified, and makes exactly the
  specified calls of \<open>close_stream\<close>.
\<close>

definition hal_same_module :: "hal_state \<Rightarrow> hal_state \<Rightarrow> bool" where
  "hal_same_module h h' \<longleftrightarrow> hal_module h' = hal_module h \<and> hal_device h' = hal_device h"

lemma list_all_remove_first: "list_all Q ds \<Longrightarrow> list_all Q (remove_first p ds)"
  by (induction ds) auto

lemma length_remove_first_le: "length (remove_first p ds) \<le> length ds"
  by (induction ds) auto

lemma length_update_first [simp]: "length (update_first p f ds) = length ds"
  by (induction ds) auto

lemma list_all_update_first:
  "list_all Q ds \<Longrightarrow> (\<And>d. Q d \<Longrightarrow> Q (f d)) \<Longrightarrow> list_all Q (update_first p f ds)"
  by (induction ds) auto

lemma add_device:
  assumes wf: "hal_wf P h" and dev: "hal_device h" and room: "unat (device_num h) < MAX_DEVICE_NUM"
    and tp: "device_type d = TV_INPUT_TYPE_TUNER P"
  shows "\<exists>h'. andThen (set_device (unat (device_num h)) d h)
                (\<lambda>h. Inr (h\<lparr>device_num := device_num h + 1\<rparr>)) = Inr h' \<and>
              hal_wf P h' \<and> devices h' = devices h @ [d] \<and> hal_same_module h h'"
proof -
  let ?n = "unat (device_num h)"
  let ?h' = "h\<lparr>device_list := (device_list h)[?n := d], device_num := device_num h + 1\<rparr>"
  have n: "unat (device_num h + 1) = Suc ?n"
    using room by (simp add: MAX_DEVICE_NUM_def unat_word_ariths)
  have len: "?n < length (device_list h)" using wf room by (simp add: hal_wf_def)
  have ds: "devices ?h' = devices h @ [d]"
    using len by (simp add: devices_def n take_Suc_conv_app_nth)
  then have "hal_wf P ?h'"
    using wf dev room tp n unfolding hal_wf_def by (simp add: list_all_append)
  with len ds show ?thesis by (simp add: set_device_def hal_same_module_def)
qed

lemma remove_device:
  assumes wf: "hal_wf P h" and i: "i < unat (device_num h)"
  shows "\<exists>h'. remove_device_by_idx i h = Inr h' \<and> hal_wf P h' \<and> hal_same_module h h' \<and>
              devices h' = take i (devices h) @ drop (Suc i) (devices h)"
proof -
  have pre: "length (device_list h) = MAX_DEVICE_NUM" "unat (device_num h) \<le> MAX_DEVICE_NUM"
    using wf by (simp_all add: hal_wf_def)
  from remove_device_by_idx_eq [OF pre i] obtain xs where
    r: "remove_device_by_idx i h = Inr (h\<lparr>device_num := device_num h - 1, device_list := xs\<rparr>)"
    and len: "length xs = MAX_DEVICE_NUM"
    and xs: "take (unat (device_num h) - 1) xs = take i (devices h) @ drop (Suc i) (devices h)"
    by blast
  let ?h' = "h\<lparr>device_num := device_num h - 1, device_list := xs\<rparr>"
  have n: "unat (device_num h - 1) = unat (device_num h) - 1"
    using i by (simp add: unat_minus_one unat_gt_0 [symmetric])
  have ds: "devices ?h' = take i (devices h) @ drop (Suc i) (devices h)"
    using xs by (simp add: devices_def n)
  have "list_all (\<lambda>d. device_type d = TV_INPUT_TYPE_TUNER P) (devices h)"
    using wf by (simp add: hal_wf_def)
  then have "list_all (\<lambda>d. device_type d = TV_INPUT_TYPE_TUNER P) (devices ?h')"
    unfolding ds by (auto simp: list_all_iff dest: in_set_takeD in_set_dropD)
  moreover have "hal_device h" using wf i by (rule hal_wf_device)
  ultimately have "hal_wf P ?h'"
    using pre(2) len by (simp add: hal_wf_def n)
  with r ds show ?thesis by (simp add: hal_same_module_def)
qed

lemma set_stream:
  assumes wf: "hal_wf P h" and i: "i < unat (device_num h)"
  shows "\<exists>h'. set_device i ((devices h ! i)\<lparr>acting_stream_id := s\<rparr>) h = Inr h' \<and> hal_wf P h' \<and>
              hal_same_module h h' \<and>
              devices h' = (devices h)[i := (devices h ! i)\<lparr>acting_stream_id := s\<rparr>]"
proof -
  let ?d = "(devices h ! i)\<lparr>acting_stream_id := s\<rparr>"
  let ?h' = "h\<lparr>device_list := (device_list h)[i := ?d]\<rparr>"
  have len: "i < length (device_list h)" using wf i by (simp add: hal_wf_def)
  have ds: "devices ?h' = (devices h)[i := ?d]"
    by (simp add: devices_def take_update_swap)
  have "list_all (\<lambda>d. device_type d = TV_INPUT_TYPE_TUNER P) (devices h)"
    using wf by (simp add: hal_wf_def)
  then have "list_all (\<lambda>d. device_type d = TV_INPUT_TYPE_TUNER P) (devices ?h')"
    unfolding ds using devices_type [OF wf i] wf i
    by (auto simp: list_all_length nth_list_update)
  moreover have "hal_device h" using wf i by (rule hal_wf_device)
  ultimately have "hal_wf P ?h'"
    using wf by (simp add: hal_wf_def)
  with len ds show ?thesis by (simp add: set_device_def hal_same_module_def)
qed

lemma close_stream_open:
  "hal_device h \<Longrightarrow> device_close_stream P h dev s e = Inr (ext_call (close_stream P dev s) e)"
  by (simp add: device_close_stream_def)

definition notify_refined :: "'w platform \<Rightarrow> tv_event \<Rightarrow> hal_state \<Rightarrow> 'w env \<Rightarrow> bool" where
  "notify_refined P event h e \<longleftrightarrow>
     (\<exists>h'. device_init_notify P event h e =
             Inr (h', close_all P (notify_closes P event (devices h)) e) \<and>
           hal_wf P h' \<and> hal_same_module h h' \<and>
           devices h' = notify_devices P event (devices h))"

named_theorems event_simps \<open>the definitions one event case unfolds\<close>

lemmas [event_simps] =
  device_init_notify_def notify_devices_def notify_closes_def close_all_def tuner_event_def
  hal_same_module_def find_takeWhile remove_first_split update_first_split

lemma notify_refined_ignored:
  "hal_wf P h \<Longrightarrow> \<not> tuner_event P event \<or> ev_type event = TV_INPUT_EVENT_OTHER \<Longrightarrow>
     notify_refined P event h e"
  by (cases "ev_type event") (auto simp: notify_refined_def event_simps)

lemma notify_refined_available:
  assumes wf: "hal_wf P h" and dev: "hal_device h" and tp: "tuner_event P event"
    and ev: "ev_type event = TV_INPUT_EVENT_DEVICE_AVAILABLE"
  shows "notify_refined P event h e"
proof (cases "MAX_DEVICE_NUM \<le> unat (device_num h)")
  case True
  then show ?thesis using ev wf by (simp add: notify_refined_def event_simps)
next
  case False
  let ?d = "\<lparr>device_id = ev_device_id event, device_type = ev_device_type event,
              acting_stream_id = -1\<rparr>"
  from False wf dev tp obtain h' where
    run: "andThen (set_device (unat (device_num h)) ?d h)
            (\<lambda>h. Inr (h\<lparr>device_num := device_num h + 1\<rparr>)) = Inr h'"
    and h': "hal_wf P h'" "hal_same_module h h'" "devices h' = devices h @ [?d]"
    using add_device [of P h ?d] by (auto simp: tuner_event_def)
  from run have "device_init_notify P event h e = Inr (h', e)"
    using ev tp False by (auto simp: device_init_notify_def tuner_event_def res_simps)
  then show ?thesis
    using ev tp False h' wf
    by (simp add: notify_refined_def notify_devices_def notify_closes_def close_all_def)
qed

lemma notify_refined_unknown:
  assumes "hal_wf P h" "tuner_event P event"
    and "ev_type event = TV_INPUT_EVENT_DEVICE_UNAVAILABLE \<or>
         ev_type event = TV_INPUT_EVENT_STREAM_CONFIGURATIONS_CHANGED"
    and "length (takeWhile (other_id (ev_device_id event)) (devices h)) = length (devices h)"
  shows "notify_refined P event h e"
  using assms find_device_eq [OF assms(1), of "ev_device_id event"]
  by (auto simp: notify_refined_def event_simps Let_def)

text \<open>The two events about a known device: where it is, and the call that closes its stream.\<close>

lemma known_device:
  assumes wf: "hal_wf P h"
    and hit: "length (takeWhile (other_id dev) (devices h)) < length (devices h)"
  defines "i \<equiv> length (takeWhile (other_id dev) (devices h))"
  shows "find_device h dev = Inr i" "i < unat (device_num h)" "device_id (devices h ! i) = dev"
  using wf hit find_device_eq [OF wf] takeWhile_hit [OF hit] by (simp_all add: i_def)

lemma notify_refined_unavailable:
  assumes wf: "hal_wf P h" and dev: "hal_device h" and tp: "tuner_event P event"
    and ev: "ev_type event = TV_INPUT_EVENT_DEVICE_UNAVAILABLE"
    and hit: "length (takeWhile (other_id (ev_device_id event)) (devices h)) < length (devices h)"
  shows "notify_refined P event h e"
proof -
  define i where "i = length (takeWhile (other_id (ev_device_id event)) (devices h))"
  note i = known_device [OF wf hit, folded i_def]
  from remove_device [OF wf i(2)] obtain h' where h': "remove_device_by_idx i h = Inr h'"
    "hal_wf P h'" "hal_same_module h h'" "devices h' = take i (devices h) @ drop (Suc i) (devices h)"
    by blast
  have "device_init_notify P event h e =
      Inr (h', snd (ext_call (close_stream P (ev_device_id event)
             (acting_stream_id (devices h ! i))) e))"
    using ev tp i wf dev h'(1)
    by (simp add: device_init_notify_def tuner_event_def close_stream_open split: prod.splits)
  then show ?thesis
    using ev tp i wf h'
    by (simp add: notify_refined_def notify_devices_def notify_closes_def close_all_def
        find_takeWhile remove_first_split Let_def i_def [symmetric])
qed

lemma notify_refined_changed:
  assumes wf: "hal_wf P h" and dev: "hal_device h" and tp: "tuner_event P event"
    and ev: "ev_type event = TV_INPUT_EVENT_STREAM_CONFIGURATIONS_CHANGED"
    and hit: "length (takeWhile (other_id (ev_device_id event)) (devices h)) < length (devices h)"
  shows "notify_refined P event h e"
proof -
  define i where "i = length (takeWhile (other_id (ev_device_id event)) (devices h))"
  note i = known_device [OF wf hit, folded i_def]
  let ?d = "(devices h ! i)\<lparr>acting_stream_id := -1\<rparr>"
  from set_stream [OF wf i(2)] obtain h' where h': "set_device i ?d h = Inr h'"
    "hal_wf P h'" "hal_same_module h h'" "devices h' = (devices h)[i := ?d]"
    by blast
  have "device_init_notify P event h e =
      Inr (h', snd (ext_call (close_stream P (ev_device_id event)
             (acting_stream_id (devices h ! i))) e))"
    using ev tp i wf dev h'(1)
    by (simp add: device_init_notify_def tuner_event_def close_stream_open split: prod.splits)
  then show ?thesis
    using ev tp i wf h'
    by (simp add: notify_refined_def notify_devices_def notify_closes_def close_all_def
        find_takeWhile update_first_split Let_def i_def [symmetric])
qed

lemma notify_refines:
  assumes wf: "hal_wf P h" and dev: "hal_device h"
  shows "notify_refined P event h e"
proof -
  consider
      "\<not> tuner_event P event \<or> ev_type event = TV_INPUT_EVENT_OTHER"
    | "tuner_event P event" "ev_type event = TV_INPUT_EVENT_DEVICE_AVAILABLE"
    | "tuner_event P event" "ev_type event = TV_INPUT_EVENT_DEVICE_UNAVAILABLE"
    | "tuner_event P event" "ev_type event = TV_INPUT_EVENT_STREAM_CONFIGURATIONS_CHANGED"
    by (cases "ev_type event") auto
  moreover have "length (takeWhile (other_id (ev_device_id event)) (devices h)) <
      length (devices h) \<or>
    length (takeWhile (other_id (ev_device_id event)) (devices h)) = length (devices h)"
    using length_takeWhile_le [of "other_id (ev_device_id event)" "devices h"] by linarith
  ultimately show ?thesis
    using wf dev
    by cases (metis notify_refined_ignored notify_refined_available notify_refined_unavailable
        notify_refined_changed notify_refined_unknown)+
qed

section \<open>Runs of events, initialisation\<close>

definition hal_ready :: "'w platform \<Rightarrow> hal_state \<times> 'w env \<Rightarrow> bool" where
  "hal_ready P = (\<lambda>(h, e). hal_wf P h \<and> hal_device h)"

lemma notify_step_ready:
  assumes "hal_ready P s"
  shows "\<exists>s'. notify_step P event s = Inr s' \<and> hal_ready P s'"
  using assms notify_refines [of P "fst s" event "snd s"]
  by (auto simp: hal_ready_def notify_step_def notify_refined_def hal_same_module_def
      split: prod.splits)

interpretation hal_events: invariant_steps "notify_step P" "hal_ready P" "\<lambda>_. True" for P
  by unfold_locales (rule notify_step_ready)

text \<open>
  A run of events acts on the list as the specification of the events, one after the other, and closes
  the streams that they name.
\<close>

fun run_closes :: "'w platform \<Rightarrow> tv_event list \<Rightarrow> device_info list \<Rightarrow> (i32 \<times> i32) list" where
  "run_closes P [] ds = []"
| "run_closes P (ev # evs) ds = notify_closes P ev ds @ run_closes P evs (notify_devices P ev ds)"

lemma close_all_append: "close_all P (xs @ ys) e = close_all P ys (close_all P xs e)"
  by (simp add: close_all_def)

lemma run_notify_devices:
  assumes "hal_wf P h" "hal_device h" "run_steps (notify_step P) events (h, e) = Inr (h', e')"
  shows "hal_wf P h' \<and> hal_device h' \<and> devices h' = fold (notify_devices P) events (devices h) \<and>
    e' = close_all P (run_closes P events (devices h)) e"
  using assms
proof (induction events arbitrary: h e)
  case Nil
  then show ?case by (simp add: close_all_def)
next
  case (Cons event events)
  from notify_refines [OF Cons.prems(1,2), of event e] obtain h1 where
    "device_init_notify P event h e = Inr (h1, close_all P (notify_closes P event (devices h)) e)"
    "hal_wf P h1" "hal_device h1" "devices h1 = notify_devices P event (devices h)"
    using Cons.prems(2) by (auto simp: notify_refined_def hal_same_module_def)
  with Cons.IH [of h1] Cons.prems(3) show ?case by (simp add: notify_step_def close_all_append)
qed

text \<open>
  Initialisation never faults. It fails exactly when the module cannot be loaded or opened; the
  result of \<open>initialize\<close> plays no part.
\<close>

lemma hal_wf_empty:
  "length (device_list h) = MAX_DEVICE_NUM \<Longrightarrow> hal_wf P (h\<lparr>device_num := 0\<rparr>)"
  by (simp add: hal_wf_def devices_def)

lemma tv_input_hal_init_eq:
  assumes len: "length (device_list h) = MAX_DEVICE_NUM"
    and load: "ext_call (hw_get_module P) e = (err1, e1)"
    and open_dev: "ext_call (hw_module_open P) e1 = (err2, e2)"
    and init: "ext_call (hw_initialize P) e2 = ((err3, events), e3)"
  shows "\<exists>h' e'.
      tv_input_hal_init P h e =
        Inr (if err1 = 0 \<and> err2 = 0 then TV_STATUS_SUCCESS else TV_STATUS_FAIL, h', e') \<and>
      hal_wf P h' \<and> hal_device h' = (err1 = 0 \<and> err2 = 0) \<and>
      devices h' = (if err1 = 0 \<and> err2 = 0 then fold (notify_devices P) events [] else [])"
proof -
  let ?h = "h\<lparr>device_num := 0, hal_module := True, hal_device := True\<rparr>"
  have h: "hal_wf P ?h" "hal_device ?h" "devices ?h = []"
    using len by (simp_all add: hal_wf_def devices_def)
  then obtain h' e' where run: "run_steps (notify_step P) events (?h, e3) = Inr (h', e')"
    using hal_events.run_keeps [of P "(?h, e3)" events] by (auto simp: hal_ready_def list_all_iff)
  have h': "hal_wf P h'" "hal_device h'" "devices h' = fold (notify_devices P) events []"
    using run_notify_devices [OF h(1,2) run] h(3) by simp_all
  show ?thesis
  proof (cases "err1 = 0 \<and> err2 = 0")
    case True
    with h' load open_dev init run show ?thesis by (simp add: tv_input_hal_init_def Let_def)
  next
    case False
    with len load open_dev show ?thesis
      by (auto simp: tv_input_hal_init_def Let_def hal_wf_def devices_def)
  qed
qed

lemma tv_input_hal_init_total:
  assumes "length (device_list h) = MAX_DEVICE_NUM"
  shows "\<exists>st h' e'. tv_input_hal_init P h e = Inr (st, h', e') \<and> hal_wf P h' \<and>
           (st = TV_STATUS_SUCCESS \<longleftrightarrow> hal_device h') \<and> (st \<noteq> TV_STATUS_SUCCESS \<longrightarrow> devices h' = [])"
proof -
  obtain err1 e1 where 1: "ext_call (hw_get_module P) e = (err1, e1)" by (meson surj_pair)
  obtain err2 e2 where 2: "ext_call (hw_module_open P) e1 = (err2, e2)" by (meson surj_pair)
  obtain err3 events e3 where 3: "ext_call (hw_initialize P) e2 = ((err3, events), e3)"
    by (metis surj_pair)
  from tv_input_hal_init_eq [OF assms 1 2 3] show ?thesis
    by (cases "err1 = 0 \<and> err2 = 0") (auto simp: tv_status_defs)
qed

text \<open>Uninitialising closes the active stream of every device, in order, and nothing else.\<close>

definition active_streams :: "hal_state \<Rightarrow> (i32 \<times> i32) list" where
  "active_streams h =
     map (\<lambda>d. (device_id d, acting_stream_id d)) (filter (\<lambda>d. acting_stream_id d \<noteq> -1) (devices h))"

lemma tv_input_hal_uninit_eq:
  assumes wf: "hal_wf P h"
  shows "tv_input_hal_uninit P h e = Inr (TV_STATUS_SUCCESS, close_all P (active_streams h) e)"
proof -
  let ?act = "\<lambda>k. map (\<lambda>d. (device_id d, acting_stream_id d))
                  (filter (\<lambda>d. acting_stream_id d \<noteq> -1) (take k (devices h)))"
  let ?body = "\<lambda>idx e. andThen (get_device h idx) (\<lambda>d.
           if acting_stream_id d \<noteq> -1
           then andThen (device_close_stream P h (device_id d) (acting_stream_id d) e)
                  (\<lambda>(_, e). Inr e)
           else Inr e)"
  let ?n = "unat (device_num h)"
  have "\<exists>t. for_loop ?body 0 ?n e = Inr t \<and> t = close_all P (?act (0 + ?n)) e"
  proof (rule for_loop_total)
    show "e = close_all P (?act 0) e" by (simp add: close_all_def)
  next
    fix k t
    assume k: "0 \<le> k" "k < 0 + ?n" and t: "t = close_all P (?act k) e"
    have "take (Suc k) (devices h) = take k (devices h) @ [devices h ! k]"
      using k wf by (intro take_Suc_conv_app_nth) simp
    moreover have "hal_device h" using wf k(2) by (intro hal_wf_device) simp_all
    ultimately show "\<exists>t'. ?body k t = Inr t' \<and> t' = close_all P (?act (Suc k)) e"
      using wf k t by (auto simp: close_stream_open close_all_append close_all_def split: prod.splits)
  qed
  then show ?thesis
    using wf by (simp add: tv_input_hal_uninit_def active_streams_def)
qed

section \<open>The queries agree\<close>

text \<open>
  What the callers of \<open>tv_input_hal_get_input_num_by_type\<close> and
  \<open>tv_input_hal_get_inputs_by_type\<close> rely on: the second fills an array of the length the first
  announces, exactly, with the ids the provider has.
\<close>

locale input_listing =
  fixes wf :: "'s \<Rightarrow> bool"
    and ids :: "'s \<Rightarrow> i32 list"
    and get_num :: "'s \<Rightarrow> u32 res"
    and get_inputs :: "'s \<Rightarrow> nat set \<Rightarrow> u8 \<Rightarrow> i32 list ptr \<Rightarrow> (u8 \<times> i32 list ptr) res"
  assumes few: "wf s \<Longrightarrow> length (ids s) \<le> MAX_DEVICE_NUM"
    and num: "wf s \<Longrightarrow> get_num s = Inr (of_nat (length (ids s)))"
    and inputs: "wf s \<Longrightarrow> a \<in> lv \<Longrightarrow> length xs = length (ids s) \<Longrightarrow>
      get_inputs s lv n (Ptr a xs) = Inr (TV_STATUS_SUCCESS, Ptr a (ids s))"
begin

lemma announced: "wf s \<Longrightarrow> get_num s = Inr n \<Longrightarrow> unat n = length (ids s) \<and> unat n \<le> MAX_DEVICE_NUM"
  using few [of s] num [of s] by (auto simp: unat_of_nat MAX_DEVICE_NUM_def)

lemma filled:
  "wf s \<Longrightarrow> get_num s = Inr n \<Longrightarrow> a \<in> lv \<Longrightarrow>
     get_inputs s lv k (Ptr a (replicate (unat n) x)) = Inr (TV_STATUS_SUCCESS, Ptr a (ids s))"
  using announced [of s n] by (intro inputs) simp_all

end

definition ids_of_type :: "i32 \<Rightarrow> hal_state \<Rightarrow> i32 list" where
  "ids_of_type tp h = map device_id (filter (\<lambda>d. device_type d = tp) (devices h))"

lemma length_ids_of_type: "hal_wf P h \<Longrightarrow> length (ids_of_type tp h) \<le> MAX_DEVICE_NUM"
  using length_filter_le [of "\<lambda>d. device_type d = tp" "devices h"]
  by (simp add: ids_of_type_def) (simp add: hal_wf_def)

text \<open>On a well-formed table every device is a tuner.\<close>

lemma ids_of_tuners:
  "hal_wf P h \<Longrightarrow> ids_of_type (TV_INPUT_TYPE_TUNER P) h = map device_id (devices h)"
  by (simp add: ids_of_type_def hal_wf_def list_all_iff)

lemma get_input_num_eq:
  assumes wf: "hal_wf P h"
  shows "tv_input_hal_get_input_num_by_type h tp = Inr (of_nat (length (ids_of_type tp h)))"
proof -
  let ?hits = "\<lambda>k. filter (\<lambda>d. device_type d = tp) (take k (devices h))"
  let ?n = "unat (device_num h)"
  have "\<exists>t. for_loop (\<lambda>idx sum. andThen (get_device h idx) (\<lambda>d.
         Inr (if device_type d = tp then sum + 1 else sum))) 0 ?n 0 = Inr t \<and>
       t = (of_nat (length (?hits (0 + ?n))) :: u32)"
  proof (rule for_loop_total)
    fix k t
    assume "0 \<le> k" "k < 0 + ?n" "t = (of_nat (length (?hits k)) :: u32)"
    then show "\<exists>t'. andThen (get_device h k) (\<lambda>d. Inr (if device_type d = tp then t + 1 else t)) =
        Inr t' \<and> t' = of_nat (length (?hits (Suc k)))"
      using wf by (simp add: take_Suc_conv_app_nth add.commute)
  qed simp
  then show ?thesis
    using wf by (simp add: tv_input_hal_get_input_num_by_type_def ids_of_type_def)
qed

lemma drop_update_0: "n < length xs \<Longrightarrow> (drop n xs)[0 := v] = v # drop (Suc n) xs"
  by (simp add: Cons_nth_drop_Suc [symmetric])

lemma get_inputs_eq:
  assumes wf: "hal_wf P h" and a: "a \<in> lv" and len: "length (ids_of_type tp h) \<le> length xs"
  shows "tv_input_hal_get_inputs_by_type h lv input_num tp (Ptr a xs) =
           Inr (TV_STATUS_SUCCESS,
                Ptr a (ids_of_type tp h @ drop (length (ids_of_type tp h)) xs))"
proof -
  let ?ids = "\<lambda>k. map device_id (filter (\<lambda>d. device_type d = tp) (take k (devices h)))"
  let ?n = "unat (device_num h)"
  define I where "I k t \<longleftrightarrow> t = (Ptr a (?ids k @ drop (length (?ids k)) xs), length (?ids k))"
    for k and t :: "i32 list ptr \<times> nat"
  have "\<exists>t. for_loop (\<lambda>idx (arr, device_cnt). andThen (get_device h idx) (\<lambda>d.
           if device_type d = tp
           then andThen (store_at lv arr device_cnt (device_id d))
                  (\<lambda>arr. Inr (arr, device_cnt + 1))
           else Inr (arr, device_cnt))) 0 ?n (Ptr a xs, 0) = Inr t \<and> I (0 + ?n) t"
  proof (rule for_loop_total)
    fix k t
    assume k: "0 \<le> k" "k < 0 + ?n" and "I k t"
    then have t: "t = (Ptr a (?ids k @ drop (length (?ids k)) xs), length (?ids k))"
      by (simp add: I_def)
    have next_k: "take (Suc k) (devices h) = take k (devices h) @ [devices h ! k]"
      using k wf by (intro take_Suc_conv_app_nth) simp
    have "devices h = take (Suc k) (devices h) @ drop (Suc k) (devices h)" by simp
    then have "length (ids_of_type tp h) \<ge> length (?ids (Suc k))"
      unfolding ids_of_type_def by (metis filter_append length_append length_map le_add1)
    with len have room: "device_type (devices h ! k) = tp \<Longrightarrow> length (?ids k) < length xs"
      by (simp add: next_k)
    show "\<exists>t'. (case t of (arr, device_cnt) \<Rightarrow> andThen (get_device h k) (\<lambda>d.
           if device_type d = tp
           then andThen (store_at lv arr device_cnt (device_id d))
                  (\<lambda>arr. Inr (arr, device_cnt + 1))
           else Inr (arr, device_cnt))) = Inr t' \<and> I (Suc k) t'"
      using wf k a room
      by (auto simp: t I_def next_k list_update_append drop_update_0)
  qed (simp add: I_def)
  then show ?thesis
    using wf by (auto simp: tv_input_hal_get_inputs_by_type_def ids_of_type_def I_def)
qed

interpretation tuner_inputs: input_listing "hal_wf P" "ids_of_type tp"
  "\<lambda>h. tv_input_hal_get_input_num_by_type h tp"
  "\<lambda>h lv n. tv_input_hal_get_inputs_by_type h lv n tp" for P tp
proof unfold_locales
  show "hal_wf P h \<Longrightarrow> length (ids_of_type tp h) \<le> MAX_DEVICE_NUM" for h
    by (rule length_ids_of_type)
  show "hal_wf P h \<Longrightarrow> tv_input_hal_get_input_num_by_type h tp =
      Inr (of_nat (length (ids_of_type tp h)))" for h
    by (rule get_input_num_eq)
  show "hal_wf P h \<Longrightarrow> a \<in> lv \<Longrightarrow> length xs = length (ids_of_type tp h) \<Longrightarrow>
      tv_input_hal_get_inputs_by_type h lv n tp (Ptr a xs) =
        Inr (TV_STATUS_SUCCESS, Ptr a (ids_of_type tp h))" for h a lv xs n
    using get_inputs_eq [of P h a lv tp xs n] by simp
qed

section \<open>Choosing and opening a stream\<close>

text \<open>
  \<open>tv_input_hal_get_stream\<close> does not fault as long as the device is known or the table has a
  spare entry, and it keeps the table well-formed and its ids.
\<close>

definition known_or_spare :: "hal_state \<Rightarrow> i32 \<Rightarrow> bool" where
  "known_or_spare h dev \<longleftrightarrow>
     unat (device_num h) < MAX_DEVICE_NUM \<or> dev \<in> set (map device_id (devices h))"

lemma found_index:
  assumes wf: "hal_wf P h"
  shows "\<exists>i. find_device h dev = Inr i \<and> i \<le> unat (device_num h) \<and>
           (i < unat (device_num h) \<longrightarrow> device_id (devices h ! i) = dev) \<and>
           (i = unat (device_num h) \<longleftrightarrow> dev \<notin> set (map device_id (devices h)))"
proof -
  let ?i = "length (takeWhile (other_id dev) (devices h))"
  have "?i \<le> length (devices h)" by (rule length_takeWhile_le)
  moreover have "?i = length (devices h) \<longleftrightarrow> takeWhile (other_id dev) (devices h) = devices h"
    by (metis length_takeWhile_le takeWhile_eq_take take_all_iff order_refl)
  moreover have "takeWhile (other_id dev) (devices h) = devices h \<longleftrightarrow>
      dev \<notin> set (map device_id (devices h))"
    by (auto simp: takeWhile_eq_all_conv)
  ultimately show ?thesis
    using find_device_eq [OF wf, of dev] takeWhile_hit [of dev "devices h"] wf
    by (intro exI [of _ ?i]) auto
qed

lemma retire_stream_total:
  assumes wf: "hal_wf P h"
  shows "\<exists>early e'. retire_stream P h i strm e = Inr (early, e')"
proof (cases "i < unat (device_num h)")
  case True
  then have "hal_device h" using wf by (intro hal_wf_device)
  then show ?thesis
    using wf True by (auto simp: retire_stream_def close_stream_open split: prod.splits)
next
  case False
  then show ?thesis by (simp add: retire_stream_def)
qed

lemma set_stream_any:
  assumes wf: "hal_wf P h" and dev: "hal_device h" and i: "i \<le> unat (device_num h)"
    and room: "i < MAX_DEVICE_NUM"
  shows "\<exists>d h'. get_device h i = Inr d \<and> set_device i (d\<lparr>acting_stream_id := s\<rparr>) h = Inr h' \<and>
           hal_wf P h' \<and> hal_same_module h h' \<and>
           devices h' = (if i < unat (device_num h)
             then (devices h)[i := (devices h ! i)\<lparr>acting_stream_id := s\<rparr>] else devices h)"
proof (cases "i < unat (device_num h)")
  case True
  then show ?thesis using set_stream [OF wf True, of s] wf by auto
next
  case False
  with i have "i = unat (device_num h)" by simp
  with wf dev room show ?thesis
    by (auto simp: get_device_def set_device_def hal_wf_def devices_def hal_same_module_def)
qed

lemma map_id_update:
  "i < length ds \<Longrightarrow> map device_id (ds[i := (ds ! i)\<lparr>acting_stream_id := s\<rparr>]) = map device_id ds"
  by (simp add: map_update list_update_same_conv)

lemma tv_input_hal_get_stream_total:
  assumes wf: "hal_wf P h" and dev: "hal_device h" and room: "known_or_spare h dv"
  shows "\<exists>st strm' h' e'. tv_input_hal_get_stream P dv strm h e = Inr (st, strm', h', e') \<and>
           hal_wf P h' \<and> hal_same_module h h' \<and>
           map device_id (devices h') = map device_id (devices h)"
proof -
  obtain r configs e1 where cfg: "ext_call (get_stream_configurations P dv) e = ((r, configs), e1)"
    by (metis surj_pair)
  obtain i where i: "find_device h dv = Inr i" "i \<le> unat (device_num h)"
    "i = unat (device_num h) \<longleftrightarrow> dv \<notin> set (map device_id (devices h))"
    using found_index [OF wf] by blast
  have max: "i < MAX_DEVICE_NUM"
    using i room wf by (auto simp: known_or_spare_def hal_wf_def)
  show ?thesis
  proof (cases "r = 0 \<and> (\<exists>c. List.find (\<lambda>c. sc_type c = TV_STREAM_TYPE_INDEPENDENT_VIDEO_SOURCE P)
                configs = Some c)")
    case False
    then show ?thesis
      using wf dev cfg by (auto simp: tv_input_hal_get_stream_def hal_same_module_def)
  next
    case True
    then obtain c where c: "List.find (\<lambda>c. sc_type c = TV_STREAM_TYPE_INDEPENDENT_VIDEO_SOURCE P)
        configs = Some c" by blast
    obtain early e2 where ret: "retire_stream P h i (select_config P c strm) e1 = Inr (early, e2)"
      using retire_stream_total [OF wf] by blast
    obtain r2 strm2 e3 where op: "ext_call (open_stream P dv (select_config P c strm)) e2 =
        ((r2, strm2), e3)" by (metis surj_pair)
    obtain d h' where h': "get_device h i = Inr d"
      "set_device i (d\<lparr>acting_stream_id := ts_stream_id strm2\<rparr>) h = Inr h'" "hal_wf P h'"
      "hal_same_module h h'" "map device_id (devices h') = map device_id (devices h)"
      using set_stream_any [OF wf dev i(2) max, of "ts_stream_id strm2"] wf
      by (auto simp: map_id_update split: if_splits)
    show ?thesis
      using True wf dev cfg c i(1) ret op h'
      by (cases early; cases "r2 = 0") (auto simp: tv_input_hal_get_stream_def Let_def hal_same_module_def)
  qed
qed

text \<open>The stream that is already active is reported again without the HAL being asked for it.\<close>

lemma get_stream_again:
  assumes wf: "hal_wf P h" and dev: "hal_device h"
    and cfg: "ext_call (get_stream_configurations P dv) e = ((0, configs), e1)"
    and c: "List.find (\<lambda>c. sc_type c = TV_STREAM_TYPE_INDEPENDENT_VIDEO_SOURCE P) configs = Some c"
    and i: "find_device h dv = Inr i" "i < unat (device_num h)"
    and active: "acting_stream_id (devices h ! i) = sc_stream_id c" "sc_stream_id c \<noteq> -1"
  shows "tv_input_hal_get_stream P dv strm h e =
           Inr (TV_STATUS_SUCCESS, select_config P c strm, h, e1)"
proof -
  have "ts_stream_id (select_config P c strm) = sc_stream_id c"
    by (simp add: select_config_def Let_def)
  then have "retire_stream P h i (select_config P c strm) e1 = Inr (Some TV_STATUS_SUCCESS, e1)"
    using wf i(2) active by (simp add: retire_stream_def)
  then show ?thesis
    using dev cfg c i(1) by (simp add: tv_input_hal_get_stream_def Let_def)
qed

lemma select_config_handle [simp]: "ts_handle (select_config P c strm) = ts_handle strm"
  by (simp add: select_config_def Let_def)

text \<open>With a full table, a stream opened on an unknown device is recorded past its end.\<close>

lemma get_stream_full_table:
  assumes wf: "hal_wf P h" and dev: "hal_device h"
    and full: "unat (device_num h) = MAX_DEVICE_NUM" "dv \<notin> set (map device_id (devices h))"
    and cfg: "ext_call (get_stream_configurations P dv) e = ((0, configs), e1)"
    and c: "List.find (\<lambda>c. sc_type c = TV_STREAM_TYPE_INDEPENDENT_VIDEO_SOURCE P) configs = Some c"
    and op: "ext_call (open_stream P dv (select_config P c strm)) e1 = ((0, strm2), e2)"
  shows "tv_input_hal_get_stream P dv strm h e = Inl Out_of_bounds"
proof -
  have i: "find_device h dv = Inr MAX_DEVICE_NUM"
    using found_index [OF wf, of dv] full by auto
  have "retire_stream P h MAX_DEVICE_NUM (select_config P c strm) e1 = Inr (None, e1)"
    using full by (simp add: retire_stream_def)
  moreover have "get_device h MAX_DEVICE_NUM = Inl Out_of_bounds"
    using wf by (simp add: get_device_def hal_wf_def)
  ultimately show ?thesis
    using dev cfg c op i by (simp add: tv_input_hal_get_stream_def Let_def)
qed

text \<open>If the old stream is closed but the new one cannot be opened, the table keeps the old one.\<close>

lemma get_stream_stale:
  assumes wf: "hal_wf P h" and dev: "hal_device h"
    and cfg: "ext_call (get_stream_configurations P dv) e = ((0, configs), e1)"
    and c: "List.find (\<lambda>c. sc_type c = TV_STREAM_TYPE_INDEPENDENT_VIDEO_SOURCE P) configs = Some c"
    and i: "find_device h dv = Inr i" "i < unat (device_num h)" "device_id (devices h ! i) = dv"
    and active: "acting_stream_id (devices h ! i) \<noteq> sc_stream_id c"
      "acting_stream_id (devices h ! i) \<noteq> -1"
    and cl: "ext_call (close_stream P dv (acting_stream_id (devices h ! i))) e1 = (0, e2)"
    and op: "ext_call (open_stream P dv (select_config P c strm)) e2 = ((r, strm2), e3)" "r \<noteq> 0"
  shows "tv_input_hal_get_stream P dv strm h e = Inr (TV_STATUS_FAIL, strm2, h, e3)"
proof -
  have "ts_stream_id (select_config P c strm) = sc_stream_id c"
    by (simp add: select_config_def Let_def)
  then have "retire_stream P h i (select_config P c strm) e1 = Inr (None, e2)"
    using wf dev i active cl by (simp add: retire_stream_def close_stream_open)
  then show ?thesis
    using dev cfg c i(1) op by (simp add: tv_input_hal_get_stream_def Let_def)
qed

section \<open>Properties\<close>

text \<open>The states and platforms of the closed examples: one tuner, a full table, one video stream.\<close>

definition sample_device :: device_info where
  "sample_device = \<lparr>device_id = 7, device_type = 1, acting_stream_id = 5\<rparr>"

definition sample_hal :: hal_state where
  "sample_hal = \<lparr>hal_module = True, hal_device = True, device_num = 1,
     device_list = sample_device # replicate 99 \<lparr>device_id = 0, device_type = 0, acting_stream_id = 0\<rparr>\<rparr>"

definition full_hal :: hal_state where
  "full_hal = \<lparr>hal_module = True, hal_device = True, device_num = 100,
     device_list = replicate 100 sample_device\<rparr>"

definition sample_config :: stream_config where
  "sample_config = \<lparr>sc_stream_id = 9, sc_type = 1, sc_max_width = 0, sc_max_height = 0\<rparr>"

definition sample_stream :: tv_stream where
  "sample_stream = \<lparr>ts_type = 0, ts_stream_id = 0, ts_width = 0, ts_height = 0, ts_handle = Null\<rparr>"

definition stream_platform :: "int \<Rightarrow> unit platform" where
  "stream_platform r = sample_platform
     \<lparr>get_stream_configurations := \<lambda>_ w. ((0, [sample_config]), w),
      open_stream := \<lambda>_ s w. ((r, s), w), hw_initialize := \<lambda>w. ((-1,
        [\<lparr>ev_type = TV_INPUT_EVENT_DEVICE_AVAILABLE, ev_device_id = 3, ev_device_type = 1\<rparr>]), w)\<rparr>"

lemma sample_devices [simp]: "devices sample_hal = [sample_device]"
  "devices full_hal = replicate 100 sample_device"
  by (simp_all add: devices_def sample_hal_def full_hal_def)

lemma stream_platform_fields [simp]:
  "get_stream_configurations (stream_platform r) dv w = ((0, [sample_config]), w)"
  "open_stream (stream_platform r) dv s w = ((r, s), w)"
  "close_stream (stream_platform r) dv st w = (0, w)"
  "hw_get_module (stream_platform r) w = (0, w)" "hw_module_open (stream_platform r) w = (0, w)"
  "hw_initialize (stream_platform r) w = ((-1,
     [\<lparr>ev_type = TV_INPUT_EVENT_DEVICE_AVAILABLE, ev_device_id = 3, ev_device_type = 1\<rparr>]), w)"
  "TV_INPUT_TYPE_TUNER (stream_platform r) = 1"
  "TV_STREAM_TYPE_INDEPENDENT_VIDEO_SOURCE (stream_platform r) = 1"
  by (simp_all add: stream_platform_def)

lemma sample_fields [simp]:
  "device_id sample_device = 7" "device_type sample_device = 1" "acting_stream_id sample_device = 5"
  "sc_type sample_config = 1" "sc_stream_id sample_config = 9"
  "device_num full_hal = 100" "device_num sample_hal = 1" "hal_device sample_hal" "hal_device full_hal"
  "length (device_list sample_hal) = 100"
  by (simp_all add: sample_device_def sample_config_def full_hal_def sample_hal_def)

lemma sample_hal_wf [simp]:
  "hal_wf sample_platform sample_hal" "hal_wf (stream_platform r) sample_hal"
  "hal_wf (stream_platform r) full_hal"
  by (simp_all add: hal_wf_def MAX_DEVICE_NUM_def list_all_length)
    (simp_all add: sample_hal_def full_hal_def sample_device_def)

text \<open>
  C13: Any sequence of HAL events runs without a fault from a well-formed table and keeps it well-formed. It leaves
  the list of devices that the specifications of the events, one after the other, give, and closes exactly
  the streams that they name, in this order.
\<close>

theorem hal_runs_refine:
  assumes "hal_wf P h" and "hal_device h"
  shows "\<exists>h'. run_steps (notify_step P) events (h, e) =
             Inr (h', close_all P (run_closes P events (devices h)) e) \<and>
           hal_wf P h' \<and> hal_device h' \<and> devices h' = fold (notify_devices P) events (devices h)"
proof -
  obtain h' e' where "run_steps (notify_step P) events (h, e) = Inr (h', e')"
    using hal_events.run_keeps [of P "(h, e)" events] assms
    by (auto simp: hal_ready_def list_all_iff)
  with run_notify_devices [OF assms this] show ?thesis by blast
qed

theorem hal_runs_refine_witness:
  "\<exists>h'. run_steps (notify_step sample_platform)
      [\<lparr>ev_type = TV_INPUT_EVENT_DEVICE_AVAILABLE, ev_device_id = 8, ev_device_type = 1\<rparr>,
       \<lparr>ev_type = TV_INPUT_EVENT_DEVICE_UNAVAILABLE, ev_device_id = 7, ev_device_type = 1\<rparr>]
      (sample_hal, sample_env) = Inr (h', close_all sample_platform [(7, 5)] sample_env) \<and>
     map device_id (devices h') = [8]"
  using hal_runs_refine [of sample_platform sample_hal
      "[\<lparr>ev_type = TV_INPUT_EVENT_DEVICE_AVAILABLE, ev_device_id = 8, ev_device_type = 1\<rparr>,
       \<lparr>ev_type = TV_INPUT_EVENT_DEVICE_UNAVAILABLE, ev_device_id = 7, ev_device_type = 1\<rparr>]" sample_env]
  by (auto simp: notify_devices_def notify_closes_def tuner_event_def sample_device_def MAX_DEVICE_NUM_def)

text \<open>
  C33: \<open>tv_input_hal_init\<close> reports success exactly when the module could be loaded and opened, with
  the devices that were signalled during \<open>initialize\<close>; what \<open>initialize\<close> itself returned has no
  influence, although the source tests a result after the call.
\<close>

theorem hal_init_ignores_initialize:
  assumes "length (device_list h) = MAX_DEVICE_NUM"
    and "ext_call (hw_get_module P) e = (err1, e1)"
    and "ext_call (hw_module_open P) e1 = (err2, e2)"
    and "ext_call (hw_initialize P) e2 = ((err3, events), e3)"
  shows "\<exists>h' e'.
      tv_input_hal_init P h e =
        Inr (if err1 = 0 \<and> err2 = 0 then TV_STATUS_SUCCESS else TV_STATUS_FAIL, h', e') \<and>
      hal_wf P h' \<and>
      devices h' = (if err1 = 0 \<and> err2 = 0 then fold (notify_devices P) events [] else [])"
  using tv_input_hal_init_eq [OF assms] by blast

theorem hal_init_ignores_initialize_witness:
  "\<exists>h' e'. tv_input_hal_init (stream_platform 0) sample_hal sample_env = Inr (TV_STATUS_SUCCESS, h', e') \<and>
     map device_id (devices h') = [3]"
  using hal_init_ignores_initialize [of sample_hal "stream_platform 0" sample_env 0 sample_env 0 sample_env
      "-1" "[\<lparr>ev_type = TV_INPUT_EVENT_DEVICE_AVAILABLE, ev_device_id = 3, ev_device_type = 1\<rparr>]"
      sample_env]
  by (auto simp: MAX_DEVICE_NUM_def notify_devices_def tuner_event_def)

text \<open>
  C32: Opening a stream on a device that is known, or while the table has a spare entry, never
  faults, and it keeps the table well-formed with the same devices.
\<close>

theorem hal_get_stream_safe:
  assumes "hal_wf P h" and "hal_device h" and "known_or_spare h dv"
  shows "\<exists>st strm' h' e'. tv_input_hal_get_stream P dv strm h e = Inr (st, strm', h', e') \<and>
           hal_wf P h' \<and> map device_id (devices h') = map device_id (devices h)"
  using tv_input_hal_get_stream_total [OF assms] by blast

theorem hal_get_stream_safe_witness:
  "\<exists>st strm' h' e'. tv_input_hal_get_stream (stream_platform 0) 7 sample_stream sample_hal sample_env =
     Inr (st, strm', h', e') \<and> map device_id (devices h') = [7]"
  using hal_get_stream_safe [of "stream_platform 0" sample_hal 7 sample_stream sample_env]
  by (auto simp: known_or_spare_def sample_device_def)

text \<open>
  C40: With a full table, a stream that is opened on a device the table does not know is recorded
  in an entry behind the array.
\<close>

theorem hal_get_stream_overflow:
  assumes "hal_wf P h" and "hal_device h"
    and "unat (device_num h) = MAX_DEVICE_NUM" and "dv \<notin> set (map device_id (devices h))"
    and "ext_call (get_stream_configurations P dv) e = ((0, configs), e1)"
    and "List.find (\<lambda>c. sc_type c = TV_STREAM_TYPE_INDEPENDENT_VIDEO_SOURCE P) configs = Some c"
    and "ext_call (open_stream P dv (select_config P c strm)) e1 = ((0, strm2), e2)"
  shows "tv_input_hal_get_stream P dv strm h e = Inl Out_of_bounds"
  using assms by (rule get_stream_full_table)

theorem hal_get_stream_overflow_witness:
  "tv_input_hal_get_stream (stream_platform 0) 8 sample_stream full_hal sample_env = Inl Out_of_bounds"
  using hal_get_stream_overflow [of "stream_platform 0" full_hal 8 sample_env "[sample_config]" sample_env
      sample_config sample_stream "select_config (stream_platform 0) sample_config sample_stream" sample_env]
  by (simp add: MAX_DEVICE_NUM_def)

end
