(* ===== verification/Dtv.thy ===== *)
theory Dtv
  imports Tv_Hal
begin

text \<open>
  dtv.h and dtv.c: the functions the DTV service calls, as the record \<open>dtv_api\<close> of the
  interface dtv.h declares, and dtv.c's implementation of it over the device table of
  tv_hal.c. The lemmas are about the text form of tuner ids: what
  \<open>dtv_get_tuners\<close> writes for a device, and when \<open>dtv_set_source\<close> reads it back as the same
  device.
\<close>

section \<open>The interface\<close>

text \<open>
  The callbacks the vendor notifies the service with. Each field of \<open>struct dtv_callbacks\<close> is a null
  pointer or the one function dtv_io.c has of that type.
\<close>

datatype channel_update_fn = Channel_update_nfy_cb

datatype scan_status_fn = Scan_status_nfy_cb

datatype event_fn = Event_nfy_cb

record dtv_callbacks =
  channel_update_nfy :: "channel_update_fn option"
  scan_status_nfy :: "scan_status_fn option"
  event_nfy :: "event_fn option"

text \<open>The state of the implementation, \<open>'s\<close>, is passed to and returned by every call.\<close>

record 's dtv_api =
  api_init :: "dtv_callbacks \<Rightarrow> 's \<Rightarrow> (u8 \<times> 's) res"
  api_uninit :: "'s \<Rightarrow> (u8 \<times> 's) res"
  api_get_tuner_num :: "'s \<Rightarrow> (u32 \<times> 's) res"
  api_get_tuners :: "u32 \<Rightarrow> tv_tuner list ptr \<Rightarrow> 's \<Rightarrow> (u8 \<times> tv_tuner list ptr \<times> 's) res"
  api_set_source :: "string \<Rightarrow> u8 \<Rightarrow> tv_stream \<Rightarrow> 's \<Rightarrow> (u8 \<times> tv_stream \<times> 's) res"
  api_start_scanning :: "string \<Rightarrow> u8 \<Rightarrow> 's \<Rightarrow> (u8 \<times> 's) res"
  api_stop_scanning :: "string \<Rightarrow> u8 \<Rightarrow> 's \<Rightarrow> (u8 \<times> 's) res"
  api_cln_scanned_channel_cache :: "'s \<Rightarrow> (u8 \<times> 's) res"
  api_set_channel ::
    "string \<Rightarrow> u8 \<Rightarrow> string \<Rightarrow> tv_channel list ptr \<Rightarrow> 's \<Rightarrow> (u8 \<times> tv_channel list ptr \<times> 's) res"
  api_get_channel_num :: "string \<Rightarrow> u8 \<Rightarrow> 's \<Rightarrow> (u32 \<times> 's) res"
  api_get_channels ::
    "string \<Rightarrow> u8 \<Rightarrow> u32 \<Rightarrow> tv_channel list ptr \<Rightarrow> 's \<Rightarrow> (u8 \<times> tv_channel list ptr \<times> 's) res"
  api_get_prog_num :: "string \<Rightarrow> u8 \<Rightarrow> string \<Rightarrow> u64 \<Rightarrow> u64 \<Rightarrow> 's \<Rightarrow> (u32 \<times> 's) res"
  api_get_programs ::
    "string \<Rightarrow> u8 \<Rightarrow> string \<Rightarrow> u64 \<Rightarrow> u64 \<Rightarrow> u32 \<Rightarrow> tv_program list ptr \<Rightarrow> 's \<Rightarrow>
       (u8 \<times> tv_program list ptr \<times> 's) res"

type_synonym 'w drv = "hal_state \<times> 'w env"

section \<open>Tuner ids as text\<close>

text \<open>\<open>get_int_length\<close>, with its loop on 32-bit and 8-bit integers.\<close>

function get_int_length_loop :: "u32 \<Rightarrow> u8 \<Rightarrow> u8" where
  "get_int_length_loop target len =
     (if target > 10 then get_int_length_loop (target div 10) (len + 1) else len)"
  by pat_completeness auto
termination
proof (relation "measure (\<lambda>(target, len). unat target)")
  fix target :: u32 and len :: u8
  assume "target > 10"
  then have "unat target > 10" by (simp add: word_less_nat_alt)
  then show "((target div 10, len + 1), target, len) \<in> measure (\<lambda>(target, len). unat target)"
    by (simp add: unat_div)
qed simp

declare get_int_length_loop.simps [simp del]

definition get_int_length :: "u32 \<Rightarrow> u8" where
  "get_int_length target = get_int_length_loop target 1"

text \<open>\<open>printf\<close>'s \<open>%d\<close>, and \<open>snprintf\<close> into a buffer of \<open>n\<close> characters, terminator included.\<close>

definition digit_char :: "nat \<Rightarrow> char" where
  "digit_char d = char_of (48 + d)"

fun decimal_nat :: "nat \<Rightarrow> string" where
  "decimal_nat n =
     (if n < 10 then [digit_char n] else decimal_nat (n div 10) @ [digit_char (n mod 10)])"

declare decimal_nat.simps [simp del]

definition decimal :: "int \<Rightarrow> string" where
  "decimal i = (if i < 0 then CHR ''-'' # decimal_nat (nat (- i)) else decimal_nat (nat i))"

definition snprintf_int :: "nat \<Rightarrow> int \<Rightarrow> string" where
  "snprintf_int n i = take (n - 1) (decimal i)"

text \<open>The id \<open>dtv_get_tuners\<close> gives to a device.\<close>

definition tuner_id_text :: "i32 \<Rightarrow> string" where
  "tuner_id_text dev = snprintf_int (unat (get_int_length dev) + 1) (sint dev)"

text \<open>
  The conversion loop of \<open>dtv_set_source\<close>. The subtraction is done on \<open>int\<close>, from a character
  that is negative above 127 where \<open>char\<close> is signed, the rest on \<open>uint32_t\<close>.
\<close>

definition char_value :: "'w platform \<Rightarrow> char \<Rightarrow> int" where
  "char_value P c =
     (let n = of_char c in if char_is_signed P \<and> 128 \<le> n then n - 256 else n)"

fun parse_device_id :: "'w platform \<Rightarrow> u32 \<Rightarrow> string \<Rightarrow> u32" where
  "parse_device_id P acc [] = acc"
| "parse_device_id P acc (c # cs) =
     parse_device_id P (acc * 10 + word_of_int (char_value P c - char_value P CHR ''0'')) cs"

section \<open>dtv.c\<close>

definition dtv_init :: "dtv_callbacks \<Rightarrow> 's \<Rightarrow> (u8 \<times> 's) res" where
  "dtv_init callbacks s = Inr (TV_STATUS_SUCCESS, s)"

definition dtv_uninit :: "'s \<Rightarrow> (u8 \<times> 's) res" where
  "dtv_uninit s = Inr (TV_STATUS_SUCCESS, s)"

definition dtv_get_tuner_num :: "'w platform \<Rightarrow> 'w drv \<Rightarrow> (u32 \<times> 'w drv) res" where
  "dtv_get_tuner_num P = (\<lambda>(h, e).
     andThen (tv_input_hal_get_input_num_by_type h (TV_INPUT_TYPE_TUNER P))
       (\<lambda>n. Inr (n, (h, e))))"

text \<open>
  One iteration of the loop of \<open>dtv_get_tuners\<close>: \<open>tuners[idx].id\<close> is allocated and printed to,
  \<open>tuners[idx].num_types\<close> is cleared, and \<open>supported_types\<close> is left alone.
\<close>

definition dtv_get_tuner ::
  "'w platform \<Rightarrow> i32 list ptr \<Rightarrow> nat \<Rightarrow> tv_tuner list ptr \<times> 'w env \<Rightarrow>
     (tv_tuner list ptr \<times> 'w env) res" where
  "dtv_get_tuner P tuner_id_list idx = (\<lambda>(tuners, e).
     andThen (load_at (live e) tuner_id_list idx) (\<lambda>dev.
       let len = get_int_length dev;
           (str, e) = malloc P (unat len + 1) (tuner_id_text dev) e
       in andThen (load_at (live e) tuners idx) (\<lambda>t.
          andThen (load (live e) str) (\<lambda>_.
          andThen (store_at (live e) tuners idx (t\<lparr>t_id := str, num_types := 0\<rparr>)) (\<lambda>tuners.
            Inr (tuners, e))))))"

definition dtv_get_tuners ::
  "'w platform \<Rightarrow> u32 \<Rightarrow> tv_tuner list ptr \<Rightarrow> 'w drv \<Rightarrow> (u8 \<times> tv_tuner list ptr \<times> 'w drv) res" where
  "dtv_get_tuners P tuner_num tuners = (\<lambda>(h, e).
     let bytes = to_size P (4 * uint tuner_num);
         (tuner_id_list, e) = malloc P bytes (replicate (bytes div 4) (junk P)) e
     in andThen (tv_input_hal_get_inputs_by_type h (live e) (ucast tuner_num)
                   (TV_INPUT_TYPE_TUNER P) tuner_id_list) (\<lambda>(ret, tuner_id_list).
          if ret \<noteq> TV_STATUS_SUCCESS
          then andThen (free_ptr tuner_id_list e) (\<lambda>e. Inr (TV_STATUS_FAIL, tuners, (h, e)))
          else
            andThen (for_loop (dtv_get_tuner P tuner_id_list) 0 (unat tuner_num) (tuners, e))
              (\<lambda>(tuners, e). andThen (free_ptr tuner_id_list e) (\<lambda>e.
                 Inr (TV_STATUS_SUCCESS, tuners, (h, e))))))"

definition dtv_set_source ::
  "'w platform \<Rightarrow> string \<Rightarrow> u8 \<Rightarrow> tv_stream \<Rightarrow> 'w drv \<Rightarrow> (u8 \<times> tv_stream \<times> 'w drv) res" where
  "dtv_set_source P tuner_id source_type strm = (\<lambda>(h, e).
     let len = unat (of_nat (length tuner_id) :: u32);
         dev = parse_device_id P 0 (take len tuner_id)
     in andThen (tv_input_hal_get_stream P dev strm h e) (\<lambda>(ret, strm, h, e).
          Inr (ret, strm, (h, e))))"

definition dtv_start_scanning :: "string \<Rightarrow> u8 \<Rightarrow> 's \<Rightarrow> (u8 \<times> 's) res" where
  "dtv_start_scanning tuner_id source_type s = Inr (TV_STATUS_NOT_SUPPORTED, s)"

definition dtv_stop_scanning :: "string \<Rightarrow> u8 \<Rightarrow> 's \<Rightarrow> (u8 \<times> 's) res" where
  "dtv_stop_scanning tuner_id source_type s = Inr (TV_STATUS_NOT_SUPPORTED, s)"

definition dtv_cln_scanned_channel_cache :: "'s \<Rightarrow> (u8 \<times> 's) res" where
  "dtv_cln_scanned_channel_cache s = Inr (TV_STATUS_NOT_SUPPORTED, s)"

definition dtv_set_channel ::
  "string \<Rightarrow> u8 \<Rightarrow> string \<Rightarrow> tv_channel list ptr \<Rightarrow> 's \<Rightarrow> (u8 \<times> tv_channel list ptr \<times> 's) res" where
  "dtv_set_channel tuner_id source_type channel_num ch s = Inr (TV_STATUS_NOT_SUPPORTED, ch, s)"

definition dtv_get_channel_num :: "string \<Rightarrow> u8 \<Rightarrow> 's \<Rightarrow> (u32 \<times> 's) res" where
  "dtv_get_channel_num tuner_id source_type s = Inr (0, s)"

definition dtv_get_channels ::
  "string \<Rightarrow> u8 \<Rightarrow> u32 \<Rightarrow> tv_channel list ptr \<Rightarrow> 's \<Rightarrow> (u8 \<times> tv_channel list ptr \<times> 's) res" where
  "dtv_get_channels tuner_id source_type ch_num ch s = Inr (TV_STATUS_NOT_SUPPORTED, ch, s)"

definition dtv_get_prog_num :: "string \<Rightarrow> u8 \<Rightarrow> string \<Rightarrow> u64 \<Rightarrow> u64 \<Rightarrow> 's \<Rightarrow> (u32 \<times> 's) res" where
  "dtv_get_prog_num tuner_id source_type ch_num start_t end_t s = Inr (0, s)"

definition dtv_get_programs ::
  "string \<Rightarrow> u8 \<Rightarrow> string \<Rightarrow> u64 \<Rightarrow> u64 \<Rightarrow> u32 \<Rightarrow> tv_program list ptr \<Rightarrow> 's \<Rightarrow>
     (u8 \<times> tv_program list ptr \<times> 's) res" where
  "dtv_get_programs tuner_id source_type ch_num start_t end_t prog_num progs s =
     Inr (TV_STATUS_NOT_SUPPORTED, progs, s)"

definition dtv_impl :: "'w platform \<Rightarrow> 'w drv dtv_api" where
  "dtv_impl P =
     \<lparr>api_init = dtv_init, api_uninit = dtv_uninit,
      api_get_tuner_num = dtv_get_tuner_num P, api_get_tuners = dtv_get_tuners P,
      api_set_source = dtv_set_source P,
      api_start_scanning = dtv_start_scanning, api_stop_scanning = dtv_stop_scanning,
      api_cln_scanned_channel_cache = dtv_cln_scanned_channel_cache,
      api_set_channel = dtv_set_channel, api_get_channel_num = dtv_get_channel_num,
      api_get_channels = dtv_get_channels, api_get_prog_num = dtv_get_prog_num,
      api_get_programs = dtv_get_programs\<rparr>"

section \<open>Length of a decimal\<close>

lemma length_decimal_nat:
  "length (decimal_nat n) = (if n < 10 then 1 else Suc (length (decimal_nat (n div 10))))"
  by (subst decimal_nat.simps) simp

text \<open>The loop of \<open>get_int_length\<close> on natural numbers.\<close>

fun int_length :: "nat \<Rightarrow> nat" where
  "int_length n = (if n > 10 then Suc (int_length (n div 10)) else 1)"

declare int_length.simps [simp del]

lemma int_length_bound: "n < 10 ^ k \<Longrightarrow> 0 < k \<Longrightarrow> int_length n \<le> k"
proof (induction n arbitrary: k rule: int_length.induct)
  case (1 n)
  show ?case
  proof (cases "n > 10")
    case True
    with "1.prems" obtain j where k: "k = Suc j" "0 < j" by (cases k; cases "k - 1") auto
    with "1.prems" have "n div 10 < 10 ^ j" by (simp add: less_mult_imp_div_less mult.commute)
    with "1.IH" [OF True] k have "int_length (n div 10) \<le> j" by blast
    with True k show ?thesis by (simp add: int_length.simps [of n])
  next
    case False
    with "1.prems" show ?thesis by (simp add: int_length.simps [of n])
  qed
qed

lemma int_length_u32: "int_length (unat (n :: u32)) \<le> 10"
  using int_length_bound [of "unat n" 10] unat_bound32 [of n] by simp

lemma get_int_length_loop_eq:
  "get_int_length_loop t len = len + of_nat (int_length (unat t) - 1)"
proof (induction t len rule: get_int_length_loop.induct)
  case (1 t len)
  show ?case
  proof (cases "t > 10")
    case True
    then have "unat t > 10" by (simp add: word_less_nat_alt)
    moreover have "int_length (unat t div 10) \<noteq> 0" by (subst int_length.simps) simp
    ultimately show ?thesis
      using "1.IH" [OF True] True
      by (simp add: get_int_length_loop.simps [of t] int_length.simps [of "unat t"] unat_div
          of_nat_diff)
  next
    case False
    then have "\<not> unat t > 10" by (simp add: word_less_nat_alt)
    with False show ?thesis
      by (simp add: get_int_length_loop.simps [of t] int_length.simps [of "unat t"])
  qed
qed

lemma int_length_pos: "0 < int_length n"
  by (subst int_length.simps) simp

lemma unat_get_int_length: "unat (get_int_length t) = int_length (unat t)"
proof -
  have "get_int_length t = of_nat (int_length (unat t))"
    using int_length_pos [of "unat t"]
    by (simp add: get_int_length_def get_int_length_loop_eq of_nat_diff)
  then show ?thesis using int_length_u32 [of t] by (simp add: unat_of_nat)
qed

text \<open>Numbers whose decimal starts with 10 are the ones it counts one digit short.\<close>

definition starts_with_10 :: "nat \<Rightarrow> bool" where
  "starts_with_10 n \<longleftrightarrow> (\<exists>k. n div 10 ^ k = 10)"

lemma starts_with_10_step:
  assumes "n > 10" shows "starts_with_10 n \<longleftrightarrow> starts_with_10 (n div 10)"
proof
  assume "starts_with_10 n"
  then obtain k where k: "n div 10 ^ k = 10" by (auto simp: starts_with_10_def)
  with assms obtain j where "k = Suc j" by (cases k) auto
  with k show "starts_with_10 (n div 10)"
    by (auto simp: starts_with_10_def div_mult2_eq)
next
  assume "starts_with_10 (n div 10)"
  then obtain k where "n div 10 div 10 ^ k = 10" by (auto simp: starts_with_10_def)
  then have "n div 10 ^ Suc k = 10" by (simp add: div_mult2_eq)
  then show "starts_with_10 n" unfolding starts_with_10_def by blast
qed

lemma starts_with_10_small: "n \<le> 10 \<Longrightarrow> starts_with_10 n \<longleftrightarrow> n = 10"
proof -
  assume n: "n \<le> 10"
  show ?thesis
  proof
    assume "starts_with_10 n"
    then obtain k where "n div 10 ^ k = 10" by (auto simp: starts_with_10_def)
    moreover have "n div 10 ^ k \<le> n" by (rule div_le_dividend)
    ultimately show "n = 10" using n by simp
  next
    assume "n = 10"
    then have "n div 10 ^ 0 = 10" by simp
    then show "starts_with_10 n" unfolding starts_with_10_def by blast
  qed
qed

lemma int_length_digits:
  "int_length n + (if starts_with_10 n then 1 else 0) = length (decimal_nat n)"
proof (induction n rule: int_length.induct)
  case (1 n)
  show ?case
  proof (cases "n > 10")
    case True
    with "1.IH" [OF True] show ?thesis
      by (simp add: int_length.simps [of n] length_decimal_nat [of n] starts_with_10_step [of n])
  next
    case False
    have "decimal_nat 10 = [digit_char 1, digit_char 0]"
      by (simp add: decimal_nat.simps [of 10] decimal_nat.simps [of "Suc 0"])
    moreover have "n < 10 \<or> n = 10" using False by linarith
    ultimately show ?thesis
      by (auto simp: int_length.simps [of n] starts_with_10_small length_decimal_nat [of n]
          length_decimal_nat [of "Suc 0"])
  qed
qed

section \<open>Reading a tuner id back\<close>

lemma char_value_digit: "d < 10 \<Longrightarrow> char_value P (digit_char d) - char_value P CHR ''0'' = int d"
proof -
  assume d: "d < 10"
  have "(of_char (digit_char d) :: int) = int (of_char (digit_char d))"
    by (rule of_nat_of_char [symmetric])
  also have "of_char (digit_char d) = 48 + d" using d by (simp add: digit_char_def)
  finally show ?thesis using d by (simp add: char_value_def Let_def)
qed

lemma parse_device_id_append:
  "parse_device_id P acc (xs @ ys) = parse_device_id P (parse_device_id P acc xs) ys"
  by (induction xs arbitrary: acc) auto

lemma parse_decimal_nat: "parse_device_id P 0 (decimal_nat n) = of_nat n"
proof (induction n rule: decimal_nat.induct)
  case (1 n)
  show ?case
  proof (cases "n < 10")
    case True
    then show ?thesis by (simp add: decimal_nat.simps [of n] char_value_digit)
  next
    case False
    have "(of_nat n :: u32) = of_nat (n div 10 * 10 + n mod 10)" by simp
    also have "\<dots> = of_nat (n div 10) * 10 + of_nat (n mod 10)"
      by (simp only: of_nat_add of_nat_mult of_nat_numeral)
    finally show ?thesis
      using False "1.IH"
      by (simp add: decimal_nat.simps [of n] parse_device_id_append char_value_digit)
  qed
qed

lemma butlast_decimal_nat: "10 \<le> n \<Longrightarrow> butlast (decimal_nat n) = decimal_nat (n div 10)"
  by (simp add: decimal_nat.simps [of n])

lemma sint_nonneg:
  assumes "0 \<le> sint (w :: i32)" shows "sint w = uint w"
proof -
  have s: "sint w = (uint w + 2147483648) mod 4294967296 - 2147483648"
    by (simp add: sint_uint signed_take_bit_eq_take_bit_shift take_bit_eq_mod)
  moreover have b: "uint w < 4294967296" "0 \<le> uint w" using unsigned_less [of w] by simp_all
  moreover have "uint w < 2147483648"
  proof (rule ccontr)
    assume big: "\<not> uint w < 2147483648"
    have "(uint w + 2147483648) mod 4294967296 =
        (uint w - 2147483648 + 4294967296) mod 4294967296" by (simp add: add.commute)
    also have "\<dots> = uint w - 2147483648"
      using b big by (simp only: mod_add_self2) (simp add: mod_pos_pos_trivial)
    finally show False using s assms b by simp
  qed
  ultimately show ?thesis by (simp add: mod_pos_pos_trivial)
qed

lemma tuner_id_text_eq:
  assumes "0 \<le> sint dev"
  shows "tuner_id_text dev =
           (if starts_with_10 (unat dev) then decimal_nat (unat dev div 10)
            else decimal_nat (unat dev))"
proof -
  have "sint dev = uint dev" using assms by (rule sint_nonneg)
  then have dec: "decimal (sint dev) = decimal_nat (unat dev)"
    by (simp add: decimal_def)
  have len: "int_length (unat dev) + (if starts_with_10 (unat dev) then 1 else 0) =
      length (decimal_nat (unat dev))" by (rule int_length_digits)
  show ?thesis
  proof (cases "starts_with_10 (unat dev)")
    case True
    then have "10 \<le> unat dev"
      using starts_with_10_small [of "unat dev"] by linarith
    then have "butlast (decimal_nat (unat dev)) = decimal_nat (unat dev div 10)"
      by (rule butlast_decimal_nat)
    with True len dec show ?thesis
      by (simp add: tuner_id_text_def snprintf_int_def unat_get_int_length butlast_conv_take)
  next
    case False
    with len dec show ?thesis
      by (simp add: tuner_id_text_def snprintf_int_def unat_get_int_length)
  qed
qed

text \<open>
  A non-negative device id is read back from its text exactly when its decimal does not start
  with 10: otherwise the last digit is lost.
\<close>

lemma parse_tuner_id_text:
  assumes "0 \<le> sint dev"
  shows "parse_device_id P 0 (tuner_id_text dev) =
           (if starts_with_10 (unat dev) then of_nat (unat dev div 10) else dev)"
  using assms by (simp add: tuner_id_text_eq parse_decimal_nat)

lemma of_nat_div_10_neq:
  assumes "10 \<le> unat (dev :: u32)" shows "of_nat (unat dev div 10) \<noteq> dev"
proof
  assume "of_nat (unat dev div 10) = dev"
  then have "unat (of_nat (unat dev div 10) :: u32) = unat dev" by simp
  then have "unat dev div 10 = unat dev"
    using unat_bound32 [of dev] by (simp add: unat_of_nat)
  with assms show False by simp
qed

lemma parse_tuner_id_text_iff:
  assumes "0 \<le> sint dev"
  shows "parse_device_id P 0 (tuner_id_text dev) = dev \<longleftrightarrow> \<not> starts_with_10 (unat dev)"
proof (cases "starts_with_10 (unat dev)")
  case True
  then have "10 \<le> unat dev" using starts_with_10_small [of "unat dev"] by linarith
  with True show ?thesis
    using assms of_nat_div_10_neq [of dev] by (simp add: parse_tuner_id_text)
next
  case False
  with assms show ?thesis by (simp add: parse_tuner_id_text)
qed

section \<open>Negative device ids\<close>

lemma parse_decimal_nat_from:
  "parse_device_id P acc (decimal_nat n) = acc * 10 ^ length (decimal_nat n) + of_nat n"
proof (induction n arbitrary: acc rule: decimal_nat.induct)
  case (1 n)
  show ?case
  proof (cases "n < 10")
    case True
    then show ?thesis by (simp add: decimal_nat.simps [of n] char_value_digit)
  next
    case False
    have "(of_nat n :: u32) = of_nat (n div 10 * 10 + n mod 10)" by simp
    also have "\<dots> = of_nat (n div 10) * 10 + of_nat (n mod 10)"
      by (simp only: of_nat_add of_nat_mult of_nat_numeral)
    finally show ?thesis
      using False "1.IH"
      by (simp add: decimal_nat.simps [of n] parse_device_id_append char_value_digit algebra_simps)
  qed
qed

lemma decimal_nat_upper: "n < 10 ^ length (decimal_nat n)"
proof (induction n rule: decimal_nat.induct)
  case (1 n)
  show ?case
  proof (cases "n < 10")
    case True
    then show ?thesis by (simp add: length_decimal_nat [of n])
  next
    case False
    with "1.IH" show ?thesis by (simp add: length_decimal_nat [of n])
  qed
qed

lemma decimal_nat_length_bound: "n < 10 ^ k \<Longrightarrow> 0 < k \<Longrightarrow> length (decimal_nat n) \<le> k"
proof (induction k arbitrary: n)
  case (Suc k)
  then show ?case by (cases k) (auto simp: length_decimal_nat [of n])
qed simp

lemma int_length_lower: "11 * 10 ^ k \<le> n \<Longrightarrow> Suc (Suc k) \<le> int_length n"
proof (induction k arbitrary: n)
  case 0
  then show ?case using int_length_pos [of "n div 10"] by (simp add: int_length.simps [of n])
next
  case (Suc k)
  then have "11 * 10 ^ k \<le> n div 10" by simp
  moreover have "(1 :: nat) \<le> 10 ^ k" by simp
  then have "10 < n" using Suc.prems unfolding power_Suc by linarith
  ultimately show ?case using Suc.IH by (simp add: int_length.simps [of n])
qed

lemma sint_neg:
  assumes "sint (w :: i32) < 0" shows "uint w = sint w + 4294967296" "2147483648 \<le> unat w"
proof -
  have s: "sint w = (uint w + 2147483648) mod 4294967296 - 2147483648"
    by (simp add: sint_uint signed_take_bit_eq_take_bit_shift take_bit_eq_mod)
  have b: "uint w < 4294967296" "0 \<le> uint w" using unsigned_less [of w] by simp_all
  have big: "2147483648 \<le> uint w"
  proof (rule ccontr)
    assume "\<not> 2147483648 \<le> uint w"
    with s b assms show False by (simp add: mod_pos_pos_trivial)
  qed
  then have "(uint w + 2147483648) mod 4294967296 = uint w + 2147483648 - 4294967296"
    using b by (subst mod_pos_geq) (simp_all add: mod_pos_pos_trivial)
  then show "uint w = sint w + 4294967296" using s by simp
  show "2147483648 \<le> unat w" using big by (simp add: nat_le_iff flip: nat_uint_eq)
qed

lemma char_value_minus: "char_value P CHR ''-'' - char_value P CHR ''0'' = -3"
  by (simp add: char_value_def)

text \<open>
  A negative id is written with its sign, which leaves room for nine digits, and is read back with the
  sign taken for the digit \<open>-3\<close>.
\<close>

definition digits_sent :: "i32 \<Rightarrow> nat" where
  "digits_sent dev =
     (let n = nat (- sint dev) in if n < 1000000000 then n else n div 10)"

lemma sint_bound32: "- 2147483648 \<le> sint (w :: i32)"
  using sint_ge [of w] by simp

lemma tuner_id_text_negative:
  assumes "sint dev < 0"
  shows "tuner_id_text dev = CHR ''-'' # decimal_nat (digits_sent dev)"
proof -
  define n where "n = nat (- sint dev)"
  have n: "n < 10 ^ 10" using sint_bound32 [of dev] by (simp add: n_def)
  have "10 \<le> int_length (unat dev)"
    using int_length_lower [of 8 "unat dev"] sint_neg(2) [OF assms] by simp
  then have "int_length (unat dev) = 10" using int_length_u32 [of dev] by simp
  then have t: "tuner_id_text dev = CHR ''-'' # take 9 (decimal_nat n)"
    using assms by (simp add: tuner_id_text_def snprintf_int_def unat_get_int_length decimal_def n_def)
  show ?thesis
  proof (cases "n < 1000000000")
    case True
    then have "length (decimal_nat n) \<le> 9" by (intro decimal_nat_length_bound) simp_all
    with t True show ?thesis by (simp add: digits_sent_def n_def [symmetric])
  next
    case False
    have "10 \<le> length (decimal_nat n)"
    proof (rule ccontr)
      assume "\<not> 10 \<le> length (decimal_nat n)"
      then have "(10 :: nat) ^ length (decimal_nat n) \<le> 10 ^ 9" by (intro power_increasing) simp_all
      with decimal_nat_upper [of n] False show False by simp
    qed
    moreover have "length (decimal_nat n) \<le> 10" using n by (intro decimal_nat_length_bound) simp_all
    ultimately have "take 9 (decimal_nat n) = butlast (decimal_nat n)" by (simp add: butlast_conv_take)
    also have "\<dots> = decimal_nat (n div 10)" using False by (intro butlast_decimal_nat) simp
    finally show ?thesis using t False by (simp add: digits_sent_def n_def [symmetric])
  qed
qed

lemma parse_tuner_id_text_negative:
  assumes "sint dev < 0"
  shows "parse_device_id P 0 (tuner_id_text dev) =
      of_nat (digits_sent dev) - 3 * 10 ^ length (decimal_nat (digits_sent dev))"
  using assms by (simp add: tuner_id_text_negative parse_decimal_nat_from char_value_minus)

lemma tuner_id_negative_lost:
  assumes "sint dev < 0"
  shows "parse_device_id P 0 (tuner_id_text dev) \<noteq> dev"
proof
  define n where "n = nat (- sint dev)"
  define m where "m = digits_sent dev"
  define k where "k = length (decimal_nat m)"
  have n: "n \<le> 2147483648" "0 < n" "sint dev = - int n"
    using sint_bound32 [of dev] assms by (simp_all add: n_def)
  have m: "m = (if n < 1000000000 then n else n div 10)" by (simp add: m_def digits_sent_def n_def)
  have up: "m < 10 ^ k" unfolding k_def by (rule decimal_nat_upper)
  have "m < 10 ^ 9" using n(1) unfolding m by (cases "n < 1000000000") simp_all
  then have "k \<le> 9" unfolding k_def by (intro decimal_nat_length_bound) simp_all
  then have le: "(10 :: nat) ^ k \<le> 10 ^ 9" by (intro power_increasing) simp_all
  have less: "m + n < 3 * 10 ^ k"
  proof (cases "n < 1000000000")
    case True
    then show ?thesis using up by (simp add: m)
  next
    case False
    then have big: "100000000 \<le> m" by (simp add: m)
    have "9 \<le> k"
    proof (rule ccontr)
      assume "\<not> 9 \<le> k"
      then have "(10 :: nat) ^ k \<le> 10 ^ 8" by (intro power_increasing) simp_all
      with up big show False by simp
    qed
    then have "(10 :: nat) ^ 9 \<le> 10 ^ k" by (intro power_increasing) simp_all
    then show ?thesis using n(1) False by (simp add: m)
  qed
  assume "parse_device_id P 0 (tuner_id_text dev) = dev"
  then have "of_nat m - 3 * 10 ^ k = (word_of_int (sint dev) :: u32)"
    using parse_tuner_id_text_negative [OF assms, of P] by (simp add: m_def k_def)
  then have "(of_nat m :: u32) + of_nat n = 3 * 10 ^ k" by (simp add: n(3) algebra_simps)
  then have "(of_nat (m + n) :: u32) = of_nat (3 * 10 ^ k)" by simp
  then have "unat (of_nat (m + n) :: u32) = unat (of_nat (3 * 10 ^ k) :: u32)" by (rule arg_cong)
  then have "(m + n) mod 4294967296 = (3 * 10 ^ k) mod 4294967296" by (simp only: unat_of_nat) simp
  moreover have "3 * 10 ^ k < (4294967296 :: nat)" using le by simp
  ultimately show False using less by simp
qed

section \<open>Listing the tuners\<close>

definition malloc_never_fails :: "'w platform \<Rightarrow> bool" where
  "malloc_never_fails P \<longleftrightarrow> (\<forall>n w. fst (malloc_ok P n w))"

lemma malloc_succeeds:
  assumes "malloc_never_fails P"
  shows "\<exists>w. malloc P n x e =
           (Ptr (next_addr e) x,
            e\<lparr>live := insert (next_addr e) (live e), next_addr := Suc (next_addr e), world := w\<rparr>)"
proof (cases "malloc_ok P n (world e)")
  case (Pair ok w)
  then have ok using assms by (metis malloc_never_fails_def fst_conv)
  with Pair show ?thesis by (intro exI [of _ w]) (simp add: malloc_def ext_call_def fresh_def)
qed

text \<open>
  The loop of \<open>dtv_get_tuners\<close> over an array \<open>ts\<close> at \<open>a\<close>, with the ids \<open>ds\<close> at \<open>b\<close>: entry by entry the id
  texts appear, the number of types becomes 0, and nothing else changes.
\<close>

definition listed :: "i32 list \<Rightarrow> nat set \<Rightarrow> nat \<Rightarrow> tv_tuner list \<Rightarrow> tv_tuner list \<Rightarrow> bool" where
  "listed ds lv k ts ts' \<longleftrightarrow>
     length ts' = length ts \<and>
     (\<forall>j < length ts. if j < k
        then (\<exists>c \<in> lv. ts' ! j = (ts ! j)\<lparr>t_id := Ptr c (tuner_id_text (ds ! j)), num_types := 0\<rparr>)
        else ts' ! j = ts ! j)"

lemma listed_step:
  assumes l: "listed ds lv k ts ts'" and k: "k < length ts" and c: "lv \<subseteq> lv2" "c \<in> lv2"
  shows "listed ds lv2 (Suc k) ts
           (ts'[k := (ts' ! k)\<lparr>t_id := Ptr c (tuner_id_text (ds ! k)), num_types := 0\<rparr>])"
proof -
  have len: "length ts' = length ts" and old: "ts' ! k = ts ! k"
    using l k by (simp_all add: listed_def)
  have "if j < Suc k
        then \<exists>d \<in> lv2. (ts'[k := (ts ! k)\<lparr>t_id := Ptr c (tuner_id_text (ds ! k)), num_types := 0\<rparr>]) ! j =
               (ts ! j)\<lparr>t_id := Ptr d (tuner_id_text (ds ! j)), num_types := 0\<rparr>
        else (ts'[k := (ts ! k)\<lparr>t_id := Ptr c (tuner_id_text (ds ! k)), num_types := 0\<rparr>]) ! j = ts ! j"
    if j: "j < length ts" for j
  proof (cases "j = k")
    case True
    then show ?thesis using k len c by auto
  next
    case False
    moreover have "if j < k
        then \<exists>d \<in> lv. ts' ! j = (ts ! j)\<lparr>t_id := Ptr d (tuner_id_text (ds ! j)), num_types := 0\<rparr>
        else ts' ! j = ts ! j" using l j by (simp add: listed_def)
    ultimately show ?thesis using c(1) by (cases "j < k") (simp, blast, simp)
  qed
  then show ?thesis unfolding listed_def old using len by (intro conjI allI impI) (simp, blast)
qed

lemma dtv_get_tuner_step:
  assumes mem: "malloc_never_fails P" and k: "k < length ds" "length ds \<le> length ts"
    and l: "a \<in> live e" "b \<in> live e" "listed ds (live e - {a, b}) k ts ts'" and wf: "env_wf e"
  shows "\<exists>ts2 e2. dtv_get_tuner P (Ptr b ds) k (Ptr a ts', e) = Inr (Ptr a ts2, e2) \<and>
           live e \<subseteq> live e2 \<and> listed ds (live e2 - {a, b}) (Suc k) ts ts2 \<and>
           sent e2 = sent e \<and> awake e2 = awake e \<and> env_wf e2"
proof -
  obtain w where m: "malloc P (unat (get_int_length (ds ! k)) + 1) (tuner_id_text (ds ! k)) e =
      (Ptr (next_addr e) (tuner_id_text (ds ! k)),
       e\<lparr>live := insert (next_addr e) (live e), next_addr := Suc (next_addr e), world := w\<rparr>)"
    using malloc_succeeds [OF mem, of "unat (get_int_length (ds ! k)) + 1"
        "tuner_id_text (ds ! k)" e] by auto
  let ?e2 = "e\<lparr>live := insert (next_addr e) (live e), next_addr := Suc (next_addr e), world := w\<rparr>"
  let ?t = "(ts' ! k)\<lparr>t_id := Ptr (next_addr e) (tuner_id_text (ds ! k)), num_types := 0\<rparr>"
  have len: "length ts' = length ts" using l(3) by (simp add: listed_def)
  have b: "next_addr e \<noteq> a" "next_addr e \<noteq> b" using env_wf_fresh [OF wf] l(1,2) by metis+
  have "dtv_get_tuner P (Ptr b ds) k (Ptr a ts', e) = Inr (Ptr a (ts'[k := ?t]), ?e2)"
    using k l(1,2) m len by (simp add: dtv_get_tuner_def)
  moreover have "listed ds (live ?e2 - {a, b}) (Suc k) ts (ts'[k := ?t])"
    using l(3) k b by (intro listed_step) auto
  moreover have "env_wf ?e2" using wf by (auto simp: env_wf_def less_Suc_eq)
  ultimately show ?thesis by (auto intro!: exI [of _ "ts'[k := ?t]"] exI [of _ ?e2])
qed

lemma dtv_get_tuner_loop:
  assumes mem: "malloc_never_fails P" and len: "length ds \<le> length ts"
    and l: "a \<in> live e" "b \<in> live e" and wf: "env_wf e"
  shows "\<exists>ts2 e2. for_loop (dtv_get_tuner P (Ptr b ds)) 0 (length ds) (Ptr a ts, e) =
             Inr (Ptr a ts2, e2) \<and>
           live e \<subseteq> live e2 \<and> listed ds (live e2 - {a, b}) (length ds) ts ts2 \<and>
           sent e2 = sent e \<and> awake e2 = awake e \<and> env_wf e2"
proof -
  define I where "I k s \<longleftrightarrow> (\<exists>ts2 e2. s = (Ptr a ts2, e2) \<and> live e \<subseteq> live e2 \<and>
      listed ds (live e2 - {a, b}) k ts ts2 \<and> sent e2 = sent e \<and> awake e2 = awake e \<and> env_wf e2)"
    for k and s :: "tv_tuner list ptr \<times> 'a env"
  have "\<exists>s. for_loop (dtv_get_tuner P (Ptr b ds)) 0 (length ds) (Ptr a ts, e) = Inr s \<and>
          I (0 + length ds) s"
  proof (rule for_loop_total)
    show "I 0 (Ptr a ts, e)" using wf by (simp add: I_def listed_def)
  next
    fix k s
    assume k: "0 \<le> k" "k < 0 + length ds" and "I k s"
    then obtain ts1 e1 where s: "s = (Ptr a ts1, e1)" "live e \<subseteq> live e1"
      "listed ds (live e1 - {a, b}) k ts ts1" "sent e1 = sent e" "awake e1 = awake e" "env_wf e1"
      by (auto simp: I_def)
    from s(2) l have "a \<in> live e1" "b \<in> live e1" by auto
    from dtv_get_tuner_step [OF mem _ len this s(3,6)] k(2)
    obtain ts2 e2 where "dtv_get_tuner P (Ptr b ds) k (Ptr a ts1, e1) = Inr (Ptr a ts2, e2)"
      "live e1 \<subseteq> live e2" "listed ds (live e2 - {a, b}) (Suc k) ts ts2"
      "sent e2 = sent e1" "awake e2 = awake e1" "env_wf e2" by auto
    then show "\<exists>s'. dtv_get_tuner P (Ptr b ds) k s = Inr s' \<and> I (Suc k) s'"
      using s by (auto simp: I_def)
  qed
  then show ?thesis by (auto simp: I_def)
qed

text \<open>
  With memory available, listing writes one entry per tuner device, in table order, each with
  its text id and no source types; what \<open>supported_types\<close> points to is left as it was.
\<close>

lemma dtv_get_tuners_lists:
  assumes mem: "malloc_never_fails P" and hal: "hal_wf P h" and wf: "env_wf e"
    and ptr: "4 \<le> ptr_size P" and a: "a \<in> live e"
    and num: "num = of_nat (length (ids_of_type (TV_INPUT_TYPE_TUNER P) h))"
    and len: "unat num \<le> length ts"
  defines "ds \<equiv> ids_of_type (TV_INPUT_TYPE_TUNER P) h"
  shows "\<exists>ts2 e2. dtv_get_tuners P num (Ptr a ts) (h, e) =
             Inr (TV_STATUS_SUCCESS, Ptr a ts2, (h, e2)) \<and>
           live e \<subseteq> live e2 \<and> listed ds (live e2 - {a}) (length ds) ts ts2 \<and>
           sent e2 = sent e \<and> awake e2 = awake e \<and> env_wf e2"
proof -
  have few: "length ds \<le> 100"
    using length_ids_of_type [OF hal] by (simp add: ds_def MAX_DEVICE_NUM_def)
  then have "unat num = length ds"
    by (simp add: num ds_def [symmetric] unat_of_nat)
  moreover have "uint num = int (unat num)" by simp
  ultimately have n: "unat num = length ds" "uint num = int (length ds)" by simp_all
  have "(2::int) ^ 32 \<le> 2 ^ (8 * ptr_size P)" using ptr by (intro power_increasing) simp_all
  then have bytes: "to_size P (4 * uint num) = 4 * length ds"
    using few n by (simp add: to_size_def mod_pos_pos_trivial)
  obtain w where m: "malloc P (4 * length ds) (replicate (length ds) (junk P)) e =
      (Ptr (next_addr e) (replicate (length ds) (junk P)),
       e\<lparr>live := insert (next_addr e) (live e), next_addr := Suc (next_addr e), world := w\<rparr>)"
    using malloc_succeeds [OF mem, of "4 * length ds" "replicate (length ds) (junk P)" e] by auto
  let ?b = "next_addr e"
  let ?e1 = "e\<lparr>live := insert (next_addr e) (live e), next_addr := Suc (next_addr e), world := w\<rparr>"
  have e1: "a \<in> live ?e1" "?b \<in> live ?e1" "env_wf ?e1" "a \<noteq> ?b"
    using a wf env_wf_fresh [OF wf] by (auto simp: env_wf_def less_Suc_eq)
  have inputs: "tv_input_hal_get_inputs_by_type h (live ?e1) (ucast num) (TV_INPUT_TYPE_TUNER P)
      (Ptr ?b (replicate (length ds) (junk P))) = Inr (TV_STATUS_SUCCESS, Ptr ?b ds)"
    unfolding ds_def using hal e1(2) by (intro tuner_inputs.inputs) simp_all
  obtain ts2 e2 where loop: "for_loop (dtv_get_tuner P (Ptr ?b ds)) 0 (length ds) (Ptr a ts, ?e1) =
      Inr (Ptr a ts2, e2)" "live ?e1 \<subseteq> live e2" "listed ds (live e2 - {a, ?b}) (length ds) ts ts2"
      "sent e2 = sent ?e1" "awake e2 = awake ?e1" "env_wf e2"
    using dtv_get_tuner_loop [OF mem _ e1(1,2,3), of ds ts] len n by auto
  have "dtv_get_tuners P num (Ptr a ts) (h, e) =
      Inr (TV_STATUS_SUCCESS, Ptr a ts2, (h, e2\<lparr>live := live e2 - {?b}\<rparr>))"
    using m bytes inputs loop(1,2) n by (auto simp: dtv_get_tuners_def Let_def)
  moreover have "live e \<subseteq> live e2 - {?b}" using loop(2) env_wf_fresh [OF wf] by auto
  moreover have "live e2 - {?b} - {a} = live e2 - {a, ?b}" by blast
  ultimately show ?thesis
    using loop(3-6) by (auto simp: env_wf_def)
qed

section \<open>Properties\<close>

text \<open>
  C30: \<open>get_int_length\<close> returns the number of decimal digits of its argument, and one less exactly for
  the numbers whose decimal starts with 10 followed by any digits.
\<close>

theorem get_int_length_digits:
  "unat (get_int_length n) =
     length (decimal_nat (unat n)) - (if starts_with_10 (unat n) then 1 else 0)"
  using int_length_digits [of "unat n"] by (simp add: unat_get_int_length)

text \<open>
  C29: A device id, an \<open>int\<close> of either sign, is sent to a client as text and comes back in a set-source
  command. It denotes the same device exactly if it is not negative and its decimal does not start
  with 10. Otherwise: a decimal that starts with 10 loses its last digit, so the text denotes the id
  without it; a negative id is never read back, because the sign counts as the digit \<open>-3\<close> in front of
  its digits, of which the last is lost when there are ten.
\<close>

theorem tuner_id_roundtrip:
  "parse_device_id P 0 (tuner_id_text dev) =
     (if sint dev < 0 then of_nat (digits_sent dev) - 3 * 10 ^ length (decimal_nat (digits_sent dev))
      else if starts_with_10 (unat dev) then of_nat (unat dev div 10) else dev) \<and>
   (parse_device_id P 0 (tuner_id_text dev) = dev \<longleftrightarrow>
      0 \<le> sint dev \<and> \<not> starts_with_10 (unat dev))"
  using parse_tuner_id_text [of dev P] parse_tuner_id_text_iff [of dev P]
    parse_tuner_id_text_negative [of dev P] tuner_id_negative_lost [of dev P]
  by (simp add: not_less [symmetric])

theorem tuner_id_roundtrip_witness:
  "parse_device_id sample_platform 0 (tuner_id_text 107) = 10 \<and>
   parse_device_id sample_platform 0 (tuner_id_text 117) = 117 \<and>
   parse_device_id sample_platform 0 (tuner_id_text (-5)) = -25"
proof -
  have "\<exists>k. (107 :: nat) div 10 ^ k = 10" by (rule exI [of _ 1]) simp
  moreover have "\<not> starts_with_10 117"
    using starts_with_10_step [of 117] starts_with_10_step [of 11] starts_with_10_small [of 1] by simp
  moreover have "digits_sent (-5) = 5" by (simp add: digits_sent_def)
  ultimately show ?thesis
    using tuner_id_roundtrip [of sample_platform 107] tuner_id_roundtrip [of sample_platform 117]
      tuner_id_roundtrip [of sample_platform "-5"]
    by (simp add: starts_with_10_def length_decimal_nat [of 5])
qed

text \<open>
  C31: While memory lasts, \<open>dtv_get_tuners\<close> succeeds and writes, for each tuner device in table order,
  its id as text and no source types; the pointers to the source types stay as they were, the
  temporary array is released, and nothing is sent.
\<close>

theorem dtv_get_tuners_listing:
  assumes "malloc_never_fails P" and "hal_wf P h" and "env_wf e" and "4 \<le> ptr_size P" and "a \<in> live e"
    and "num = of_nat (length (ids_of_type (TV_INPUT_TYPE_TUNER P) h))" and "unat num \<le> length ts"
  shows "\<exists>ts2 e2. dtv_get_tuners P num (Ptr a ts) (h, e) =
             Inr (TV_STATUS_SUCCESS, Ptr a ts2, (h, e2)) \<and>
           listed (ids_of_type (TV_INPUT_TYPE_TUNER P) h) (live e2 - {a})
             (length (ids_of_type (TV_INPUT_TYPE_TUNER P) h)) ts ts2 \<and>
           live e \<subseteq> live e2 \<and> sent e2 = sent e"
  using dtv_get_tuners_lists [OF assms] by blast

lemma sample_tuner_ids [simp]: "ids_of_type 1 sample_hal = [7]"
  by (simp add: ids_of_type_def)

theorem dtv_get_tuners_listing_witness:
  "\<exists>t e2. dtv_get_tuners sample_platform 1 (Ptr 1 [uninit_tuner sample_platform])
       (sample_hal, sample_env\<lparr>live := {1}, next_addr := 2\<rparr>) =
       Inr (TV_STATUS_SUCCESS, Ptr 1 [t], (sample_hal, e2)) \<and> supported_types t = Wild"
  using dtv_get_tuners_listing [of sample_platform sample_hal
      "sample_env\<lparr>live := {1}, next_addr := 2\<rparr>" 1 1 "[uninit_tuner sample_platform]"]
  by (auto simp: malloc_never_fails_def env_wf_def listed_def length_Suc_conv uninit_tuner_def)

end
