(* ===== verification/Pdu_Dispatch.thy ===== *)
theory Pdu_Dispatch
  imports Tvd_Platform
begin

text \<open>
  pdu.h and pdu.c: protocol constants, and the dispatch of a received PDU through a table of
  handlers indexed by service or by opcode. The contract of a command handler, one response
  on success and none on an error code, is stated here as an interface; a table whose
  entries keep it is itself a handler that keeps it.
\<close>

definition PROTOCOL_VERSION :: nat where "PROTOCOL_VERSION = 1"

definition SERVICE_REGISTRY :: u8 where "SERVICE_REGISTRY = 0x00"
definition SERVICE_DTV :: u8 where "SERVICE_DTV = 0x01"

definition ERROR_NONE :: int where "ERROR_NONE = 0x0"
definition ERROR_FAIL :: int where "ERROR_FAIL = 0x1"
definition ERROR_NOT_READY :: int where "ERROR_NOT_READY = 0x2"
definition ERROR_NOMEM :: int where "ERROR_NOMEM = 0x3"
definition ERROR_BUSY :: int where "ERROR_BUSY = 0x4"
definition ERROR_DONE :: int where "ERROR_DONE = 0x5"
definition ERROR_UNSUPPORTED :: int where "ERROR_UNSUPPORTED = 0x6"
definition ERROR_PARM_INVALID :: int where "ERROR_PARM_INVALID = 0x7"

lemmas error_code_defs =
  ERROR_NONE_def ERROR_FAIL_def ERROR_NOT_READY_def ERROR_NOMEM_def ERROR_BUSY_def
  ERROR_DONE_def ERROR_UNSUPPORTED_def ERROR_PARM_INVALID_def

lemmas service_id_defs = SERVICE_REGISTRY_def SERVICE_DTV_def

type_synonym 's handler = "pdu \<Rightarrow> 's \<Rightarrow> (int \<times> 's) res"

text \<open>
  The tables are arrays of function pointers with designated initialisers: a partial map from
  the octet, read only below the number of entries.
\<close>

definition handle_pdu ::
  "u8 \<Rightarrow> pdu \<Rightarrow> (u8 \<Rightarrow> 's handler option) \<Rightarrow> nat \<Rightarrow> 's \<Rightarrow> (int \<times> 's) res" where
  "handle_pdu val cmd handler nhandlers s =
     (if nhandlers \<le> unat val then Inr (ERROR_UNSUPPORTED, s)
      else case handler val of
             None \<Rightarrow> Inr (ERROR_UNSUPPORTED, s)
           | Some h \<Rightarrow> h cmd s)"

definition handle_pdu_by_service ::
  "'w platform \<Rightarrow> pdu \<Rightarrow> (u8 \<Rightarrow> 's handler option) \<Rightarrow> 's \<Rightarrow> (int \<times> 's) res" where
  "handle_pdu_by_service P cmd handler s =
     handle_pdu (pdu_service cmd) cmd handler (PDU_MAX_NUM_SERVICES P) s"

definition handle_pdu_by_opcode ::
  "'w platform \<Rightarrow> pdu \<Rightarrow> (u8 \<Rightarrow> 's handler option) \<Rightarrow> 's \<Rightarrow> (int \<times> 's) res" where
  "handle_pdu_by_opcode P cmd handler s =
     handle_pdu (pdu_opcode cmd) cmd handler (PDU_MAX_NUM_OPCODES P) s"

section \<open>The contract of a handler\<close>

text \<open>
  \<open>answers form out cmd s st s'\<close>: between \<open>s\<close> and \<open>s'\<close> the output stream \<open>out\<close> has grown by one PDU with
  the command's service and opcode and a payload accepted by \<open>form\<close> if the status \<open>st\<close> is success, and
  not at all otherwise.
\<close>

definition answers ::
  "(pdu \<Rightarrow> bool) \<Rightarrow> ('s \<Rightarrow> pdu list) \<Rightarrow> pdu \<Rightarrow> 's \<Rightarrow> int \<Rightarrow> 's \<Rightarrow> bool" where
  "answers form out cmd s st s' \<longleftrightarrow>
     (if st = ERROR_NONE
      then \<exists>p. out s' = out s @ [p] \<and> pdu_service p = pdu_service cmd \<and>
               pdu_opcode p = pdu_opcode cmd \<and> form p
      else out s' = out s)"

lemma answers_error [simp]:
  "st \<noteq> ERROR_NONE \<Longrightarrow> answers form out cmd s st s' \<longleftrightarrow> out s' = out s"
  by (simp add: answers_def)

lemma answers_reply:
  "out s' = out s @ [p] \<Longrightarrow> pdu_service p = pdu_service cmd \<Longrightarrow> pdu_opcode p = pdu_opcode cmd \<Longrightarrow>
     form p \<Longrightarrow> answers form out cmd s ERROR_NONE s'"
  by (simp add: answers_def)

lemma answers_mono:
  assumes "answers form out cmd s st s'"
    and "\<And>p. pdu_service p = pdu_service cmd \<Longrightarrow> pdu_opcode p = pdu_opcode cmd \<Longrightarrow> form p \<Longrightarrow> form' p"
  shows "answers form' out cmd s st s'"
  using assms by (auto simp: answers_def)

text \<open>
  \<open>lawful\<close> collects what a handler relies on outside itself, such as the behaviour of libpdu.
\<close>

locale command_handler =
  fixes h :: "'s handler" and form :: "pdu \<Rightarrow> bool" and out :: "'s \<Rightarrow> pdu list" and lawful :: bool
  assumes h_answers: "lawful \<Longrightarrow> h cmd s = Inr (st, s') \<Longrightarrow> answers form out cmd s st s'"

locale handler_table =
  fixes table :: "u8 \<Rightarrow> 's handler option"
    and form :: "pdu \<Rightarrow> bool"
    and out :: "'s \<Rightarrow> pdu list"
    and key :: "pdu \<Rightarrow> u8"
    and entries :: nat
    and lawful :: bool
  assumes entry_answers:
    "lawful \<Longrightarrow> table (key cmd) = Some h \<Longrightarrow> h cmd s = Inr (st, s') \<Longrightarrow> answers form out cmd s st s'"
begin

lemma dispatch_answers:
  "lawful \<Longrightarrow> handle_pdu (key cmd) cmd table entries s = Inr (st, s') \<Longrightarrow> answers form out cmd s st s'"
  by (auto simp: handle_pdu_def error_code_defs split: if_splits option.splits
      intro: entry_answers)

lemma dispatch_unknown:
  "entries \<le> unat (key cmd) \<or> table (key cmd) = None \<Longrightarrow>
     handle_pdu (key cmd) cmd table entries s = Inr (ERROR_UNSUPPORTED, s)"
  by (auto simp: handle_pdu_def)

end

sublocale handler_table \<subseteq> command_handler "\<lambda>cmd. handle_pdu (key cmd) cmd table entries" form out lawful
  by unfold_locales (rule dispatch_answers)

end
