(* ===== verification/Tvd_State.thy ===== *)
theory Tvd_State
  imports Io_State Dtv Pdu_Dispatch
begin

text \<open>
  The state of the daemon: the static variables of io.c, dtv_io.c, registry.c, service.c and
  tv_hal.c in one record, next to the environment. Function pointers the program stores are
  named by the datatypes \<open>handler_fn\<close> and \<open>send_fn\<close>, and those of \<open>dtv_callbacks\<close>; a null pointer is \<open>None\<close>, and a call
  through it faults.
\<close>

datatype handler_fn = Registry_handler | Dtv_handler

datatype send_fn = Io_send_pdu

record 'w sys =
  s_env :: "'w env"
  s_hal :: hal_state                          \<comment> \<open>tv_hal.c\<close>
  s_io :: io_state                            \<comment> \<open>\<open>g_io_state[0]\<close> of io.c\<close>
  dtv_callbacks :: dtv_callbacks              \<comment> \<open>dtv_io.c\<close>
  dtv_send_pdu :: "send_fn option"            \<comment> \<open>\<open>send_pdu\<close> of dtv_io.c\<close>
  g_send_pdu :: "send_fn option"              \<comment> \<open>registry.c\<close>
  g_service_handler :: "u8 \<Rightarrow> handler_fn option" \<comment> \<open>service.c\<close>
  tasks :: "wbuf list"                        \<comment> \<open>tasks posted with \<open>run_task\<close>, oldest first\<close>

text \<open>The vendor's callbacks before and after the service filled them in.\<close>

definition no_callbacks :: dtv_callbacks where
  "no_callbacks = \<lparr>channel_update_nfy = None, scan_status_nfy = None, event_nfy = None\<rparr>"

definition dtv_callbacks_set :: "'w sys \<Rightarrow> bool" where
  "dtv_callbacks_set s \<longleftrightarrow> dtv_callbacks s =
     \<lparr>channel_update_nfy = Some Channel_update_nfy_cb, scan_status_nfy = Some Scan_status_nfy_cb,
      event_nfy = Some Event_nfy_cb\<rparr>"

lemma dtv_callbacks_set_update [simp]:
  "dtv_callbacks_set (s\<lparr>s_env := e\<rparr>) = dtv_callbacks_set s"
  "dtv_callbacks_set (s\<lparr>s_hal := h\<rparr>) = dtv_callbacks_set s"
  "dtv_callbacks_set (s\<lparr>s_io := io\<rparr>) = dtv_callbacks_set s"
  "dtv_callbacks_set (s\<lparr>dtv_send_pdu := f\<rparr>) = dtv_callbacks_set s"
  "dtv_callbacks_set (s\<lparr>g_send_pdu := f\<rparr>) = dtv_callbacks_set s"
  "dtv_callbacks_set (s\<lparr>g_service_handler := g\<rparr>) = dtv_callbacks_set s"
  "dtv_callbacks_set (s\<lparr>tasks := ts\<rparr>) = dtv_callbacks_set s"
  by (simp_all add: dtv_callbacks_set_def)

lemma dtv_callbacks_setD:
  assumes "dtv_callbacks_set s"
  shows "channel_update_nfy (dtv_callbacks s) = Some Channel_update_nfy_cb"
    "scan_status_nfy (dtv_callbacks s) = Some Scan_status_nfy_cb"
    "event_nfy (dtv_callbacks s) = Some Event_nfy_cb"
  using assms by (simp_all add: dtv_callbacks_set_def)

section \<open>Access to the parts\<close>

text \<open>A call into tv_hal.c or dtv.c, without and with a further result.\<close>

definition call_drv :: "('w drv \<Rightarrow> ('r \<times> 'w drv) res) \<Rightarrow> 'w sys \<Rightarrow> ('r \<times> 'w sys) res" where
  "call_drv f s =
     andThen (f (s_hal s, s_env s)) (\<lambda>(r, (h, e)). Inr (r, s\<lparr>s_hal := h, s_env := e\<rparr>))"

definition call_drv2 ::
  "('w drv \<Rightarrow> ('r \<times> 'q \<times> 'w drv) res) \<Rightarrow> 'w sys \<Rightarrow> ('r \<times> 'q \<times> 'w sys) res" where
  "call_drv2 f s =
     andThen (f (s_hal s, s_env s)) (\<lambda>(r, q, (h, e)). Inr (r, q, s\<lparr>s_hal := h, s_env := e\<rparr>))"

definition sys_malloc :: "'w platform \<Rightarrow> nat \<Rightarrow> 'a \<Rightarrow> 'w sys \<Rightarrow> 'a ptr \<times> 'w sys" where
  "sys_malloc P n contents s =
     (case malloc P n contents (s_env s) of (p, e) \<Rightarrow> (p, s\<lparr>s_env := e\<rparr>))"

definition sys_create_wbuf ::
  "'w platform \<Rightarrow> nat \<Rightarrow> nat \<Rightarrow> bool \<Rightarrow> 'w sys \<Rightarrow> wbuf option \<times> 'w sys" where
  "sys_create_wbuf P sz tail_size cb s =
     (case create_pdu_wbuf P sz tail_size cb (s_env s) of (w, e) \<Rightarrow> (w, s\<lparr>s_env := e\<rparr>))"

text \<open>Functions that only change the environment: \<open>free\<close>, \<open>destroy_pdu_wbuf\<close>, the releases.\<close>

definition on_env :: "('w env \<Rightarrow> 'w env res) \<Rightarrow> 'w sys \<Rightarrow> 'w sys res" where
  "on_env f s = andThen (f (s_env s)) (\<lambda>e. Inr (s\<lparr>s_env := e\<rparr>))"

section \<open>Sending\<close>

text \<open>\<open>send_pdu\<close> of io.c: the result of \<open>io_state_send\<close> is dropped.\<close>

definition io_send_pdu :: "'w platform \<Rightarrow> wbuf \<Rightarrow> 'w sys \<Rightarrow> 'w sys res" where
  "io_send_pdu P w s =
     andThen (io_state_send P w (s_io s) (s_env s))
       (\<lambda>(_, io, e). Inr (s\<lparr>s_io := io, s_env := e\<rparr>))"

definition call_send :: "'w platform \<Rightarrow> send_fn option \<Rightarrow> wbuf \<Rightarrow> 'w sys \<Rightarrow> 'w sys res" where
  "call_send P f w s =
     (case f of None \<Rightarrow> Inl Null_call | Some Io_send_pdu \<Rightarrow> io_send_pdu P w s)"

section \<open>The output of the daemon\<close>

definition sys_out :: "'w sys \<Rightarrow> pdu list" where
  "sys_out s = output_stream (s_io s, s_env s)"

lemma sys_out_same_env:
  "sent e = sent (s_env s) \<Longrightarrow> sys_out (s\<lparr>s_env := e\<rparr>) = sys_out s"
  by (simp add: sys_out_def output_stream_def)

lemma sys_out_update [simp]:
  "sys_out (s\<lparr>s_hal := h\<rparr>) = sys_out s" "sys_out (s\<lparr>dtv_callbacks := b\<rparr>) = sys_out s"
  "sys_out (s\<lparr>dtv_send_pdu := f\<rparr>) = sys_out s" "sys_out (s\<lparr>g_send_pdu := f\<rparr>) = sys_out s"
  "sys_out (s\<lparr>g_service_handler := g\<rparr>) = sys_out s" "sys_out (s\<lparr>tasks := ts\<rparr>) = sys_out s"
  by (simp_all add: sys_out_def)

text \<open>
  Whatever the state, a call that returns at all has not lost, duplicated or reordered output:
  facts about runs that return normally need no invariant.
\<close>

lemma send_pending_output:
  "send_pending P fd q e = Inr (q', e') \<Longrightarrow>
     sent e' @ map wb_pdu q' = sent e @ map wb_pdu q"
proof (induction q arbitrary: e)
  case (Cons w ws)
  obtain res e1 where c: "ext_call (send_pdu_wbuf P w fd) e = (res, e1)" by (metis surj_pair)
  note e1 = ext_call_env [OF c]
  show ?case
  proof (cases "res \<noteq> 0")
    case True
    with Cons.prems c obtain e2 where
      "destroy_pdu_wbuf w (e1\<lparr>sent := sent e1 @ [wb_pdu w]\<rparr>) = Inr e2"
      "send_pending P fd ws e2 = Inr (q', e')"
      by (auto simp: res_simps split: if_splits)
    with Cons.IH [of e2] e1 show ?thesis by (auto simp: res_simps)
  next
    case False
    with Cons.prems c e1 show ?thesis by (auto split: if_splits)
  qed
qed simp

lemma io_state_send_output:
  assumes "io_state_send P w io e = Inr (r, io', e')"
  shows "output_stream (io', e') = output_stream (io, e) @ [wb_pdu w]"
proof -
  obtain q e1 where p: "send_pending P (io_fd io) (sendq io @ [w]) e = Inr (q, e1)"
    using assms by (auto simp: io_state_send_def io_state_send_pending_wbufs_def res_simps
        split: if_splits)
  obtain r2 e2 where a: "add_fd_events P (io_fd io) (or (epoll_events io) EPOLLOUT) e1 = (r2, e2)"
    by (metis surj_pair)
  have "sendq io' = q" "sent e' = sent e1"
    using assms p a add_fd_events_env(4) [OF a]
    by (auto simp: io_state_send_def io_state_send_pending_wbufs_def Let_def
        split: if_splits)
  with send_pending_output [OF p] show ?thesis by (simp add: output_stream_def)
qed

lemma call_send_output:
  "call_send P f w s = Inr s' \<Longrightarrow> sys_out s' = sys_out s @ [wb_pdu w]"
  by (auto simp: call_send_def io_send_pdu_def res_simps sys_out_def
      split: option.splits send_fn.splits dest: io_state_send_output)

lemma on_env_output:
  "on_env f s = Inr s' \<Longrightarrow> (\<And>e e'. f e = Inr e' \<Longrightarrow> sent e' = sent e) \<Longrightarrow> sys_out s' = sys_out s"
  by (auto simp: on_env_def res_simps sys_out_def output_stream_def)

lemma sys_malloc_output:
  assumes "sys_malloc P n x s = (p, s')" shows "sys_out s' = sys_out s"
proof -
  obtain q e where m: "malloc P n x (s_env s) = (q, e)" by (metis surj_pair)
  then have "sent e = sent (s_env s)"
    by (auto simp: malloc_def fresh_def ext_call_def split: prod.splits if_splits)
  with assms m show ?thesis by (auto simp: sys_malloc_def sys_out_same_env)
qed

lemma sys_create_wbuf_output:
  assumes "sys_create_wbuf P n t c s = (w, s')" shows "sys_out s' = sys_out s"
proof -
  obtain q e where m: "create_pdu_wbuf P n t c (s_env s) = (q, e)" by (metis surj_pair)
  with create_pdu_wbuf_env(1) [OF m] assms show ?thesis
    by (auto simp: sys_create_wbuf_def sys_out_same_env)
qed

section \<open>What most operations leave alone\<close>

text \<open>
  The registration state: the send functions, the table of handlers, the posted tasks and the
  callbacks given to the vendor. Only registering, unregistering and notifications change it.
\<close>

definition services ::
  "'w sys \<Rightarrow> dtv_callbacks \<times> send_fn option \<times> send_fn option \<times> (u8 \<Rightarrow> handler_fn option) \<times> wbuf list" where
  "services s =
     (dtv_callbacks s, dtv_send_pdu s, g_send_pdu s, g_service_handler s, tasks s)"

lemma services_update [simp]:
  "services (s\<lparr>s_env := e\<rparr>) = services s" "services (s\<lparr>s_hal := h\<rparr>) = services s"
  "services (s\<lparr>s_io := io\<rparr>) = services s"
  by (simp_all add: services_def)

lemma call_drv_services: "call_drv f s = Inr x \<Longrightarrow> services (snd x) = services s"
  by (auto simp: call_drv_def res_simps)

lemma call_drv2_services: "call_drv2 f s = Inr x \<Longrightarrow> services (snd (snd x)) = services s"
  by (auto simp: call_drv2_def res_simps)

lemma sys_malloc_services [simp]: "services (snd (sys_malloc P n x s)) = services s"
  by (auto simp: sys_malloc_def split: prod.splits)

lemma sys_create_wbuf_services [simp]: "services (snd (sys_create_wbuf P n t c s)) = services s"
  by (auto simp: sys_create_wbuf_def split: prod.splits)

lemma on_env_services: "on_env f s = Inr s' \<Longrightarrow> services s' = services s"
  by (auto simp: on_env_def res_simps)

lemma call_send_services: "call_send P f w s = Inr s' \<Longrightarrow> services s' = services s"
  by (auto simp: call_send_def io_send_pdu_def res_simps split: option.splits send_fn.splits)

lemmas services_keep =
  call_drv_services call_drv2_services on_env_services call_send_services

section \<open>States of the closed examples\<close>

text \<open>
  A connected daemon with one tuner; the services are the registry and, in \<open>dtv_sys\<close>, DTV. The
  addresses from 10 to 19 are left to the vendor functions of the examples.
\<close>

definition sample_sys :: "unit sys" where
  "sample_sys = \<lparr>s_env = conn_env, s_hal = sample_hal, s_io = sample_io, dtv_callbacks = no_callbacks,
     dtv_send_pdu = None, g_send_pdu = Some Io_send_pdu,
     g_service_handler = [SERVICE_REGISTRY \<mapsto> Registry_handler], tasks = []\<rparr>"

definition dtv_sys :: "unit sys" where
  "dtv_sys = sample_sys\<lparr>dtv_callbacks := \<lparr>channel_update_nfy = Some Channel_update_nfy_cb,
       scan_status_nfy = Some Scan_status_nfy_cb, event_nfy = Some Event_nfy_cb\<rparr>,
     dtv_send_pdu := Some Io_send_pdu,
     g_service_handler := [SERVICE_REGISTRY \<mapsto> Registry_handler, SERVICE_DTV \<mapsto> Dtv_handler]\<rparr>"

lemma sample_sys_fields [simp]:
  "s_env sample_sys = conn_env" "s_hal sample_sys = sample_hal" "s_io sample_sys = sample_io"
  "g_send_pdu sample_sys = Some Io_send_pdu"
  "g_service_handler sample_sys = [SERVICE_REGISTRY \<mapsto> Registry_handler]"
  "s_env dtv_sys = conn_env" "s_hal dtv_sys = sample_hal" "s_io dtv_sys = sample_io"
  "g_send_pdu dtv_sys = Some Io_send_pdu" "dtv_send_pdu dtv_sys = Some Io_send_pdu"
  "g_service_handler dtv_sys = [SERVICE_REGISTRY \<mapsto> Registry_handler, SERVICE_DTV \<mapsto> Dtv_handler]"
  "dtv_callbacks_set dtv_sys" "tasks sample_sys = []" "tasks dtv_sys = []"
  "ptr_addrs (epoll_funcs sample_io) = [2]"
  by (simp_all add: sample_sys_def dtv_sys_def sample_io_def dtv_callbacks_set_def)

end
