(* ===== verification/Memptr.thy ===== *)
theory Memptr
  imports Tvd_Pdubuf
begin

text \<open>
  memptr.c: \<open>ceil_align\<close>, on addresses of the platform's width. The lemmas give the range of
  its result, on which the layout of ancillary data in a write buffer rests.
\<close>

definition address_space :: "'w platform \<Rightarrow> nat" where
  "address_space P = 2 ^ (8 * ptr_size P)"

definition ceil_align :: "'w platform \<Rightarrow> nat \<Rightarrow> nat \<Rightarrow> nat res" where
  "ceil_align P p align =
     (if align = 0 then Inl Division_by_zero
      else Inr ((p div align + 1) * align mod address_space P))"

text \<open>Away from the end of the address space the result is the next multiple after \<open>p\<close>.\<close>

lemma ceil_align_eq:
  assumes "0 < align" "p + align < address_space P"
  shows "ceil_align P p align = Inr ((p div align + 1) * align)"
proof -
  have eq: "(p div align + 1) * align = p div align * align + align" by simp
  have "p div align * align + align \<le> p + align" by simp
  also have "\<dots> < address_space P" by (rule assms(2))
  finally have "(p div align + 1) * align < address_space P" unfolding eq .
  then have "(p div align + 1) * align mod address_space P = (p div align + 1) * align"
    by (rule mod_less)
  then show ?thesis using assms(1) by (simp only: ceil_align_def) simp
qed

lemma ceil_align_range:
  assumes "0 < align" "p + align < address_space P" "ceil_align P p align = Inr q"
  shows "p < q" "q \<le> p + align" "align dvd q"
proof -
  have q: "q = (p div align + 1) * align"
    using assms by (simp add: ceil_align_eq)
  have "p = p div align * align + p mod align" by simp
  moreover have "p mod align < align" using assms(1) by simp
  ultimately have "p < p div align * align + align" "p div align * align \<le> p" by linarith+
  with q show "p < q" "q \<le> p + align" by simp_all
  show "align dvd q" using q by simp
qed

lemma ceil_align_of_aligned:
  assumes "0 < align" "align dvd p" "p + align < address_space P"
  shows "ceil_align P p align = Inr (p + align)"
  using assms by (simp add: ceil_align_eq)

end
