(* ===== verification/Dtv_Pdu.thy ===== *)
theory Dtv_Pdu
  imports Tvd_Pdubuf Tv_Utils Memptr "HOL-Library.Sublist"
begin

text \<open>
  dtv_pdu.h and dtv_pdu.c: the payload size and the encoding of tuners, channels and
  programs, and the control message that carries file descriptors. The lemmas show that for
  tuners and programs a buffer of the calculated size has room for what the append function
  writes, so that an append never leaves the buffer; the contract is stated once, in the locale
  \<open>sized_item\<close>, and its consequences for arrays of items are proved there. Channels keep only
  the part about sizes, \<open>counted_item\<close>: their append function passes fewer arguments than its
  format asks for.
\<close>

section \<open>Sizes and appends\<close>

text \<open>
  \<open>elem_ptr\<close> is \<open>&arr[idx]\<close> for a callee that tests the pointer: it is null when \<open>arr\<close> is null and
  \<open>idx\<close> is 0, and the element is read by the callee otherwise.
\<close>

definition elem_ptr :: "nat set \<Rightarrow> 'a list ptr \<Rightarrow> nat \<Rightarrow> 'a option res" where
  "elem_ptr lv arr idx =
     (if arr = Null \<and> idx = 0 then Inr None
      else andThen (load_at lv arr idx) (\<lambda>x. Inr (Some x)))"

text \<open>\<open>strlen(p) + 1\<close>, converted to \<open>uint32_t\<close> by the assignment it occurs in.\<close>

definition str_size :: "nat set \<Rightarrow> string ptr \<Rightarrow> u32 res" where
  "str_size lv p = andThen (load lv p) (\<lambda>s. Inr (of_nat (length s + 1)))"

definition calculate_tuner_size :: "nat set \<Rightarrow> tv_tuner option \<Rightarrow> u32 res" where
  "calculate_tuner_size lv tuner =
     (case tuner of
        None \<Rightarrow> Inr 0
      | Some t \<Rightarrow> andThen (str_size lv (t_id t)) (\<lambda>id. Inr (4 + id + num_types t)))"

definition calculate_ch_size :: "nat set \<Rightarrow> tv_channel option \<Rightarrow> u32 res" where
  "calculate_ch_size lv ch =
     (case ch of
        None \<Rightarrow> Inr 0
      | Some c \<Rightarrow>
          andThen (str_size lv (network_id c)) (\<lambda>n.
          andThen (str_size lv (trans_stream_id c)) (\<lambda>t.
          andThen (str_size lv (service_id c)) (\<lambda>s.
          andThen (str_size lv (ch_number c)) (\<lambda>num.
          andThen (str_size lv (ch_name c)) (\<lambda>name.
            Inr (n + t + s + 1 + num + name + 1 + 1)))))))"

definition add_lang_sizes ::
  "nat set \<Rightarrow> string ptr list ptr \<Rightarrow> u32 \<Rightarrow> u32 \<Rightarrow> u32 res" where
  "add_lang_sizes lv arr num init =
     for_loop (\<lambda>idx size. andThen (load_at lv arr idx) (\<lambda>s.
         andThen (str_size lv s) (\<lambda>n. Inr (size + n)))) 0 (unat num) init"

text \<open>Both loops run to \<open>lang_num\<close>, as in the source.\<close>

definition calculate_prog_size :: "nat set \<Rightarrow> tv_program option \<Rightarrow> u32 res" where
  "calculate_prog_size lv prog =
     (case prog of
        None \<Rightarrow> Inr 0
      | Some p \<Rightarrow>
          andThen (str_size lv (evt_id p)) (\<lambda>evt.
          andThen (str_size lv (title p)) (\<lambda>ttl.
          andThen (str_size lv (descpt p)) (\<lambda>des.
          andThen (str_size lv (rating p)) (\<lambda>rat.
          andThen (add_lang_sizes lv (langs p) (lang_num p) (evt + ttl + 8 + 8 + des + rat + 4))
            (\<lambda>size. add_lang_sizes lv (stl_langs p) (lang_num p) (size + 4)))))))"

text \<open>
  The append functions return whether they succeeded: \<open>True\<close> stands for \<open>TV_STATUS_SUCCESS\<close> and
  \<open>False\<close> for -1, which is what their callers test for.
\<close>

definition append_tuner ::
  "'w platform \<Rightarrow> nat set \<Rightarrow> tv_tuner option \<Rightarrow> wbuf \<Rightarrow> (bool \<times> wbuf) res" where
  "append_tuner P lv tuner w =
     (case tuner of
        None \<Rightarrow> Inl Null_deref
      | Some t \<Rightarrow>
          andThen (load lv (t_id t)) (\<lambda>id.
          andThen (wbuf_append P [Arg0 id, ArgI (num_types t)] w) (\<lambda>(ok, w).
            if \<not> ok then Inr (False, w)
            else for_until (\<lambda>source_type_idx w.
                   andThen (load_at lv (supported_types t) source_type_idx) (\<lambda>sup_type.
                     wbuf_append P [ArgC sup_type] w)) 0 (unat (num_types t)) w)))"

text \<open>The format of \<open>append_channel\<close> has eight directives, the call seven arguments.\<close>

definition append_channel ::
  "'w platform \<Rightarrow> nat set \<Rightarrow> tv_channel option \<Rightarrow> wbuf \<Rightarrow> (bool \<times> wbuf) res" where
  "append_channel P lv ch w =
     (case ch of
        None \<Rightarrow> Inl Null_deref
      | Some c \<Rightarrow>
          andThen (load lv (network_id c)) (\<lambda>n.
          andThen (load lv (trans_stream_id c)) (\<lambda>t.
          andThen (load lv (service_id c)) (\<lambda>s.
          andThen (load lv (ch_number c)) (\<lambda>num.
            wbuf_append_fmt P [Fmt0, Fmt0, Fmt0, FmtC, Fmt0, Fmt0, FmtC, FmtC]
              [Arg0 n, Arg0 t, Arg0 s, ArgC (ch_type c), Arg0 num, ArgC (is_emergency c),
               ArgC (is_free c)] w)))))"

definition append_langs ::
  "'w platform \<Rightarrow> nat set \<Rightarrow> string ptr list ptr \<Rightarrow> u32 \<Rightarrow> wbuf \<Rightarrow> (bool \<times> wbuf) res" where
  "append_langs P lv arr num w =
     for_until (\<lambda>idx w. andThen (load_at lv arr idx) (\<lambda>p.
         andThen (load lv p) (\<lambda>s. wbuf_append P [Arg0 s] w))) 0 (unat num) w"

definition append_program ::
  "'w platform \<Rightarrow> nat set \<Rightarrow> tv_program option \<Rightarrow> wbuf \<Rightarrow> (bool \<times> wbuf) res" where
  "append_program P lv prog w =
     (case prog of
        None \<Rightarrow> Inl Null_deref
      | Some p \<Rightarrow>
          andThen (load lv (evt_id p)) (\<lambda>evt.
          andThen (load lv (descpt p)) (\<lambda>des.
          andThen (load lv (rating p)) (\<lambda>rat.
          andThen (wbuf_append P [Arg0 evt, ArgL (start_time p), ArgL (duration p), Arg0 des,
                                  Arg0 rat, ArgI (lang_num p)] w) (\<lambda>(ok, w).
            if \<not> ok then Inr (False, w)
            else andThen (append_langs P lv (langs p) (lang_num p) w) (\<lambda>(ok, w).
              if \<not> ok then Inr (False, w)
              else andThen (wbuf_append P [ArgI (stl_lang_num p)] w) (\<lambda>(ok, w).
                if \<not> ok then Inr (False, w)
                else append_langs P lv (stl_langs p) (lang_num p) w)))))))"

text \<open>
  The loops of the command handlers over an array of items: \<open>size += calculate(&arr[idx])\<close>, and
  \<open>if (append(pdu, &arr[idx]) < 0) goto cleanup\<close>.
\<close>

definition sum_sizes ::
  "('a option \<Rightarrow> u32 res) \<Rightarrow> nat set \<Rightarrow> 'a list ptr \<Rightarrow> u32 \<Rightarrow> u32 \<Rightarrow> u32 res" where
  "sum_sizes calc lv arr num init =
     for_loop (\<lambda>idx size. andThen (elem_ptr lv arr idx) (\<lambda>x.
         andThen (calc x) (\<lambda>n. Inr (size + n)))) 0 (unat num) init"

definition append_all ::
  "('a option \<Rightarrow> wbuf \<Rightarrow> (bool \<times> wbuf) res) \<Rightarrow> nat set \<Rightarrow> 'a list ptr \<Rightarrow> u32 \<Rightarrow> wbuf \<Rightarrow>
     (bool \<times> wbuf) res" where
  "append_all app lv arr num w =
     for_until (\<lambda>idx w. andThen (elem_ptr lv arr idx) (\<lambda>x. app x w)) 0 (unat num) w"

section \<open>Ancillary data\<close>

record msghdr =
  msg_control :: nat
  msg_controllen :: nat
  msg_rights :: "i32 list"   \<comment> \<open>the descriptors copied behind the control header\<close>

text \<open>
  \<open>tail_data\<close> lies at the aligned address; its fields are what \<open>set_source\<close> stored, provided it
  stored them at the same address. The control message is built behind the descriptors and
  must stay inside the tail area.
\<close>

definition build_ancillary_data :: "'w platform \<Rightarrow> wbuf \<Rightarrow> msghdr res" where
  "build_ancillary_data P w =
     andThen (ceil_align P (pdu_wbuf_tail P w) (ptr_size P)) (\<lambda>base.
       case wb_tail w of
         None \<Rightarrow> Inl Uninit_use
       | Some tail_data \<Rightarrow>
           if anc_base tail_data \<noteq> base then Inl Uninit_use
           else
             let fd_bytes = to_size P (4 * sint (anc_fd_num tail_data));
                 control = nat (int base + 4 + 4 * sint (anc_fd_num tail_data))
             in if cmsg_space P fd_bytes < cmsg_hdr P then Inl Null_deref
                else if 4 * length (anc_fds tail_data) < fd_bytes then Inl Uninit_use
                else if pdu_wbuf_tail P w + wb_tail_size w < control + cmsg_len P fd_bytes
                then Inl Out_of_bounds
                else Inr \<lparr>msg_control = control, msg_controllen = cmsg_len P fd_bytes,
                          msg_rights = take (fd_bytes div 4) (anc_fds tail_data)\<rparr>)"

section \<open>Writers\<close>

text \<open>A buffer with the encodings of some more arguments at its end.\<close>

definition wbuf_extend :: "(pdu_arg \<Rightarrow> u8 list) \<Rightarrow> pdu_arg list \<Rightarrow> wbuf \<Rightarrow> wbuf" where
  "wbuf_extend enc args w =
     w\<lparr>wb_pdu := (wb_pdu w)\<lparr>pdu_data := pdu_data (wb_pdu w) @ encodes enc args\<rparr>\<rparr>"

lemma wbuf_extend_simps [simp]:
  "wb_addr (wbuf_extend enc args w) = wb_addr w"
  "wb_size (wbuf_extend enc args w) = wb_size w"
  "wb_tail_size (wbuf_extend enc args w) = wb_tail_size w"
  "wb_ancillary (wbuf_extend enc args w) = wb_ancillary w"
  "wb_tail (wbuf_extend enc args w) = wb_tail w"
  "pdu_service (wb_pdu (wbuf_extend enc args w)) = pdu_service (wb_pdu w)"
  "pdu_opcode (wb_pdu (wbuf_extend enc args w)) = pdu_opcode (wb_pdu w)"
  "pdu_data (wb_pdu (wbuf_extend enc args w)) = pdu_data (wb_pdu w) @ encodes enc args"
  by (simp_all add: wbuf_extend_def)

lemma wbuf_extend_extend [simp]:
  "wbuf_extend enc bs (wbuf_extend enc as w) = wbuf_extend enc (as @ bs) w"
  by (simp add: wbuf_extend_def)

lemma wbuf_extend_Nil [simp]: "wbuf_extend enc [] w = w"
  by (simp add: wbuf_extend_def)

lemma wbuf_used_extend:
  "pdu_codec P enc \<Longrightarrow> wbuf_used (wbuf_extend enc args w) = wbuf_used w + args_size args"
  by (simp add: wbuf_used_def length_encodes)

text \<open>
  \<open>writes P enc app args\<close>: in a buffer with room for \<open>args\<close>, \<open>app\<close> appends their encodings, or a
  prefix of them and reports failure; it does not fail when the maximal PDU has room too.
\<close>

definition writes ::
  "'w platform \<Rightarrow> (pdu_arg \<Rightarrow> u8 list) \<Rightarrow> (wbuf \<Rightarrow> (bool \<times> wbuf) res) \<Rightarrow> pdu_arg list \<Rightarrow> bool" where
  "writes P enc app args \<longleftrightarrow>
     (\<forall>w. wbuf_used w + args_size args \<le> wb_size w \<longrightarrow>
        (\<exists>ok pre. app w = Inr (ok, wbuf_extend enc pre w) \<and> prefix pre args \<and>
           (ok \<longrightarrow> pre = args) \<and>
           (append_total P \<and> wbuf_used w + args_size args \<le> PDU_MAX_DATA_LENGTH P \<longrightarrow> ok)))"

lemma writesE:
  assumes "writes P enc app args" "wbuf_used w + args_size args \<le> wb_size w"
  obtains ok pre where "app w = Inr (ok, wbuf_extend enc pre w)" "prefix pre args"
    "ok \<longrightarrow> pre = args"
    "append_total P \<Longrightarrow> wbuf_used w + args_size args \<le> PDU_MAX_DATA_LENGTH P \<Longrightarrow> ok"
  using assms unfolding writes_def by blast

lemma writes_append:
  assumes "pdu_codec P enc" shows "writes P enc (wbuf_append P args) args"
  unfolding writes_def
proof (intro allI impI)
  fix w
  assume room: "wbuf_used w + args_size args \<le> wb_size w"
  show "\<exists>ok pre. wbuf_append P args w = Inr (ok, wbuf_extend enc pre w) \<and> prefix pre args \<and>
           (ok \<longrightarrow> pre = args) \<and>
           (append_total P \<and> wbuf_used w + args_size args \<le> PDU_MAX_DATA_LENGTH P \<longrightarrow> ok)"
  proof (cases "append_to_pdu P (wb_pdu w) args")
    case None
    then have "\<not> (append_total P \<and> wbuf_used w + args_size args \<le> PDU_MAX_DATA_LENGTH P)"
      by (auto simp: append_total_def wbuf_used_def)
    then show ?thesis
      using None by (intro exI [of _ False] exI [of _ "[]"]) (simp add: wbuf_append_def)
  next
    case (Some q)
    then have "q = (wb_pdu w)\<lparr>pdu_data := pdu_data (wb_pdu w) @ encodes enc args\<rparr>"
      using codec_append [OF assms] by blast
    then show ?thesis
      using Some room length_encodes [OF assms, of args]
      by (intro exI [of _ True] exI [of _ args])
        (simp add: wbuf_append_def wbuf_extend_def wbuf_used_def)
  qed
qed

text \<open>Sequencing, and early-exit loops of writers.\<close>

lemma writes_then:
  assumes codec: "pdu_codec P enc" and "writes P enc app1 as" and "writes P enc app2 bs"
  shows "writes P enc
           (\<lambda>w. andThen (app1 w) (\<lambda>(ok, w). if \<not> ok then Inr (False, w) else app2 w)) (as @ bs)"
  unfolding writes_def
proof (intro allI impI)
  fix w
  assume room: "wbuf_used w + args_size (as @ bs) \<le> wb_size w"
  let ?m = "\<lambda>w. andThen (app1 w) (\<lambda>(ok, w). if \<not> ok then Inr (False, w) else app2 w)"
  obtain ok1 d1 where 1: "app1 w = Inr (ok1, wbuf_extend enc d1 w)" "prefix d1 as"
    "ok1 \<longrightarrow> d1 = as"
    "append_total P \<Longrightarrow> wbuf_used w + args_size as \<le> PDU_MAX_DATA_LENGTH P \<Longrightarrow> ok1"
    using room by (auto intro: writesE [OF assms(2), of w])
  show "\<exists>ok pre. ?m w = Inr (ok, wbuf_extend enc pre w) \<and> prefix pre (as @ bs) \<and>
           (ok \<longrightarrow> pre = as @ bs) \<and>
           (append_total P \<and> wbuf_used w + args_size (as @ bs) \<le> PDU_MAX_DATA_LENGTH P \<longrightarrow> ok)"
  proof (cases ok1)
    case False
    with 1 show ?thesis by (intro exI [of _ False] exI [of _ d1]) auto
  next
    case True
    then have d1: "d1 = as" using 1 by simp
    have "wbuf_used (wbuf_extend enc as w) + args_size bs \<le> wb_size (wbuf_extend enc as w)"
      using room wbuf_used_extend [OF codec] by simp
    from writesE [OF assms(3) this] obtain ok2 d2 where
      2: "app2 (wbuf_extend enc as w) = Inr (ok2, wbuf_extend enc d2 (wbuf_extend enc as w))"
      "prefix d2 bs" "ok2 \<longrightarrow> d2 = bs"
      "append_total P \<Longrightarrow> wbuf_used w + args_size as + args_size bs \<le> PDU_MAX_DATA_LENGTH P \<Longrightarrow> ok2"
      using wbuf_used_extend [OF codec] by metis
    show ?thesis
      using True 1(1) d1 2 by (intro exI [of _ ok2] exI [of _ "as @ d2"]) (simp add: add.assoc)
  qed
qed

lemma writes_Nil: "writes P enc (\<lambda>w. Inr (True, w)) []"
  unfolding writes_def by (intro allI impI exI [of _ True] exI [of _ "[]"]) simp

lemma writes_loop:
  assumes codec: "pdu_codec P enc"
  shows "(\<And>k. i \<le> k \<Longrightarrow> k < i + n \<Longrightarrow> writes P enc (body k) (args k)) \<Longrightarrow>
         writes P enc (for_until body i n) (concat (map args [i..<i + n]))"
proof (induction n arbitrary: i)
  case 0
  have "for_until body i 0 = (\<lambda>w. Inr (True, w))" by (rule ext) simp
  with writes_Nil show ?case by simp
next
  case (Suc n)
  have "writes P enc (for_until body (Suc i) n) (concat (map args [Suc i..<Suc i + n]))"
    by (rule Suc.IH) (simp add: Suc.prems)
  from writes_then [OF codec Suc.prems [of i] this]
  have "writes P enc
      (\<lambda>w. andThen (body i w) (\<lambda>(ok, w). if \<not> ok then Inr (False, w) else for_until body (Suc i) n w))
      (args i @ concat (map args [Suc i..<Suc i + n]))" by simp
  moreover have "for_until body i (Suc n) = (\<lambda>w. andThen (body i w)
      (\<lambda>(ok, w). if \<not> ok then Inr (False, w) else for_until body (Suc i) n w))"
    by (rule ext) (auto intro!: arg_cong [of _ _ "andThen _"])
  moreover have "args i @ concat (map args [Suc i..<Suc i + n]) =
      concat (map args [i..<i + Suc n])" by (simp add: upt_rec)
  ultimately show ?case by simp
qed

section \<open>An interface: items with a calculated size\<close>

text \<open>
  What the command handlers rely on: the size function counts the octets of an item
  (\<open>counted_item\<close>), and what the append function writes is covered by that size (\<open>sized_item\<close>). The
  laws speak of items that are \<open>sound\<close>, i.e. whose pointers can be followed. Tuners, channels
  and programs are counted items; only tuners and programs are sized ones.
\<close>

locale counted_item =
  fixes sound :: "'x \<Rightarrow> bool" and calc :: "'x option \<Rightarrow> u32 res" and bytes :: "'x \<Rightarrow> nat"
  assumes calc_bytes: "sound x \<Longrightarrow> calc (Some x) = Inr (of_nat (bytes x))"
begin

lemma sum_sizes_eq:
  assumes a: "a \<in> lv" and sound: "list_all sound xs" and n: "unat num = length xs"
  shows "sum_sizes calc lv (Ptr a xs) num init = Inr (init + of_nat (sum_list (map bytes xs)))"
proof -
  define I where "I k z \<longleftrightarrow> z = init + of_nat (sum_list (map bytes (take k xs)))"
    for k and z :: u32
  have "\<exists>z. for_loop (\<lambda>idx z. andThen (elem_ptr lv (Ptr a xs) idx) (\<lambda>x.
          andThen (calc x) (\<lambda>m. Inr (z + m)))) 0 (length xs) init = Inr z \<and> I (0 + length xs) z"
  proof (rule for_loop_total)
    fix k z
    assume k: "0 \<le> k" "k < 0 + length xs" and "I k z"
    have "sound (xs ! k)" using sound k by (simp add: list_all_length)
    then show "\<exists>z'. andThen (elem_ptr lv (Ptr a xs) k) (\<lambda>x. andThen (calc x) (\<lambda>m. Inr (z + m))) =
        Inr z' \<and> I (Suc k) z'"
      using a k \<open>I k z\<close>
      by (simp add: elem_ptr_def calc_bytes I_def take_Suc_conv_app_nth algebra_simps)
  qed (simp add: I_def)
  then show ?thesis using n by (simp add: sum_sizes_def I_def)
qed

end

locale sized_item = counted_item sound calc bytes
  for sound :: "'x \<Rightarrow> bool" and calc :: "'x option \<Rightarrow> u32 res" and bytes :: "'x \<Rightarrow> nat" +
  fixes P :: "'w platform" and enc :: "pdu_arg \<Rightarrow> u8 list"
    and app :: "'x option \<Rightarrow> wbuf \<Rightarrow> (bool \<times> wbuf) res" and args :: "'x \<Rightarrow> pdu_arg list"
  assumes bytes_cover: "sound x \<Longrightarrow> args_size (args x) \<le> bytes x"
    and app_writes: "pdu_codec P enc \<Longrightarrow> sound x \<Longrightarrow> writes P enc (app (Some x)) (args x)"
begin

lemma args_size_concat:
  "list_all sound xs \<Longrightarrow> args_size (concat (map args xs)) \<le> sum_list (map bytes xs)"
proof (induction xs)
  case (Cons x xs)
  then show ?case using bytes_cover [of x] by simp
qed simp

lemma append_all_writes:
  assumes codec: "pdu_codec P enc" and a: "a \<in> lv" and sound: "list_all sound xs" and n: "unat num = length xs"
  shows "writes P enc (append_all app lv (Ptr a xs) num) (concat (map args xs))"
proof -
  have "writes P enc (for_until (\<lambda>idx w. andThen (elem_ptr lv (Ptr a xs) idx) (\<lambda>x. app x w)) 0
          (length xs)) (concat (map (\<lambda>k. args (xs ! k)) [0..<0 + length xs]))"
  proof (rule writes_loop [OF codec])
    fix k
    assume k: "0 \<le> k" "k < 0 + length xs"
    then have "sound (xs ! k)" using sound by (simp add: list_all_length)
    moreover have "(\<lambda>w. andThen (elem_ptr lv (Ptr a xs) k) (\<lambda>x. app x w)) = app (Some (xs ! k))"
      using a k by (intro ext) (simp add: elem_ptr_def)
    ultimately show "writes P enc (\<lambda>w. andThen (elem_ptr lv (Ptr a xs) k) (\<lambda>x. app x w))
        (args (xs ! k))" using app_writes codec by simp
  qed
  moreover have "map (\<lambda>k. args (xs ! k)) [0..<0 + length xs] = map args xs"
    by (rule nth_equalityI) simp_all
  moreover have "append_all app lv (Ptr a xs) num =
      for_until (\<lambda>idx w. andThen (elem_ptr lv (Ptr a xs) idx) (\<lambda>x. app x w)) 0 (length xs)"
    using n by (intro ext) (simp add: append_all_def)
  ultimately show ?thesis by simp
qed

text \<open>
  Together: a payload of a 4-octet count and the items, in a buffer of the size the handlers
  calculate for it, is written without leaving the buffer, unless that size wraps around.
\<close>

lemma counted_items_fit:
  assumes codec: "pdu_codec P enc" and a: "a \<in> lv" and sound: "list_all sound xs" and n: "unat num = length xs"
    and small: "4 + sum_list (map bytes xs) < 4294967296"
    and calc: "sum_sizes calc lv (Ptr a xs) num 4 = Inr need"
  shows "unat need = 4 + sum_list (map bytes xs)"
    and "writes P enc (\<lambda>w. andThen (wbuf_append P [ArgI num] w) (\<lambda>(ok, w).
           if \<not> ok then Inr (False, w) else append_all app lv (Ptr a xs) num w))
           (ArgI num # concat (map args xs))"
    and "args_size (ArgI num # concat (map args xs)) \<le> unat need"
proof -
  have "need = of_nat (4 + sum_list (map bytes xs))"
    using sum_sizes_eq [OF a sound n, of 4] calc by simp
  then show need: "unat need = 4 + sum_list (map bytes xs)"
    using small by (simp only: unat_of_nat) simp
  show "args_size (ArgI num # concat (map args xs)) \<le> unat need"
    using args_size_concat [OF sound] need by simp
  show "writes P enc (\<lambda>w. andThen (wbuf_append P [ArgI num] w) (\<lambda>(ok, w).
           if \<not> ok then Inr (False, w) else append_all app lv (Ptr a xs) num w))
           (ArgI num # concat (map args xs))"
    using writes_then [OF codec writes_append [OF codec, of "[ArgI num]"]
        append_all_writes [OF codec a sound n]] by simp
qed

text \<open>
  The sum is kept in 32 bits. While it does not wrap, the calculated size is exact and a buffer with
  that much room is not left; when it wraps, the calculated size is less than the items need.
\<close>

lemma calculated_room:
  assumes codec: "pdu_codec P enc" and a: "a \<in> lv" and sound: "list_all sound xs" and n: "unat num = length xs"
  shows "\<exists>need. sum_sizes calc lv (Ptr a xs) num init = Inr need \<and>
     (if unat init + sum_list (map bytes xs) < 4294967296
      then unat need = unat init + sum_list (map bytes xs) \<and>
        (\<forall>w. wbuf_used w + (unat need - unat init) \<le> wb_size w \<longrightarrow>
          (\<exists>ok pre. append_all app lv (Ptr a xs) num w = Inr (ok, wbuf_extend enc pre w) \<and>
             prefix pre (concat (map args xs)) \<and> (ok \<longrightarrow> pre = concat (map args xs))))
      else unat need < unat init + sum_list (map bytes xs))"
proof -
  let ?S = "sum_list (map bytes xs)"
  let ?need = "init + of_nat ?S :: u32"
  have calc: "sum_sizes calc lv (Ptr a xs) num init = Inr ?need" by (rule sum_sizes_eq [OF a sound n])
  have "?need = of_nat (unat init + ?S)" by simp
  then have "unat ?need = unat (of_nat (unat init + ?S) :: u32)" by (rule arg_cong)
  then have mod: "unat ?need = (unat init + ?S) mod 4294967296" by (simp only: unat_of_nat) simp
  show ?thesis
  proof (cases "unat init + ?S < 4294967296")
    case True
    then have exact: "unat ?need = unat init + ?S" using mod by simp
    have "\<forall>w. wbuf_used w + (unat ?need - unat init) \<le> wb_size w \<longrightarrow>
        (\<exists>ok pre. append_all app lv (Ptr a xs) num w = Inr (ok, wbuf_extend enc pre w) \<and>
           prefix pre (concat (map args xs)) \<and> (ok \<longrightarrow> pre = concat (map args xs)))"
    proof (intro allI impI)
      fix w
      assume room: "wbuf_used w + (unat ?need - unat init) \<le> wb_size w"
      have "wbuf_used w + args_size (concat (map args xs)) \<le> wb_size w"
        using args_size_concat [OF sound] room exact by linarith
      then show "\<exists>ok pre. append_all app lv (Ptr a xs) num w = Inr (ok, wbuf_extend enc pre w) \<and>
          prefix pre (concat (map args xs)) \<and> (ok \<longrightarrow> pre = concat (map args xs))"
        by (rule writesE [OF append_all_writes [OF codec a sound n]]) blast
    qed
    with True calc exact show ?thesis by (intro exI [of _ ?need]) (simp only: if_True simp_thms)
  next
    case False
    have "unat ?need < 4294967296" by (simp add: mod)
    with False calc show ?thesis by (intro exI [of _ ?need]) simp
  qed
qed

end

section \<open>Tuners, channels and programs are such items\<close>

definition cstring :: "nat set \<Rightarrow> string ptr \<Rightarrow> bool" where
  "cstring lv p \<longleftrightarrow> (case p of Ptr a s \<Rightarrow> a \<in> lv | _ \<Rightarrow> False)"

definition cstr :: "string ptr \<Rightarrow> string" where
  "cstr p = (case p of Ptr a s \<Rightarrow> s | _ \<Rightarrow> [])"

lemma cstring_load [simp]: "cstring lv p \<Longrightarrow> load lv p = Inr (cstr p)"
  by (cases p) (auto simp: cstring_def cstr_def)

lemma cstring_size [simp]: "cstring lv p \<Longrightarrow> str_size lv p = Inr (of_nat (length (cstr p) + 1))"
  by (simp add: str_size_def)

definition readable_tuner :: "nat set \<Rightarrow> tv_tuner \<Rightarrow> bool" where
  "readable_tuner lv t \<longleftrightarrow> cstring lv (t_id t) \<and>
     (num_types t = 0 \<or>
      (\<exists>b \<in> lv. \<exists>xs. supported_types t = Ptr b xs \<and> unat (num_types t) \<le> length xs))"

definition tuner_types :: "tv_tuner \<Rightarrow> u8 list" where
  "tuner_types t =
     (case supported_types t of Ptr b xs \<Rightarrow> take (unat (num_types t)) xs | _ \<Rightarrow> [])"

definition tuner_args :: "tv_tuner \<Rightarrow> pdu_arg list" where
  "tuner_args t = [Arg0 (cstr (t_id t)), ArgI (num_types t)] @ map ArgC (tuner_types t)"

definition readable_channel :: "nat set \<Rightarrow> tv_channel \<Rightarrow> bool" where
  "readable_channel lv c \<longleftrightarrow> cstring lv (network_id c) \<and> cstring lv (trans_stream_id c) \<and>
     cstring lv (service_id c) \<and> cstring lv (ch_number c) \<and> cstring lv (ch_name c)"

definition channel_bytes :: "tv_channel \<Rightarrow> nat" where
  "channel_bytes c =
     args_size [Arg0 (cstr (network_id c)), Arg0 (cstr (trans_stream_id c)), Arg0 (cstr (service_id c)),
       ArgC (ch_type c), Arg0 (cstr (ch_number c)), Arg0 (cstr (ch_name c)),
       ArgC (is_emergency c), ArgC (is_free c)]"

text \<open>A language array that can be read \<open>n\<close> times.\<close>

definition readable_langs :: "nat set \<Rightarrow> nat \<Rightarrow> string ptr list ptr \<Rightarrow> bool" where
  "readable_langs lv n p \<longleftrightarrow>
     n = 0 \<or> (\<exists>b \<in> lv. \<exists>ss. p = Ptr b ss \<and> n \<le> length ss \<and> list_all (cstring lv) (take n ss))"

definition lang_strs :: "nat \<Rightarrow> string ptr list ptr \<Rightarrow> string list" where
  "lang_strs n p = (case p of Ptr b ss \<Rightarrow> map cstr (take n ss) | _ \<Rightarrow> [])"

definition readable_program :: "nat set \<Rightarrow> tv_program \<Rightarrow> bool" where
  "readable_program lv p \<longleftrightarrow> cstring lv (evt_id p) \<and> cstring lv (title p) \<and>
     cstring lv (descpt p) \<and> cstring lv (rating p) \<and>
     readable_langs lv (unat (lang_num p)) (langs p) \<and>
     readable_langs lv (unat (lang_num p)) (stl_langs p)"

text \<open>The title is counted in the size of a program and is not written.\<close>

definition program_args :: "tv_program \<Rightarrow> pdu_arg list" where
  "program_args p =
     [Arg0 (cstr (evt_id p)), ArgL (start_time p), ArgL (duration p), Arg0 (cstr (descpt p)),
      Arg0 (cstr (rating p)), ArgI (lang_num p)] @
     map Arg0 (lang_strs (unat (lang_num p)) (langs p)) @ [ArgI (stl_lang_num p)] @
     map Arg0 (lang_strs (unat (lang_num p)) (stl_langs p))"

definition program_bytes :: "tv_program \<Rightarrow> nat" where
  "program_bytes p = args_size (program_args p) + length (cstr (title p)) + 1"

lemma args_size_map_C [simp]: "args_size (map ArgC xs) = length xs"
  by (induction xs) auto

lemma calculate_tuner_size_eq:
  assumes "readable_tuner lv t"
  shows "calculate_tuner_size lv (Some t) = Inr (of_nat (args_size (tuner_args t)))"
proof -
  have "length (tuner_types t) = unat (num_types t)"
    using assms by (auto simp: readable_tuner_def tuner_types_def split: ptr.splits)
  then show ?thesis
    using assms
    by (simp add: calculate_tuner_size_def readable_tuner_def tuner_args_def algebra_simps)
qed

lemma concat_nth_upt:
  "n = length xs \<Longrightarrow> concat (map (\<lambda>k. [f (xs ! k)]) [0..<0 + n]) = map f xs"
  using map_nth_upt [of "\<lambda>x. [f x]" xs] by (simp add: concat_map_singleton)

lemma append_tuner_writes:
  assumes codec: "pdu_codec P enc" and t: "readable_tuner lv t"
  shows "writes P enc (append_tuner P lv (Some t)) (tuner_args t)"
proof -
  let ?body = "\<lambda>source_type_idx w. andThen (load_at lv (supported_types t) source_type_idx)
      (\<lambda>sup_type. wbuf_append P [ArgC sup_type] w)"
  let ?n = "unat (num_types t)"
  have "writes P enc (for_until ?body 0 ?n) (concat (map (\<lambda>k. [ArgC (tuner_types t ! k)]) [0..<0 + ?n]))"
  proof (rule writes_loop [OF codec])
    fix k
    assume k: "0 \<le> k" "k < 0 + ?n"
    then have "num_types t \<noteq> 0" by auto
    with t obtain b xs where xs: "b \<in> lv" "supported_types t = Ptr b xs" "?n \<le> length xs"
      by (auto simp: readable_tuner_def)
    then have "?body k = wbuf_append P [ArgC (tuner_types t ! k)]"
      using k by (intro ext) (simp add: tuner_types_def)
    then show "writes P enc (?body k) [ArgC (tuner_types t ! k)]"
      using writes_append [OF codec] by simp
  qed
  moreover have "concat (map (\<lambda>k. [ArgC (tuner_types t ! k)]) [0..<0 + ?n]) = map ArgC (tuner_types t)"
    using t by (intro concat_nth_upt)
      (auto simp: readable_tuner_def tuner_types_def split: ptr.splits)
  ultimately have "writes P enc (for_until ?body 0 ?n) (map ArgC (tuner_types t))" by simp
  from writes_then [OF codec writes_append [OF codec, of "[Arg0 (cstr (t_id t)), ArgI (num_types t)]"] this]
  have "writes P enc (\<lambda>w. andThen (wbuf_append P [Arg0 (cstr (t_id t)), ArgI (num_types t)] w)
      (\<lambda>(ok, w). if \<not> ok then Inr (False, w) else for_until ?body 0 ?n w)) (tuner_args t)"
    by (simp add: tuner_args_def)
  moreover have "append_tuner P lv (Some t) =
      (\<lambda>w. andThen (wbuf_append P [Arg0 (cstr (t_id t)), ArgI (num_types t)] w)
        (\<lambda>(ok, w). if \<not> ok then Inr (False, w) else for_until ?body 0 ?n w))"
    using t by (intro ext) (simp add: append_tuner_def readable_tuner_def)
  ultimately show ?thesis by simp
qed

lemma calculate_ch_size_eq:
  assumes "readable_channel lv c"
  shows "calculate_ch_size lv (Some c) = Inr (of_nat (channel_bytes c))"
  using assms
  by (simp add: calculate_ch_size_def readable_channel_def channel_bytes_def algebra_simps)

text \<open>
  \<open>append_channel\<close> does not return: \<open>append_to_pdu\<close> reads the emergency flag as a string and, in the
  end, an argument that was not passed.
\<close>

lemma append_channel_never_returns: "append_channel P lv ch w \<noteq> Inr r"
  by (auto simp: append_channel_def andThen_Inr_iff wbuf_append_fmt_def split: option.splits)

lemma append_channel_faults:
  "readable_channel lv c \<Longrightarrow> append_channel P lv (Some c) w = Inl Bad_vararg"
  by (simp add: append_channel_def readable_channel_def wbuf_append_fmt_def)

lemma readable_langs_nth:
  assumes "readable_langs lv n p" "k < n"
  shows "\<exists>q. load_at lv p k = Inr q \<and> cstring lv q \<and> cstr q = lang_strs n p ! k"
proof -
  obtain b ss where p: "b \<in> lv" "p = Ptr b ss" "n \<le> length ss" "list_all (cstring lv) (take n ss)"
    using assms by (auto simp: readable_langs_def)
  then have "cstring lv (ss ! k)" using assms(2) by (auto simp: list_all_length)
  then show ?thesis using p assms(2) by (simp add: lang_strs_def)
qed

lemma length_lang_strs: "readable_langs lv n p \<Longrightarrow> length (lang_strs n p) = n"
  by (auto simp: readable_langs_def lang_strs_def split: ptr.splits)

lemma add_lang_sizes_eq:
  assumes r: "readable_langs lv (unat num) p"
  shows "add_lang_sizes lv p num init =
           Inr (init + of_nat (args_size (map Arg0 (lang_strs (unat num) p))))"
proof -
  let ?ss = "lang_strs (unat num) p"
  define I where "I k z \<longleftrightarrow> z = init + of_nat (args_size (map Arg0 (take k ?ss)))"
    for k and z :: u32
  have len: "length ?ss = unat num" using length_lang_strs [OF r] .
  have "\<exists>z. for_loop (\<lambda>idx z. andThen (load_at lv p idx) (\<lambda>s.
      andThen (str_size lv s) (\<lambda>n. Inr (z + n)))) 0 (unat num) init = Inr z \<and> I (0 + unat num) z"
  proof (rule for_loop_total)
    fix k z
    assume k: "0 \<le> k" "k < 0 + unat num" and "I k z"
    then obtain q where "load_at lv p k = Inr q" "cstring lv q" "cstr q = ?ss ! k"
      using readable_langs_nth [OF r, of k] by auto
    then show "\<exists>z'. andThen (load_at lv p k) (\<lambda>s. andThen (str_size lv s) (\<lambda>n. Inr (z + n))) =
        Inr z' \<and> I (Suc k) z'"
      using \<open>I k z\<close> k len by (simp add: I_def take_Suc_conv_app_nth algebra_simps)
  qed (simp add: I_def)
  then show ?thesis using len by (simp add: add_lang_sizes_def I_def)
qed

lemma append_langs_writes:
  assumes codec: "pdu_codec P enc" and r: "readable_langs lv (unat num) p"
  shows "writes P enc (append_langs P lv p num) (map Arg0 (lang_strs (unat num) p))"
proof -
  let ?body = "\<lambda>idx w. andThen (load_at lv p idx) (\<lambda>q.
      andThen (load lv q) (\<lambda>s. wbuf_append P [Arg0 s] w))"
  let ?ss = "lang_strs (unat num) p"
  have "writes P enc (for_until ?body 0 (unat num)) (concat (map (\<lambda>k. [Arg0 (?ss ! k)]) [0..<0 + unat num]))"
  proof (rule writes_loop [OF codec])
    fix k
    assume k: "0 \<le> k" "k < 0 + unat num"
    then obtain q where "load_at lv p k = Inr q" "cstring lv q" "cstr q = ?ss ! k"
      using readable_langs_nth [OF r, of k] by auto
    then have "?body k = wbuf_append P [Arg0 (?ss ! k)]" by (intro ext) simp
    then show "writes P enc (?body k) [Arg0 (?ss ! k)]" using writes_append [OF codec] by simp
  qed
  moreover have "concat (map (\<lambda>k. [Arg0 (?ss ! k)]) [0..<0 + unat num]) = map Arg0 ?ss"
    using length_lang_strs [OF r] by (intro concat_nth_upt) simp
  moreover have "append_langs P lv p num = for_until ?body 0 (unat num)"
    by (intro ext) (simp add: append_langs_def)
  ultimately show ?thesis by simp
qed

lemma calculate_prog_size_eq:
  assumes "readable_program lv p"
  shows "calculate_prog_size lv (Some p) = Inr (of_nat (program_bytes p))"
  using assms
  by (simp add: calculate_prog_size_def readable_program_def program_bytes_def program_args_def
      add_lang_sizes_eq algebra_simps)

lemma append_program_writes:
  assumes codec: "pdu_codec P enc" and p: "readable_program lv p"
  shows "writes P enc (append_program P lv (Some p)) (program_args p)"
proof -
  let ?head = "[Arg0 (cstr (evt_id p)), ArgL (start_time p), ArgL (duration p),
      Arg0 (cstr (descpt p)), Arg0 (cstr (rating p)), ArgI (lang_num p)]"
  have r: "readable_langs lv (unat (lang_num p)) (langs p)"
    "readable_langs lv (unat (lang_num p)) (stl_langs p)"
    using p by (simp_all add: readable_program_def)
  note w = writes_then [OF codec writes_append [OF codec, of ?head]
      writes_then [OF codec append_langs_writes [OF codec r(1)]
        writes_then [OF codec writes_append [OF codec, of "[ArgI (stl_lang_num p)]"]
          append_langs_writes [OF codec r(2)]]]]
  have "append_program P lv (Some p) = (\<lambda>w. andThen (wbuf_append P ?head w) (\<lambda>(ok, w).
      if \<not> ok then Inr (False, w) else andThen (append_langs P lv (langs p) (lang_num p) w) (\<lambda>(ok, w).
      if \<not> ok then Inr (False, w) else andThen (wbuf_append P [ArgI (stl_lang_num p)] w) (\<lambda>(ok, w).
      if \<not> ok then Inr (False, w) else append_langs P lv (stl_langs p) (lang_num p) w))))"
    using p by (intro ext) (simp add: append_program_def readable_program_def)
  with w show ?thesis by (simp add: program_args_def)
qed

interpretation tuner_item: sized_item "readable_tuner lv" "calculate_tuner_size lv"
  "\<lambda>t. args_size (tuner_args t)" P enc "append_tuner P lv" tuner_args for P enc lv
  by unfold_locales (auto intro: calculate_tuner_size_eq append_tuner_writes)

interpretation channel_item: counted_item "readable_channel lv" "calculate_ch_size lv"
  channel_bytes for lv
  by unfold_locales (rule calculate_ch_size_eq)

interpretation program_item: sized_item "readable_program lv" "calculate_prog_size lv"
  program_bytes P enc "append_program P lv" program_args for P enc lv
  by unfold_locales
    (simp_all add: calculate_prog_size_eq append_program_writes, simp add: program_bytes_def)

section \<open>What ends up in the PDU\<close>

text \<open>Reading a written tuner back, in the format of \<open>append_tuner\<close>, gives its fields.\<close>

lemma tuner_read_back:
  assumes codec: "pdu_codec P enc" and t: "readable_tuner lv t"
    and ok: "append_tuner P lv (Some t) w = Inr (True, w')"
    and room: "wbuf_used w + args_size (tuner_args t) \<le> wb_size w"
    and strs: "arg_ok (Arg0 (cstr (t_id t)))"
  shows "read_pdu_at P (wb_pdu w') (wbuf_used w)
           (Fmt0 # FmtI # replicate (unat (num_types t)) FmtC) = Some (tuner_args t)"
proof -
  from writesE [OF append_tuner_writes [OF codec t] room] ok
  have "w' = wbuf_extend enc (tuner_args t) w" by (metis Inr_inject prod.inject)
  moreover have "list_all arg_ok (tuner_args t)"
    using strs by (simp add: tuner_args_def list_all_iff)
  ultimately have "read_pdu_at P (wb_pdu w') (length (pdu_data (wb_pdu w)))
      (map arg_fmt (tuner_args t)) = Some (tuner_args t)"
    by (intro codec_read [OF codec, where ys = "[]"]) simp_all
  moreover have "length (tuner_types t) = unat (num_types t)"
    using t by (auto simp: readable_tuner_def tuner_types_def split: ptr.splits)
  then have "map arg_fmt (tuner_args t) = Fmt0 # FmtI # replicate (unat (num_types t)) FmtC"
    by (simp add: tuner_args_def o_def map_replicate_const)
  ultimately show ?thesis by (simp add: wbuf_used_def)
qed

section \<open>Control messages\<close>

text \<open>
  A tail area of the size \<open>set_source\<close> asks for holds the aligned structure, its descriptors and
  the control message behind them, for any count of descriptors, as long as the area does
  not reach the end of the address space.
\<close>

definition tail_area_size :: "'w platform \<Rightarrow> nat \<Rightarrow> nat" where
  "tail_area_size P n = ptr_size P + 4 + 4 * n + cmsg_space P (4 * n)"

lemma build_ancillary_data_eq:
  assumes ptr: "0 < ptr_size P" and base: "ceil_align P (pdu_wbuf_tail P w) (ptr_size P) = Inr base"
    and tail: "wb_tail w = Some \<lparr>anc_base = base, anc_fd_num = fd_num, anc_fds = fds\<rparr>"
    and n: "sint fd_num = int (length fds)"
    and small: "pdu_wbuf_tail P w + ptr_size P < address_space P" "4 * length fds < address_space P"
    and cmsg: "cmsg_hdr P \<le> cmsg_space P (4 * length fds)"
      "cmsg_len P (4 * length fds) \<le> cmsg_space P (4 * length fds)"
    and size: "tail_area_size P (length fds) \<le> wb_tail_size w"
  shows "build_ancillary_data P w =
           Inr \<lparr>msg_control = base + 4 + 4 * length fds, msg_controllen = cmsg_len P (4 * length fds),
                msg_rights = fds\<rparr>"
proof -
  have q: "base \<le> pdu_wbuf_tail P w + ptr_size P"
    using ceil_align_range(2) [OF ptr small(1) base] .
  have "int (4 * length fds) < int (2 ^ (8 * ptr_size P))"
    using small(2) unfolding address_space_def by (subst of_nat_less_iff)
  then have "4 * int (length fds) < 2 ^ (8 * ptr_size P)" by simp
  then have bytes: "to_size P (4 * sint fd_num) = 4 * length fds"
    using n by (subst to_size_id) simp_all
  have ctl: "nat (int base + 4 + 4 * sint fd_num) = base + 4 + 4 * length fds"
    using n by simp
  have "base + 4 + 4 * length fds + cmsg_len P (4 * length fds) \<le> pdu_wbuf_tail P w + wb_tail_size w"
    using q size cmsg(2) by (simp add: tail_area_size_def)
  then show ?thesis
    using base tail bytes ctl cmsg(1) by (simp add: build_ancillary_data_def Let_def)
qed

section \<open>Properties\<close>

definition sample_wbuf :: "nat \<Rightarrow> wbuf" where
  "sample_wbuf n = \<lparr>wb_addr = 20, wb_size = n, wb_tail_size = 64, wb_ancillary = True,
     wb_tail = Some \<lparr>anc_base = 4096 + n + 8 - n mod 8, anc_fd_num = 2, anc_fds = [4, 5]\<rparr>,
     wb_pdu = \<lparr>pdu_service = 0x01, pdu_opcode = 0x01, pdu_data = []\<rparr>\<rparr>"

text \<open>
  C26: The size calculated for a list of readable tuners on top of \<open>init\<close>, a 32-bit sum. If the sum does
  not wrap it is exactly what the tuners need, and appending them to a buffer in which that much room is
  left never leaves the buffer; a failed append leaves a prefix of the list behind. If the sum wraps,
  the calculated size is less than the tuners need.
\<close>

theorem tuner_list_fits:
  assumes "pdu_codec P enc" and "a \<in> lv" and "list_all (readable_tuner lv) ts"
    and "unat num = length ts"
  shows "\<exists>need. sum_sizes (calculate_tuner_size lv) lv (Ptr a ts) num init = Inr need \<and>
     (if unat init + sum_list (map (\<lambda>t. args_size (tuner_args t)) ts) < 4294967296
      then unat need = unat init + sum_list (map (\<lambda>t. args_size (tuner_args t)) ts) \<and>
        (\<forall>w. wbuf_used w + (unat need - unat init) \<le> wb_size w \<longrightarrow>
          (\<exists>ok pre. append_all (append_tuner P lv) lv (Ptr a ts) num w = Inr (ok, wbuf_extend enc pre w) \<and>
             prefix pre (concat (map tuner_args ts)) \<and> (ok \<longrightarrow> pre = concat (map tuner_args ts))))
      else unat need < unat init + sum_list (map (\<lambda>t. args_size (tuner_args t)) ts))"
  by (rule tuner_item.calculated_room [where P = P and enc = enc, OF assms])

theorem tuner_list_fits_witness:
  "sum_sizes (calculate_tuner_size {1, 2, 3}) {1, 2, 3} (Ptr 1 [sample_tuner]) 1 4 = Inr 11 \<and>
   (\<exists>r. append_all (append_tuner sample_platform {1, 2, 3}) {1, 2, 3} (Ptr 1 [sample_tuner]) 1
      (sample_wbuf 7) = Inr r)"
proof -
  have r: "list_all (readable_tuner {1, 2, 3}) [sample_tuner]"
    by (simp add: readable_tuner_def cstring_def sample_tuner_def)
  have z: "sum_list (map (\<lambda>t. args_size (tuner_args t)) [sample_tuner]) = 7"
    by (simp add: cstr_def tuner_args_def tuner_types_def sample_tuner_def)
  from tuner_list_fits [OF sample_codec _ r, of 1 1 4] z obtain need where
    n: "sum_sizes (calculate_tuner_size {1, 2, 3}) {1, 2, 3} (Ptr 1 [sample_tuner]) 1 4 = Inr need"
      "unat need = 11"
    and w: "\<forall>w. wbuf_used w + (unat need - 4) \<le> wb_size w \<longrightarrow>
      (\<exists>r. append_all (append_tuner sample_platform {1, 2, 3}) {1, 2, 3} (Ptr 1 [sample_tuner]) 1 w = Inr r)"
    by fastforce
  from n(2) have "need = 11" by (simp add: word_unat_eq_iff)
  with n w show ?thesis by (auto simp: wbuf_used_def sample_wbuf_def)
qed

text \<open>
  C27: The same for readable programs, whose calculated size also counts the title, which is not
  appended. Both language loops run to the number of audio languages, so readable means that there are
  at least as many subtitle languages to read.
\<close>

theorem program_list_fits:
  assumes "pdu_codec P enc" and "a \<in> lv" and "list_all (readable_program lv) ps"
    and "unat num = length ps"
  shows "\<exists>need. sum_sizes (calculate_prog_size lv) lv (Ptr a ps) num init = Inr need \<and>
     (if unat init + sum_list (map program_bytes ps) < 4294967296
      then unat need = unat init + sum_list (map program_bytes ps) \<and>
        (\<forall>w. wbuf_used w + (unat need - unat init) \<le> wb_size w \<longrightarrow>
          (\<exists>ok pre. append_all (append_program P lv) lv (Ptr a ps) num w = Inr (ok, wbuf_extend enc pre w) \<and>
             prefix pre (concat (map program_args ps)) \<and> (ok \<longrightarrow> pre = concat (map program_args ps))))
      else unat need < unat init + sum_list (map program_bytes ps))"
  by (rule program_item.calculated_room [where P = P and enc = enc, OF assms])

definition subtitled_program :: tv_program where
  "subtitled_program = (sample_program 2)\<lparr>stl_lang_num := 1, stl_langs := Ptr 8 [Ptr 9 ''fra'']\<rparr>"

theorem program_list_fits_witness:
  "\<exists>need. sum_sizes (calculate_prog_size {1..9}) {1..9} (Ptr 1 [subtitled_program]) 1 4 = Inr need \<and>
     unat need = 43 \<and>
     (\<exists>r. append_all (append_program sample_platform {1..9}) {1..9} (Ptr 1 [subtitled_program]) 1
        (sample_wbuf 39) = Inr r)"
proof -
  have r: "list_all (readable_program {1..9}) [subtitled_program]"
    by (simp add: readable_program_def readable_langs_def cstring_def subtitled_program_def sample_program_def)
  have z: "sum_list (map program_bytes [subtitled_program]) = 39"
    by (simp add: program_bytes_def program_args_def lang_strs_def cstr_def subtitled_program_def
        sample_program_def)
  have used: "wbuf_used (sample_wbuf 39) = 0" "wb_size (sample_wbuf 39) = 39"
    by (simp_all add: wbuf_used_def sample_wbuf_def)
  from program_list_fits [OF sample_codec _ r, of 1 1 4] z obtain need where
    n: "sum_sizes (calculate_prog_size {1..9}) {1..9} (Ptr 1 [subtitled_program]) 1 4 = Inr need"
      "unat need = 43"
    and w: "\<forall>w. wbuf_used w + (unat need - 4) \<le> wb_size w \<longrightarrow>
      (\<exists>r. append_all (append_program sample_platform {1..9}) {1..9} (Ptr 1 [subtitled_program]) 1 w = Inr r)"
    by fastforce
  from w [rule_format, of "sample_wbuf 39"] used n show ?thesis by auto
qed

text \<open>
  C28: A tuner that was appended with success is read back, in the format of the append, as its id,
  the number of its source types and the types.
\<close>

theorem tuner_roundtrip:
  assumes "pdu_codec P enc" and "readable_tuner lv t"
    and "append_tuner P lv (Some t) w = Inr (True, w')"
    and "wbuf_used w + args_size (tuner_args t) \<le> wb_size w" and "arg_ok (Arg0 (cstr (t_id t)))"
  shows "read_pdu_at P (wb_pdu w') (wbuf_used w)
           (Fmt0 # FmtI # replicate (unat (num_types t)) FmtC) = Some (tuner_args t)"
  using assms by (rule tuner_read_back)

theorem tuner_roundtrip_witness:
  "\<exists>w'. append_tuner sample_platform {2, 3} (Some sample_tuner) (sample_wbuf 7) = Inr (True, w') \<and>
     sample_dec [Fmt0, FmtI, FmtC] (pdu_data (wb_pdu w')) = Some [Arg0 ''7'', ArgI 1, ArgC 1]"
proof -
  have r: "readable_tuner {2, 3} sample_tuner"
    by (simp add: readable_tuner_def cstring_def sample_tuner_def)
  have b: "args_size (tuner_args sample_tuner) = 7" "wbuf_used (sample_wbuf 7) = 0"
    "wb_size (sample_wbuf 7) = 7"
    by (simp_all add: tuner_args_def tuner_types_def cstr_def sample_tuner_def wbuf_used_def sample_wbuf_def)
  then have "wbuf_used (sample_wbuf 7) + args_size (tuner_args sample_tuner) \<le> wb_size (sample_wbuf 7)"
    by simp
  from writesE [OF append_tuner_writes [OF sample_codec r] this] obtain ok pre
    where res: "append_tuner sample_platform {2, 3} (Some sample_tuner) (sample_wbuf 7) =
        Inr (ok, wbuf_extend sample_enc pre (sample_wbuf 7))"
      and tot: "append_total sample_platform \<Longrightarrow> wbuf_used (sample_wbuf 7) +
        args_size (tuner_args sample_tuner) \<le> PDU_MAX_DATA_LENGTH sample_platform \<Longrightarrow> ok"
    by blast
  have ok using tot sample_append_total b by simp
  with res obtain w' where
    w': "append_tuner sample_platform {2, 3} (Some sample_tuner) (sample_wbuf 7) = Inr (True, w')" by simp
  then show ?thesis
    using tuner_roundtrip [OF sample_codec r w'] b
    by (simp add: tuner_args_def tuner_types_def cstr_def sample_tuner_def)
qed

end
