(* ===== verification/Dtv_Io.thy ===== *)
theory Dtv_Io
  imports Tvd_State Dtv_Pdu
begin

text \<open>
  dtv_io.c: the DTV service. Its command handlers read the arguments of a command, call the
  vendor functions of dtv.h, and send a response of a size calculated beforehand; its
  notifications are built in the same way and posted to the I/O thread. The vendor functions
  are the argument \<open>A\<close>, so that what is shown of the service holds for any implementation of
  dtv.h that keeps the stated contract, dtv.c being one of them.
\<close>

section \<open>Opcodes\<close>

definition OPCODE_GET_TUNERS :: u8 where "OPCODE_GET_TUNERS = 0x01"
definition OPCODE_SET_SOURCE :: u8 where "OPCODE_SET_SOURCE = 0x02"
definition OPCODE_START_SCAN :: u8 where "OPCODE_START_SCAN = 0x03"
definition OPCODE_STOP_SCAN :: u8 where "OPCODE_STOP_SCAN = 0x04"
definition OPCODE_CLEAR_CACHE :: u8 where "OPCODE_CLEAR_CACHE = 0x05"
definition OPCODE_SET_CHANNEL :: u8 where "OPCODE_SET_CHANNEL = 0x06"
definition OPCODE_GET_CHANNEL :: u8 where "OPCODE_GET_CHANNEL = 0x07"
definition OPCODE_GET_PROGRAM :: u8 where "OPCODE_GET_PROGRAM = 0x08"
definition OPCODE_CHANNEL_SCANNED :: u8 where "OPCODE_CHANNEL_SCANNED = 0x81"
definition OPCODE_SCANNED_COMPLETE :: u8 where "OPCODE_SCANNED_COMPLETE = 0x82"
definition OPCODE_SCAN_STOPPED :: u8 where "OPCODE_SCAN_STOPPED = 0x83"
definition OPCODE_EIT_BROADCASTED :: u8 where "OPCODE_EIT_BROADCASTED = 0x84"

lemmas dtv_opcode_defs =
  OPCODE_GET_TUNERS_def OPCODE_SET_SOURCE_def OPCODE_START_SCAN_def OPCODE_STOP_SCAN_def
  OPCODE_CLEAR_CACHE_def OPCODE_SET_CHANNEL_def OPCODE_GET_CHANNEL_def OPCODE_GET_PROGRAM_def

section \<open>Notifications\<close>

text \<open>\<open>send_ntf_pdu\<close>, run on the I/O thread; without a send function the buffer is dropped.\<close>

definition send_ntf_pdu :: "'w platform \<Rightarrow> wbuf \<Rightarrow> 'w sys \<Rightarrow> 'w sys res" where
  "send_ntf_pdu P w s =
     (case dtv_send_pdu s of None \<Rightarrow> Inr s | Some f \<Rightarrow> call_send P (Some f) w s)"

text \<open>The end of each notification: post it, and destroy the buffer if any step failed.\<close>

definition post_ntf :: "'w platform \<Rightarrow> bool \<times> wbuf \<Rightarrow> 'w sys \<Rightarrow> 'w sys res" where
  "post_ntf P = (\<lambda>(ok, w) s.
     if \<not> ok then on_env (destroy_pdu_wbuf w) s
     else case ext_call (run_task P w) (s_env s) of
            (r, e) \<Rightarrow>
              if r < 0 then on_env (destroy_pdu_wbuf w) (s\<lparr>s_env := e\<rparr>)
              else Inr (s\<lparr>s_env := e, tasks := tasks s @ [w]\<rparr>))"

text \<open>\<open>size_t\<close> sums that start with \<open>strlen(tuner_id) + 1\<close>.\<close>

definition ntf_size :: "'w platform \<Rightarrow> string \<Rightarrow> u32 \<Rightarrow> nat" where
  "ntf_size P tid rest = to_size P (int (length tid) + 1 + 1 + uint rest)"

definition channel_scanned_cb ::
  "'w platform \<Rightarrow> string ptr \<Rightarrow> u8 \<Rightarrow> tv_channel list ptr \<Rightarrow> 'w sys \<Rightarrow> 'w sys res" where
  "channel_scanned_cb P tuner_id source_type ch s =
     (if tuner_id = Null then Inr s
      else
        andThen (load (live (s_env s)) tuner_id) (\<lambda>tid.
        andThen (elem_ptr (live (s_env s)) ch 0) (\<lambda>c.
        andThen (calculate_ch_size (live (s_env s)) c) (\<lambda>ch_size.
          case sys_create_wbuf P (ntf_size P tid ch_size) 0 False s of
            (None, s) \<Rightarrow> Inr s
          | (Some w, s) \<Rightarrow>
              andThen (wbuf_append P [Arg0 tid, ArgC source_type]
                         (init_pdu SERVICE_DTV OPCODE_CHANNEL_SCANNED w)) (\<lambda>(ok, w).
              andThen (if \<not> ok then Inr (False, w)
                       else append_channel P (live (s_env s)) c w) (\<lambda>r. post_ntf P r s))))))"

definition scanned_complete_cb ::
  "'w platform \<Rightarrow> string ptr \<Rightarrow> u8 \<Rightarrow> 'w sys \<Rightarrow> 'w sys res" where
  "scanned_complete_cb P tuner_id source_type s =
     (if tuner_id = Null then Inr s
      else
        andThen (load (live (s_env s)) tuner_id) (\<lambda>tid.
          case sys_create_wbuf P (ntf_size P tid 0) 0 False s of
            (None, s) \<Rightarrow> Inr s
          | (Some w, s) \<Rightarrow>
              andThen (wbuf_append P [Arg0 tid, ArgC source_type]
                         (init_pdu SERVICE_DTV OPCODE_SCANNED_COMPLETE w)) (\<lambda>r.
                post_ntf P r s)))"

definition scanned_stopped_cb ::
  "'w platform \<Rightarrow> string ptr \<Rightarrow> u8 \<Rightarrow> 'w sys \<Rightarrow> 'w sys res" where
  "scanned_stopped_cb P tuner_id source_type s =
     (if tuner_id = Null then Inr s
      else
        andThen (load (live (s_env s)) tuner_id) (\<lambda>tid.
          case sys_create_wbuf P (ntf_size P tid 0) 0 False s of
            (None, s) \<Rightarrow> Inr s
          | (Some w, s) \<Rightarrow>
              andThen (wbuf_append P [Arg0 tid, ArgC source_type]
                         (init_pdu SERVICE_DTV OPCODE_SCAN_STOPPED w)) (\<lambda>r.
                post_ntf P r s)))"

definition eit_broadcasted_cb ::
  "'w platform \<Rightarrow> string ptr \<Rightarrow> u8 \<Rightarrow> tv_channel list ptr \<Rightarrow> u32 \<Rightarrow> tv_program list ptr \<Rightarrow>
     'w sys \<Rightarrow> 'w sys res" where
  "eit_broadcasted_cb P tuner_id source_type ch prog_num progs s =
     (if tuner_id = Null then Inr s
      else
        andThen (sum_sizes (calculate_prog_size (live (s_env s))) (live (s_env s)) progs prog_num 0)
          (\<lambda>prog_size.
        andThen (load (live (s_env s)) tuner_id) (\<lambda>tid.
        andThen (elem_ptr (live (s_env s)) ch 0) (\<lambda>c.
        andThen (calculate_ch_size (live (s_env s)) c) (\<lambda>ch_size.
          case sys_create_wbuf P
                 (to_size P (int (length tid) + 1 + 1 + uint ch_size + 4 + uint prog_size)) 0 False s of
            (None, s) \<Rightarrow> Inr s
          | (Some w, s) \<Rightarrow>
              andThen (wbuf_append P [Arg0 tid, ArgC source_type]
                         (init_pdu SERVICE_DTV OPCODE_EIT_BROADCASTED w)) (\<lambda>(ok, w).
              andThen (if \<not> ok then Inr (False, w)
                       else append_channel P (live (s_env s)) c w) (\<lambda>(ok, w).
              andThen (if \<not> ok then Inr (False, w)
                       else wbuf_append P [ArgI prog_num] w) (\<lambda>(ok, w).
              andThen (if \<not> ok then Inr (False, w)
                       else append_all (append_program P (live (s_env s))) (live (s_env s)) progs
                              prog_num w) (\<lambda>r. post_ntf P r s)))))))))"

definition channel_update_nfy_cb ::
  "'w platform \<Rightarrow> u8 \<Rightarrow> string ptr \<Rightarrow> u8 \<Rightarrow> tv_channel list ptr \<Rightarrow> 'w sys \<Rightarrow> 'w sys res" where
  "channel_update_nfy_cb P ch_status tuner_id source_type ch s =
     (if ch_status = DTV_CHANNEL_ADD then channel_scanned_cb P tuner_id source_type ch s
      else Inr s)"

definition scan_status_nfy_cb ::
  "'w platform \<Rightarrow> u8 \<Rightarrow> string ptr \<Rightarrow> u8 \<Rightarrow> 'w sys \<Rightarrow> 'w sys res" where
  "scan_status_nfy_cb P scan_status tuner_id source_type s =
     (if scan_status = DTV_SCAN_COMPLETE then scanned_complete_cb P tuner_id source_type s
      else if scan_status = DTV_SCAN_STOPPED then scanned_stopped_cb P tuner_id source_type s
      else Inr s)"

definition event_nfy_cb ::
  "'w platform \<Rightarrow> string ptr \<Rightarrow> u8 \<Rightarrow> tv_channel list ptr \<Rightarrow> u32 \<Rightarrow> tv_program list ptr \<Rightarrow>
     'w sys \<Rightarrow> 'w sys res" where
  "event_nfy_cb P tuner_id source_type ch prog_num progs s =
     eit_broadcasted_cb P tuner_id source_type ch prog_num progs s"

section \<open>Commands\<close>

text \<open>
  An empty response: the end of \<open>start_scan\<close>, \<open>stop_scan\<close> and \<open>clean_cache\<close>.
\<close>

definition reply_empty :: "'w platform \<Rightarrow> pdu \<Rightarrow> 'w sys \<Rightarrow> (int \<times> 'w sys) res" where
  "reply_empty P cmd s =
     (case sys_create_wbuf P 0 0 False s of
        (None, s) \<Rightarrow> Inr (ERROR_NOMEM, s)
      | (Some w, s) \<Rightarrow>
          andThen (call_send P (dtv_send_pdu s)
                     (init_pdu (pdu_service cmd) (pdu_opcode cmd) w) s)
            (\<lambda>s. Inr (ERROR_NONE, s)))"

text \<open>
  A response with a number of items, which are then released: the common end of \<open>get_tuners\<close>,
  \<open>get_channels\<close> and \<open>get_programs\<close>, from the calculation of the size on.
\<close>

definition reply_items ::
  "'w platform \<Rightarrow> (nat set \<Rightarrow> 'a option \<Rightarrow> u32 res) \<Rightarrow>
     (nat set \<Rightarrow> 'a option \<Rightarrow> wbuf \<Rightarrow> (bool \<times> wbuf) res) \<Rightarrow>
     (u32 \<Rightarrow> 'a list ptr \<Rightarrow> 'w env \<Rightarrow> 'w env res) \<Rightarrow>
     pdu \<Rightarrow> u32 \<Rightarrow> 'a list ptr \<Rightarrow> 'w sys \<Rightarrow> (int \<times> 'w sys) res" where
  "reply_items P calc app release cmd num items s =
     andThen (sum_sizes (calc (live (s_env s))) (live (s_env s)) items num 4) (\<lambda>pdu_size.
       case sys_create_wbuf P (unat pdu_size) 0 False s of
         (None, s) \<Rightarrow> Inr (ERROR_NOMEM, s)
       | (Some w, s) \<Rightarrow>
           andThen (wbuf_append P [ArgI num] (init_pdu (pdu_service cmd) (pdu_opcode cmd) w))
             (\<lambda>(ok, w).
           andThen (if \<not> ok then Inr (False, w)
                    else append_all (app (live (s_env s))) (live (s_env s)) items num w)
             (\<lambda>(ok, w).
             if ok then
               andThen (call_send P (dtv_send_pdu s) w s) (\<lambda>s.
               andThen (on_env (release num items) s) (\<lambda>s. Inr (ERROR_NONE, s)))
             else
               andThen (on_env (release num items) s) (\<lambda>s.
               andThen (on_env (destroy_pdu_wbuf w) s) (\<lambda>s. Inr (ERROR_NOMEM, s))))))"

definition get_tuners ::
  "'w platform \<Rightarrow> 'w drv dtv_api \<Rightarrow> pdu \<Rightarrow> 'w sys \<Rightarrow> (int \<times> 'w sys) res" where
  "get_tuners P A cmd s =
     andThen (call_drv (api_get_tuner_num A) s) (\<lambda>(tuner_num, s).
       let bytes = to_size P (sizeof_tv_tuner P * uint tuner_num);
           (tuners, s) = sys_malloc P bytes
             (replicate (bytes div nat (sizeof_tv_tuner P)) (uninit_tuner P)) s
       in andThen (call_drv2 (api_get_tuners A tuner_num tuners) s) (\<lambda>(ret, tuners, s).
            if ret \<noteq> TV_STATUS_SUCCESS then Inr (ERROR_FAIL, s)
            else reply_items P calculate_tuner_size (append_tuner P) release_tuners
                   cmd tuner_num tuners s))"

definition start_scan ::
  "'w platform \<Rightarrow> 'w drv dtv_api \<Rightarrow> pdu \<Rightarrow> 'w sys \<Rightarrow> (int \<times> 'w sys) res" where
  "start_scan P A cmd s =
     (case read_pdu_at P cmd 0 [Fmt0, FmtC] of
        Some [Arg0 tuner_id, ArgC source_type] \<Rightarrow>
          andThen (call_drv (api_start_scanning A tuner_id source_type) s) (\<lambda>(ret, s).
            if ret \<noteq> TV_STATUS_SUCCESS then Inr (uint ret, s) else reply_empty P cmd s)
      | _ \<Rightarrow> Inr (ERROR_FAIL, s))"

definition stop_scan ::
  "'w platform \<Rightarrow> 'w drv dtv_api \<Rightarrow> pdu \<Rightarrow> 'w sys \<Rightarrow> (int \<times> 'w sys) res" where
  "stop_scan P A cmd s =
     (case read_pdu_at P cmd 0 [Fmt0, FmtC] of
        Some [Arg0 tuner_id, ArgC source_type] \<Rightarrow>
          andThen (call_drv (api_stop_scanning A tuner_id source_type) s) (\<lambda>(ret, s).
            if ret \<noteq> TV_STATUS_SUCCESS then Inr (uint ret, s) else reply_empty P cmd s)
      | _ \<Rightarrow> Inr (ERROR_FAIL, s))"

definition clean_cache ::
  "'w platform \<Rightarrow> 'w drv dtv_api \<Rightarrow> pdu \<Rightarrow> 'w sys \<Rightarrow> (int \<times> 'w sys) res" where
  "clean_cache P A cmd s =
     andThen (call_drv (api_cln_scanned_channel_cache A) s) (\<lambda>(ret, s).
       if ret \<noteq> TV_STATUS_SUCCESS then Inr (uint ret, s) else reply_empty P cmd s)"

definition set_channel ::
  "'w platform \<Rightarrow> 'w drv dtv_api \<Rightarrow> pdu \<Rightarrow> 'w sys \<Rightarrow> (int \<times> 'w sys) res" where
  "set_channel P A cmd s =
     (case read_pdu_at P cmd 0 [Fmt0, FmtC, Fmt0] of
        Some [Arg0 tuner_id, ArgC source_type, Arg0 ch_num] \<Rightarrow>
          let (ch, s) = sys_malloc P (nat (sizeof_tv_channel P)) [uninit_channel P] s
          in andThen (call_drv2 (api_set_channel A tuner_id source_type ch_num ch) s)
            (\<lambda>(ret, ch, s).
            if ret \<noteq> TV_STATUS_SUCCESS
            then andThen (on_env (release_channels 1 ch) s) (\<lambda>s. Inr (uint ret, s))
            else
              andThen (elem_ptr (live (s_env s)) ch 0) (\<lambda>c.
              andThen (calculate_ch_size (live (s_env s)) c) (\<lambda>ch_size.
                case sys_create_wbuf P (unat ch_size) 0 False s of
                  (None, s) \<Rightarrow> Inr (ERROR_NOMEM, s)
                | (Some w, s) \<Rightarrow>
                    andThen (append_channel P (live (s_env s)) c
                               (init_pdu (pdu_service cmd) (pdu_opcode cmd) w)) (\<lambda>(ok, w).
                      if ok then
                        andThen (call_send P (dtv_send_pdu s) w s) (\<lambda>s.
                        andThen (on_env (release_channels 1 ch) s) (\<lambda>s. Inr (ERROR_NONE, s)))
                      else
                        andThen (on_env (release_channels 1 ch) s) (\<lambda>s.
                        andThen (on_env (destroy_pdu_wbuf w) s) (\<lambda>s.
                          Inr (ERROR_NOMEM, s)))))))
      | _ \<Rightarrow> Inr (ERROR_FAIL, s))"

definition get_channels ::
  "'w platform \<Rightarrow> 'w drv dtv_api \<Rightarrow> pdu \<Rightarrow> 'w sys \<Rightarrow> (int \<times> 'w sys) res" where
  "get_channels P A cmd s =
     (case read_pdu_at P cmd 0 [Fmt0, FmtC] of
        Some [Arg0 tuner_id, ArgC source_type] \<Rightarrow>
          andThen (call_drv (api_get_channel_num A tuner_id source_type) s) (\<lambda>(ch_num, s).
            let bytes = to_size P (sizeof_tv_channel P * uint ch_num);
                (ch_list, s) = sys_malloc P bytes
                  (replicate (bytes div nat (sizeof_tv_channel P)) (uninit_channel P)) s
            in andThen (call_drv2 (api_get_channels A tuner_id source_type ch_num ch_list) s)
              (\<lambda>(ret, ch_list, s).
                if ret \<noteq> TV_STATUS_SUCCESS then Inr (uint ret, s)
                else reply_items P calculate_ch_size (append_channel P) release_channels
                       cmd ch_num ch_list s))
      | _ \<Rightarrow> Inr (ERROR_FAIL, s))"

definition get_programs ::
  "'w platform \<Rightarrow> 'w drv dtv_api \<Rightarrow> pdu \<Rightarrow> 'w sys \<Rightarrow> (int \<times> 'w sys) res" where
  "get_programs P A cmd s =
     (case read_pdu_at P cmd 0 [Fmt0, FmtC, Fmt0, FmtL, FmtL] of
        Some [Arg0 tuner_id, ArgC source_type, Arg0 ch_num, ArgL start_t, ArgL end_t] \<Rightarrow>
          andThen (call_drv (api_get_prog_num A tuner_id source_type ch_num start_t end_t) s)
            (\<lambda>(prog_num, s).
            let bytes = to_size P (sizeof_tv_program P * uint prog_num);
                (prog_list, s) = sys_malloc P bytes
                  (replicate (bytes div nat (sizeof_tv_program P)) (uninit_program P)) s
            in andThen (call_drv2 (api_get_programs A tuner_id source_type ch_num start_t end_t
                                     prog_num prog_list) s)
              (\<lambda>(ret, prog_list, s).
                if ret \<noteq> TV_STATUS_SUCCESS then Inr (uint ret, s)
                else reply_items P calculate_prog_size (append_program P) release_programs
                       cmd prog_num prog_list s))
      | _ \<Rightarrow> Inr (ERROR_FAIL, s))"

section \<open>\<open>set_source\<close>\<close>

text \<open>
  The stream is a local variable, so its handle is indeterminate until the vendor function
  assigns it.
\<close>

definition uninit_stream :: "'w platform \<Rightarrow> tv_stream" where
  "uninit_stream P = \<lparr>ts_type = junk P, ts_stream_id = junk P, ts_width = junk P,
     ts_height = junk P, ts_handle = Wild\<rparr>"

text \<open>\<open>native_handle->data[idx]\<close>\<close>

definition handle_data :: "native_handle \<Rightarrow> int \<Rightarrow> i32 res" where
  "handle_data nh idx =
     (if 0 \<le> idx \<and> nat idx < length (nh_data nh) then Inr (nh_data nh ! nat idx)
      else Inl Out_of_bounds)"

text \<open>The descriptors are copied into the aligned structure of the tail area.\<close>

definition store_fds :: "'w platform \<Rightarrow> native_handle \<Rightarrow> wbuf \<Rightarrow> wbuf res" where
  "store_fds P nh w =
     andThen (ceil_align P (pdu_wbuf_tail P w) (ptr_size P)) (\<lambda>base.
       let tail_end = pdu_wbuf_tail P w + wb_tail_size w
       in if tail_end < base + 4 then Inl Out_of_bounds
          else andThen
            (for_loop (\<lambda>idx fds. andThen (handle_data nh (int idx)) (\<lambda>fd.
                if tail_end < base + 4 + 4 * (idx + 1) then Inl Out_of_bounds
                else Inr (fds @ [fd]))) 0 (nat (sint (nh_numFds nh))) [])
            (\<lambda>fds. Inr (w\<lparr>wb_tail := Some \<lparr>anc_base = base, anc_fd_num = nh_numFds nh,
                                          anc_fds = fds\<rparr>\<rparr>)))"

text \<open>
  The buffer for a handle. With descriptors, the tail area is written before the result of
  the allocation is looked at.
\<close>

definition handle_wbuf :: "'w platform \<Rightarrow> native_handle \<Rightarrow> 'w sys \<Rightarrow> (wbuf option \<times> 'w sys) res" where
  "handle_wbuf P nh s =
     (let size = to_size P (12 + 4 * sint (nh_numInts nh))
      in if nh_numFds nh = 0 then Inr (sys_create_wbuf P size 0 False s)
         else
           let fd_bytes = to_size P (4 * sint (nh_numFds nh));
               tail_size = to_size P (int (ptr_size P) + 4 + int fd_bytes +
                                      int (cmsg_space P fd_bytes))
           in case sys_create_wbuf P size tail_size True s of
                (None, s) \<Rightarrow> Inl Null_deref
              | (Some w, s) \<Rightarrow> andThen (store_fds P nh w) (\<lambda>w. Inr (Some w, s)))"

text \<open>The integers are written from index \<open>numFds\<close> on, up to index \<open>numInts\<close>.\<close>

definition append_handle ::
  "'w platform \<Rightarrow> native_handle \<Rightarrow> wbuf \<Rightarrow> (bool \<times> wbuf) res" where
  "append_handle P nh w =
     andThen (wbuf_append P [ArgI (nh_version nh), ArgI (nh_numFds nh), ArgI (nh_numInts nh)] w)
       (\<lambda>(ok, w).
       if \<not> ok then Inr (False, w)
       else for_until (\<lambda>k w. andThen (handle_data nh (sint (nh_numFds nh) + int k)) (\<lambda>d.
              wbuf_append P [ArgI d] w))
            0 (nat (sint (nh_numInts nh) - sint (nh_numFds nh))) w)"

definition set_source ::
  "'w platform \<Rightarrow> 'w drv dtv_api \<Rightarrow> pdu \<Rightarrow> 'w sys \<Rightarrow> (int \<times> 'w sys) res" where
  "set_source P A cmd s =
     (case read_pdu_at P cmd 0 [Fmt0, FmtC] of
        Some [Arg0 tuner_id, ArgC source_type] \<Rightarrow>
          andThen (call_drv2 (api_set_source A tuner_id source_type (uninit_stream P)) s)
            (\<lambda>(ret, strm, s).
            if ret \<noteq> TV_STATUS_SUCCESS then Inr (uint ret, s)
            else
              andThen (load (live (s_env s)) (ts_handle strm)) (\<lambda>nh.
              andThen (handle_wbuf P nh s) (\<lambda>(w, s).
                case w of
                  None \<Rightarrow> Inr (ERROR_NOMEM, s)
                | Some w \<Rightarrow>
                    andThen (append_handle P nh (init_pdu (pdu_service cmd) (pdu_opcode cmd) w))
                      (\<lambda>(ok, w).
                      if ok then
                        andThen (call_send P (dtv_send_pdu s) w s) (\<lambda>s. Inr (ERROR_NONE, s))
                      else
                        andThen (on_env (destroy_pdu_wbuf w) s) (\<lambda>s. Inr (ERROR_NOMEM, s))))))
      | _ \<Rightarrow> Inr (ERROR_FAIL, s))"

section \<open>The service\<close>

definition dtv_table ::
  "'w platform \<Rightarrow> 'w drv dtv_api \<Rightarrow> u8 \<Rightarrow> 'w sys handler option" where
  "dtv_table P A =
     [OPCODE_GET_TUNERS \<mapsto> get_tuners P A,
      OPCODE_SET_SOURCE \<mapsto> set_source P A,
      OPCODE_START_SCAN \<mapsto> start_scan P A,
      OPCODE_STOP_SCAN \<mapsto> stop_scan P A,
      OPCODE_CLEAR_CACHE \<mapsto> clean_cache P A,
      OPCODE_SET_CHANNEL \<mapsto> set_channel P A,
      OPCODE_GET_CHANNEL \<mapsto> get_channels P A,
      OPCODE_GET_PROGRAM \<mapsto> get_programs P A]"

definition dtv_handler ::
  "'w platform \<Rightarrow> 'w drv dtv_api \<Rightarrow> pdu \<Rightarrow> 'w sys \<Rightarrow> (int \<times> 'w sys) res" where
  "dtv_handler P A cmd s = handle_pdu_by_opcode P cmd (dtv_table P A) s"

definition hal_init_sys :: "'w platform \<Rightarrow> 'w sys \<Rightarrow> (u8 \<times> 'w sys) res" where
  "hal_init_sys P s =
     call_drv (\<lambda>(h, e). andThen (tv_input_hal_init P h e) (\<lambda>(r, h, e). Inr (r, (h, e)))) s"

definition hal_uninit_sys :: "'w platform \<Rightarrow> 'w sys \<Rightarrow> (u8 \<times> 'w sys) res" where
  "hal_uninit_sys P s =
     call_drv (\<lambda>(h, e). andThen (tv_input_hal_uninit P h e) (\<lambda>(r, e). Inr (r, (h, e)))) s"

definition register_dtv ::
  "'w platform \<Rightarrow> 'w drv dtv_api \<Rightarrow> send_fn option \<Rightarrow> 'w sys \<Rightarrow> (handler_fn option \<times> 'w sys) res" where
  "register_dtv P A send_pdu_cb s =
     andThen (hal_init_sys P s) (\<lambda>(ret, s).
       if ret \<noteq> TV_STATUS_SUCCESS
       then andThen (hal_uninit_sys P s) (\<lambda>(_, s). Inr (None, s))
       else
         let s = s\<lparr>dtv_callbacks := (dtv_callbacks s)
                   \<lparr>channel_update_nfy := Some Channel_update_nfy_cb,
                    scan_status_nfy := Some Scan_status_nfy_cb, event_nfy := Some Event_nfy_cb\<rparr>\<rparr>
         in andThen (call_drv (api_init A (dtv_callbacks s)) s) (\<lambda>(ret, s).
              if ret \<noteq> TV_STATUS_SUCCESS
              then andThen (call_drv (api_uninit A) s) (\<lambda>(_, s). Inr (None, s))
              else Inr (Some Dtv_handler, s\<lparr>dtv_send_pdu := send_pdu_cb\<rparr>)))"

definition unregister_dtv ::
  "'w platform \<Rightarrow> 'w drv dtv_api \<Rightarrow> 'w sys \<Rightarrow> (int \<times> 'w sys) res" where
  "unregister_dtv P A s =
     andThen (hal_uninit_sys P s) (\<lambda>(ret, s).
       if ret \<noteq> TV_STATUS_SUCCESS then Inr (ERROR_FAIL, s)
       else andThen (call_drv (api_uninit A) s) (\<lambda>(ret, s).
              if ret \<noteq> TV_STATUS_SUCCESS then Inr (ERROR_FAIL, s)
              else Inr (ERROR_NONE, s\<lparr>dtv_send_pdu := None\<rparr>)))"

section \<open>Vendor functions of the closed examples\<close>

text \<open>They list one tuner and one channel, whose strings they allocate, and accept scan commands.\<close>

definition vendor_tuner :: tv_tuner where
  "vendor_tuner = \<lparr>t_id = Ptr 10 ''7'', num_types = 1, supported_types = Ptr 11 [1]\<rparr>"

definition vendor_channel :: tv_channel where
  "vendor_channel = \<lparr>network_id = Ptr 10 ''9'', trans_stream_id = Ptr 11 ''1'',
     service_id = Ptr 12 ''0'', ch_type = 0, ch_number = Ptr 13 ''12'', ch_name = Ptr 14 ''one'',
     is_emergency = 0, is_free = 1\<rparr>"

definition fill :: "'a \<Rightarrow> nat set \<Rightarrow> 'a list ptr \<Rightarrow> unit drv \<Rightarrow> (u8 \<times> 'a list ptr \<times> unit drv) res" where
  "fill x addrs p = (\<lambda>(h, e). Inr (TV_STATUS_SUCCESS, Ptr (ptr_addr p) [x],
     (h, e\<lparr>live := live e \<union> addrs\<rparr>)))"

definition sample_vendor :: "unit drv dtv_api" where
  "sample_vendor = (dtv_impl sample_platform)
     \<lparr>api_get_tuner_num := \<lambda>d. Inr (1, d), api_get_tuners := \<lambda>_. fill vendor_tuner {10, 11},
      api_start_scanning := \<lambda>_ _ d. Inr (TV_STATUS_SUCCESS, d),
      api_get_channel_num := \<lambda>_ _ d. Inr (1, d),
      api_get_channels := \<lambda>_ _ _. fill vendor_channel {10..14}\<rparr>"

lemma sample_vendor_fields [simp]:
  "api_get_tuner_num sample_vendor d = Inr (1, d)"
  "api_get_tuners sample_vendor n = fill vendor_tuner {10, 11}"
  "api_start_scanning sample_vendor i t d = Inr (TV_STATUS_SUCCESS, d)"
  "api_get_channel_num sample_vendor i t d = Inr (1, d)"
  "api_get_channels sample_vendor i t n = fill vendor_channel {10..14}"
  by (simp_all add: sample_vendor_def)

end
