(* ===== verification/Dtv_Protocol.thy ===== *)
theory Dtv_Protocol
  imports Dtv_Io
begin

text \<open>
  The types of the payloads the code sends: for each opcode the form of its arguments, as a
  language over the arguments of \<open>append_to_pdu\<close>, and a calculus that reads the language of
  what an append function writes off its definition. No assumption is made on capacities: the
  calculus speaks of the appends that succeed. These are the forms of the code, for any
  implementation of dtv.h, also where a count does not agree with what follows it; the forms of
  doc/ipc.txt, and how far the daemon keeps to them, are in \<open>Tvd_Typed\<close>.
\<close>

section \<open>Languages of arguments\<close>

type_synonym form = "pdu_arg list \<Rightarrow> bool"

definition just :: "pdu_arg list \<Rightarrow> form" where
  "just args = (\<lambda>as. as = args)"

definition never :: form where
  "never = (\<lambda>as. False)"

definition followed_by :: "form \<Rightarrow> form \<Rightarrow> form" where
  "followed_by L M = (\<lambda>as. \<exists>bs cs. as = bs @ cs \<and> L bs \<and> M cs)"

definition repeated :: "nat \<Rightarrow> form \<Rightarrow> form" where
  "repeated n L = (\<lambda>as. \<exists>xs. length xs = n \<and> list_all L xs \<and> as = concat xs)"

text \<open>A 4-octet count and as many items, the items one argument each or of a form of their own.\<close>

definition counted :: "form \<Rightarrow> form" where
  "counted L = (\<lambda>as. \<exists>n bs. as = ArgI n # bs \<and> repeated (unat n) L bs)"

fun is_octet :: form where
  "is_octet [ArgC _] = True"
| "is_octet _ = False"

fun is_word :: form where
  "is_word [ArgI _] = True"
| "is_word _ = False"

fun is_string :: form where
  "is_string [Arg0 _] = True"
| "is_string _ = False"

section \<open>The forms of what dtv_io.c sends\<close>

definition tuner_form :: form where
  "tuner_form = followed_by is_string (counted is_octet)"

text \<open>
  A program as it is sent: no title, and as many subtitle languages as audio languages, whatever
  the count in front of them says.
\<close>

definition program_form :: form where
  "program_form = (\<lambda>as. \<exists>evt start dur des rat n m ls sls.
     as = [Arg0 evt, ArgL start, ArgL dur, Arg0 des, Arg0 rat, ArgI n] @ ls @ ArgI m # sls \<and>
     repeated (unat n) is_string ls \<and> repeated (unat n) is_string sls)"

text \<open>
  A handle as it is sent: behind the counts of descriptors and integers come as many words as the
  second exceeds the first, not as many as it says.
\<close>

definition handle_form :: form where
  "handle_form = (\<lambda>as. \<exists>v nf ni ds. as = [ArgI v, ArgI nf, ArgI ni] @ ds \<and>
     repeated (nat (sint ni - sint nf)) is_word ds)"

text \<open>\<open>append_channel\<close> cannot send a channel, so a response with channels has none.\<close>

definition dtv_response_form :: "u8 \<Rightarrow> form" where
  "dtv_response_form oc =
     (if oc = OPCODE_GET_TUNERS then counted tuner_form
      else if oc = OPCODE_SET_SOURCE then handle_form
      else if oc \<in> {OPCODE_START_SCAN, OPCODE_STOP_SCAN, OPCODE_CLEAR_CACHE} then just []
      else if oc = OPCODE_GET_CHANNEL then just [ArgI 0]
      else if oc = OPCODE_GET_PROGRAM then counted program_form
      else never)"

fun tuner_and_source :: form where
  "tuner_and_source [Arg0 _, ArgC _] = True"
| "tuner_and_source _ = False"

definition dtv_notification_form :: "u8 \<Rightarrow> form" where
  "dtv_notification_form oc =
     (if oc \<in> {OPCODE_SCANNED_COMPLETE, OPCODE_SCAN_STOPPED} then tuner_and_source else never)"

text \<open>A PDU with a payload of a form.\<close>

definition payload :: "(pdu_arg \<Rightarrow> u8 list) \<Rightarrow> form \<Rightarrow> pdu \<Rightarrow> bool" where
  "payload enc L p \<longleftrightarrow> (\<exists>args. L args \<and> pdu_data p = encodes enc args)"

lemma payload_mono: "payload enc L p \<Longrightarrow> (\<And>as. L as \<Longrightarrow> M as) \<Longrightarrow> payload enc M p"
  by (auto simp: payload_def)

lemma repeated_never: "repeated n never as \<longleftrightarrow> n = 0 \<and> as = []"
  by (cases n) (auto simp: repeated_def never_def length_Suc_conv)

lemma counted_never: "counted never as \<Longrightarrow> just [ArgI 0] as"
  by (auto simp: counted_def repeated_never just_def unsigned_eq_0_iff)

section \<open>What an append function emits\<close>

definition emits :: "(pdu_arg \<Rightarrow> u8 list) \<Rightarrow> (wbuf \<Rightarrow> (bool \<times> wbuf) res) \<Rightarrow> form \<Rightarrow> bool" where
  "emits enc app L \<longleftrightarrow>
     (\<forall>w w'. app w = Inr (True, w') \<longrightarrow> (\<exists>args. L args \<and> w' = wbuf_extend enc args w))"

lemma emitsD:
  "emits enc app L \<Longrightarrow> app w = Inr (True, w') \<Longrightarrow> \<exists>args. L args \<and> w' = wbuf_extend enc args w"
  by (simp add: emits_def)

lemma emits_mono: "emits enc app L \<Longrightarrow> (\<And>as. L as \<Longrightarrow> M as) \<Longrightarrow> emits enc app M"
  unfolding emits_def by meson

lemma emits_append: "pdu_codec P enc \<Longrightarrow> emits enc (wbuf_append P args) (just args)"
  using wbuf_append_codec(1) [of P enc args]
  by (auto simp: emits_def just_def wbuf_extend_def)

lemma emits_return: "emits enc (\<lambda>w. Inr (True, w)) (just [])"
  by (simp add: emits_def just_def)

lemma emits_load: "(\<And>x. m = Inr x \<Longrightarrow> emits enc (k x) L) \<Longrightarrow> emits enc (\<lambda>w. andThen m (\<lambda>x. k x w)) L"
  by (cases m) (auto simp: emits_def)

lemma emits_then:
  assumes "emits enc f L" "emits enc g M"
  shows "emits enc (\<lambda>w. andThen (f w) (\<lambda>(ok, w). if \<not> ok then Inr (False, w) else g w)) (followed_by L M)"
  unfolding emits_def
proof (intro allI impI)
  fix w w'
  assume "andThen (f w) (\<lambda>(ok, w). if \<not> ok then Inr (False, w) else g w) = Inr (True, w')"
  then obtain w1 where "f w = Inr (True, w1)" "g w1 = Inr (True, w')"
    by (auto simp: andThen_Inr_iff split: if_splits)
  with emitsD [OF assms(1)] emitsD [OF assms(2)] obtain as bs where
    "L as" "w1 = wbuf_extend enc as w" "M bs" "w' = wbuf_extend enc bs w1" by meson
  then show "\<exists>args. followed_by L M args \<and> w' = wbuf_extend enc args w"
    by (intro exI [of _ "as @ bs"]) (auto simp: followed_by_def)
qed

lemma repeated_Suc: "L as \<Longrightarrow> repeated n L bs \<Longrightarrow> repeated (Suc n) L (as @ bs)"
  unfolding repeated_def by (elim exE, rename_tac xs, rule_tac x = "as # xs" in exI) simp

lemma emits_loop:
  assumes "\<And>k. emits enc (body k) L"
  shows "emits enc (for_until body i n) (repeated n L)"
proof (induction n arbitrary: i)
  case 0
  then show ?case by (simp add: emits_def repeated_def)
next
  case (Suc n)
  have "(\<lambda>w. andThen (body i w) (\<lambda>(ok, w). if \<not> ok then Inr (False, w) else for_until body (Suc i) n w)) =
      for_until body i (Suc n)"
    by (rule ext) (auto intro!: arg_cong [of _ _ "andThen _"])
  with emits_then [OF assms [of i] Suc.IH [of "Suc i"]]
  have "emits enc (for_until body i (Suc n)) (followed_by L (repeated n L))" by simp
  then show ?case by (rule emits_mono) (auto simp: followed_by_def intro: repeated_Suc)
qed

lemma emits_just:
  "pdu_codec P enc \<Longrightarrow> L args \<Longrightarrow> emits enc (wbuf_append P args) L"
  by (rule emits_mono [OF emits_append]) (auto simp: just_def)

section \<open>The items\<close>

lemma append_tuner_emits:
  assumes codec: "pdu_codec P enc" shows "emits enc (append_tuner P lv t) tuner_form"
proof (cases t)
  case None
  then show ?thesis by (simp add: append_tuner_def emits_def)
next
  case (Some x)
  have "emits enc (for_until (\<lambda>k w. andThen (load_at lv (supported_types x) k) (\<lambda>s.
      wbuf_append P [ArgC s] w)) 0 n) (repeated n is_octet)" for n
    by (intro emits_loop emits_load emits_just [OF codec]) simp
  note thens = emits_then [OF emits_append [OF codec] this]
  have "emits enc (\<lambda>w. andThen (load lv (t_id x)) (\<lambda>id.
      andThen (wbuf_append P [Arg0 id, ArgI (num_types x)] w) (\<lambda>(ok, w).
        if \<not> ok then Inr (False, w)
        else for_until (\<lambda>k w. andThen (load_at lv (supported_types x) k) (\<lambda>s.
               wbuf_append P [ArgC s] w)) 0 (unat (num_types x)) w))) tuner_form"
  proof (rule emits_load)
    fix id
    show "emits enc (\<lambda>w. andThen (wbuf_append P [Arg0 id, ArgI (num_types x)] w) (\<lambda>(ok, w).
        if \<not> ok then Inr (False, w)
        else for_until (\<lambda>k w. andThen (load_at lv (supported_types x) k) (\<lambda>s.
               wbuf_append P [ArgC s] w)) 0 (unat (num_types x)) w)) tuner_form"
    proof (rule emits_mono [OF thens])
      fix as
      assume "followed_by (just [Arg0 id, ArgI (num_types x)]) (repeated (unat (num_types x)) is_octet) as"
      then obtain bs where "as = [Arg0 id] @ ArgI (num_types x) # bs"
        "repeated (unat (num_types x)) is_octet bs" by (auto simp: followed_by_def just_def)
      then show "tuner_form as"
        unfolding tuner_form_def followed_by_def counted_def
        by (intro exI [of _ "[Arg0 id]"] exI [of _ "ArgI (num_types x) # bs"]) auto
    qed
  qed
  then show ?thesis unfolding append_tuner_def Some option.case .
qed

text \<open>The format of \<open>append_channel\<close> has one directive more than the call has arguments.\<close>

lemma append_channel_emits: "emits enc (append_channel P lv c) never"
  by (auto simp: emits_def append_channel_def wbuf_append_fmt_def andThen_Inr_iff
      split: option.splits)

lemma append_langs_emits:
  "pdu_codec P enc \<Longrightarrow> emits enc (append_langs P lv arr num) (repeated (unat num) is_string)"
  unfolding append_langs_def
  by (intro emits_loop emits_load emits_just [where P = P]) simp_all

lemma append_program_emits:
  assumes codec: "pdu_codec P enc" shows "emits enc (append_program P lv p) program_form"
proof (cases p)
  case None
  then show ?thesis by (simp add: append_program_def emits_def)
next
  case (Some x)
  note langs = append_langs_emits [OF codec, of lv _ "lang_num x"]
  have "emits enc (\<lambda>w. andThen (wbuf_append P [Arg0 evt, ArgL (start_time x), ArgL (duration x),
          Arg0 des, Arg0 rat, ArgI (lang_num x)] w) (\<lambda>(ok, w).
        if \<not> ok then Inr (False, w)
        else andThen (append_langs P lv (langs x) (lang_num x) w) (\<lambda>(ok, w).
          if \<not> ok then Inr (False, w)
          else andThen (wbuf_append P [ArgI (stl_lang_num x)] w) (\<lambda>(ok, w).
            if \<not> ok then Inr (False, w)
            else append_langs P lv (stl_langs x) (lang_num x) w)))) program_form" for evt des rat
  proof (rule emits_mono [OF emits_then [OF emits_append [OF codec] emits_then [OF langs
          emits_then [OF emits_append [OF codec] langs]]]])
    fix as
    assume "followed_by (just [Arg0 evt, ArgL (start_time x), ArgL (duration x), Arg0 des, Arg0 rat,
        ArgI (lang_num x)]) (followed_by (repeated (unat (lang_num x)) is_string)
        (followed_by (just [ArgI (stl_lang_num x)]) (repeated (unat (lang_num x)) is_string))) as"
    then obtain ls sls where "as = [Arg0 evt, ArgL (start_time x), ArgL (duration x), Arg0 des,
        Arg0 rat, ArgI (lang_num x)] @ ls @ ArgI (stl_lang_num x) # sls"
      "repeated (unat (lang_num x)) is_string ls" "repeated (unat (lang_num x)) is_string sls"
      by (auto simp: followed_by_def just_def)
    then show "program_form as" unfolding program_form_def by blast
  qed
  then show ?thesis
    unfolding append_program_def Some option.case by (intro emits_load)
qed

lemma append_handle_emits:
  assumes codec: "pdu_codec P enc" shows "emits enc (append_handle P nh) handle_form"
proof -
  have "emits enc (for_until (\<lambda>k w. andThen (handle_data nh (sint (nh_numFds nh) + int k)) (\<lambda>d.
      wbuf_append P [ArgI d] w)) 0 n) (repeated n is_word)" for n
    by (intro emits_loop emits_load emits_just [OF codec]) simp
  from emits_then [OF emits_append [OF codec] this] show ?thesis
    unfolding append_handle_def
    by (rule emits_mono) (auto simp: handle_form_def followed_by_def just_def)
qed

lemma append_items_emits:
  assumes codec: "pdu_codec P enc" and app: "\<And>x. emits enc (app x) L"
  shows "emits enc (\<lambda>w. andThen (wbuf_append P [ArgI num] w) (\<lambda>(ok, w).
           if \<not> ok then Inr (False, w) else append_all app lv arr num w)) (counted L)"
proof -
  have "emits enc (append_all app lv arr num) (repeated (unat num) L)"
    unfolding append_all_def by (intro emits_loop emits_load app)
  from emits_then [OF emits_append [OF codec] this] show ?thesis
    by (rule emits_mono) (auto simp: counted_def followed_by_def just_def)
qed

text \<open>A buffer that starts as an empty PDU and is filled.\<close>

lemma emits_payload:
  assumes "emits enc app L" "app (init_pdu sv oc w) = Inr (True, w')"
  shows "pdu_service (wb_pdu w') = sv" "pdu_opcode (wb_pdu w') = oc" "payload enc L (wb_pdu w')"
  using emitsD [OF assms] by (auto simp: payload_def)

end
