(* ===== verification/Dtv_Replies.thy ===== *)
theory Dtv_Replies
  imports Dtv_Protocol
begin

text \<open>
  Every command handler of the DTV service answers a command at most once: on success the
  output stream has grown by one PDU that carries the service and the opcode of the command,
  on an error code it has not grown. This needs nothing of the vendor functions but that they do not
  send PDUs themselves, which is the interface \<open>quiet_driver\<close>; dtv.c is one of its instances.
\<close>

section \<open>Vendor functions that send nothing\<close>

definition quiet :: "('w drv \<Rightarrow> ('r \<times> 'w drv) res) \<Rightarrow> bool" where
  "quiet f \<longleftrightarrow> (\<forall>h e r h' e'. f (h, e) = Inr (r, (h', e')) \<longrightarrow> sent e' = sent e)"

definition quiet2 :: "('w drv \<Rightarrow> ('r \<times> 'q \<times> 'w drv) res) \<Rightarrow> bool" where
  "quiet2 f \<longleftrightarrow> (\<forall>h e r q h' e'. f (h, e) = Inr (r, q, (h', e')) \<longrightarrow> sent e' = sent e)"

lemma quietI: "(\<And>h e r h' e'. f (h, e) = Inr (r, (h', e')) \<Longrightarrow> sent e' = sent e) \<Longrightarrow> quiet f"
  by (simp add: quiet_def)

lemma quiet2I:
  "(\<And>h e r q h' e'. f (h, e) = Inr (r, q, (h', e')) \<Longrightarrow> sent e' = sent e) \<Longrightarrow> quiet2 f"
  by (simp add: quiet2_def)

lemma quiet_return [intro]: "quiet (\<lambda>s. Inr (r, s))"
  by (auto intro: quietI)

lemma quiet2_return [intro]: "quiet2 (\<lambda>s. Inr (r, q, s))"
  by (auto intro: quiet2I)

lemma call_drv_output: "call_drv f s = Inr (r, s') \<Longrightarrow> quiet f \<Longrightarrow> sys_out s' = sys_out s"
  by (auto simp: call_drv_def res_simps quiet_def sys_out_def output_stream_def)

lemma call_drv2_output: "call_drv2 f s = Inr (r, q, s') \<Longrightarrow> quiet2 f \<Longrightarrow> sys_out s' = sys_out s"
  by (auto simp: call_drv2_def res_simps quiet2_def sys_out_def output_stream_def)

locale quiet_driver =
  fixes A :: "'w drv dtv_api"
  assumes init_quiet: "quiet (api_init A cbs)"
    and uninit_quiet: "quiet (api_uninit A)"
    and tuner_num_quiet: "quiet (api_get_tuner_num A)"
    and tuners_quiet: "quiet2 (api_get_tuners A n ts)"
    and source_quiet: "quiet2 (api_set_source A i t strm)"
    and start_quiet: "quiet (api_start_scanning A i t)"
    and stop_quiet: "quiet (api_stop_scanning A i t)"
    and clean_quiet: "quiet (api_cln_scanned_channel_cache A)"
    and channel_quiet: "quiet2 (api_set_channel A i t c ch)"
    and channel_num_quiet: "quiet (api_get_channel_num A i t)"
    and channels_quiet: "quiet2 (api_get_channels A i t n chs)"
    and prog_num_quiet: "quiet (api_get_prog_num A i t c st et)"
    and programs_quiet: "quiet2 (api_get_programs A i t c st et n ps)"

section \<open>Releases send nothing\<close>

lemma free_ptr_sent: "free_ptr p e = Inr e' \<Longrightarrow> sent e' = sent e"
  by (cases p) (auto split: if_splits)

lemma free_field_sent: "free_field arr i f e = Inr e' \<Longrightarrow> sent e' = sent e"
  by (auto simp: free_field_def res_simps dest: free_ptr_sent)

lemma for_loop_sent:
  assumes "for_loop body i n e = Inr e'" "\<And>k t t'. body k t = Inr t' \<Longrightarrow> sent t' = sent t"
  shows "sent e' = sent e"
  using for_loop_rule [OF assms(1), where I = "\<lambda>_ t. sent t = sent e"] assms(2) by simp

lemma destroy_pdu_wbuf_sent: "destroy_pdu_wbuf w e = Inr e' \<Longrightarrow> sent e' = sent e"
  by (auto simp: res_simps)

lemma release_tuners_sent: "release_tuners n p e = Inr e' \<Longrightarrow> sent e' = sent e"
  by (auto simp: release_tuners_def release_tuner_fields_def res_simps split: if_splits
      dest!: free_ptr_sent for_loop_sent free_field_sent)

lemma release_channels_sent: "release_channels n p e = Inr e' \<Longrightarrow> sent e' = sent e"
  by (auto simp: release_channels_def release_channel_fields_def res_simps split: if_splits
      dest!: free_ptr_sent for_loop_sent free_field_sent)

lemma release_langs_sent: "release_langs p i n f e = Inr e' \<Longrightarrow> sent e' = sent e"
  by (auto simp: release_langs_def res_simps dest!: for_loop_sent free_field_sent)

lemma release_programs_sent: "release_programs n p e = Inr e' \<Longrightarrow> sent e' = sent e"
  by (auto simp: release_programs_def release_program_fields_def res_simps split: if_splits
      dest!: for_loop_sent free_ptr_sent free_field_sent release_langs_sent)

section \<open>The handlers answer\<close>

lemma answers_from:
  "out s1 = out s \<Longrightarrow> answers F out cmd s1 st s' \<Longrightarrow> answers F out cmd s st s'"
  unfolding answers_def by (cases "st = ERROR_NONE") auto

lemma status_error: "(ret :: u8) \<noteq> TV_STATUS_SUCCESS \<Longrightarrow> uint ret \<noteq> ERROR_NONE"
  by (simp add: TV_STATUS_SUCCESS_def ERROR_NONE_def unsigned_eq_0_iff)

lemma error_codes_differ [simp]:
  "ERROR_NOMEM \<noteq> ERROR_NONE" "ERROR_FAIL \<noteq> ERROR_NONE" "ERROR_PARM_INVALID \<noteq> ERROR_NONE"
  "ERROR_UNSUPPORTED \<noteq> ERROR_NONE"
  by (simp_all add: error_code_defs)

lemma answers_sent:
  assumes "call_send P f w s = Inr s1" "sys_out s' = sys_out s1"
    and "pdu_service (wb_pdu w) = pdu_service cmd" "pdu_opcode (wb_pdu w) = pdu_opcode cmd"
    and "F (wb_pdu w)"
  shows "answers F sys_out cmd s ERROR_NONE s'"
  using call_send_output [OF assms(1)] assms(2-5)
  by (intro answers_reply [where p = "wb_pdu w"]) simp_all

abbreviation responds :: "(pdu_arg \<Rightarrow> u8 list) \<Rightarrow> form \<Rightarrow> pdu \<Rightarrow> 'w sys \<Rightarrow> int \<Rightarrow> 'w sys \<Rightarrow> bool" where
  "responds enc L \<equiv> answers (payload enc L) sys_out"

lemma payload_nothing: "payload enc (just []) (wb_pdu (init_pdu sv oc w))"
  by (simp add: payload_def just_def)

lemma reply_empty_answers:
  assumes "reply_empty P cmd s = Inr (st, s')" shows "responds enc (just []) cmd s st s'"
proof -
  obtain w s1 where c: "sys_create_wbuf P 0 0 False s = (w, s1)" by (metis surj_pair)
  note o = sys_create_wbuf_output [OF c]
  show ?thesis
  proof (cases w)
    case None
    with assms c o show ?thesis by (simp add: reply_empty_def)
  next
    case (Some b)
    with assms c obtain s2 where "call_send P (dtv_send_pdu s1)
        (init_pdu (pdu_service cmd) (pdu_opcode cmd) b) s1 = Inr s2" "st = ERROR_NONE" "s' = s2"
      by (auto simp: reply_empty_def res_simps)
    then have "responds enc (just []) cmd s1 st s'" by (auto intro: answers_sent payload_nothing)
    with o show ?thesis by (rule answers_from)
  qed
qed

lemma reply_items_answers:
  assumes run: "reply_items P calc app release cmd num items s = Inr (st, s')"
    and app: "\<And>lv x. emits enc (app lv x) L" and codec: "pdu_codec P enc"
    and rel: "\<And>n p e e'. release n p e = Inr e' \<Longrightarrow> sent e' = sent e"
  shows "responds enc (counted L) cmd s st s'"
proof -
  obtain sz w s1 where c: "sys_create_wbuf P (unat sz) 0 False s = (w, s1)"
    and sz: "sum_sizes (calc (live (s_env s))) (live (s_env s)) items num 4 = Inr sz"
    using run by (auto simp: reply_items_def res_simps) (metis surj_pair)
  note o = sys_create_wbuf_output [OF c]
  have rel': "on_env (release num items) t = Inr t' \<Longrightarrow> sys_out t' = sys_out t" for t t'
    by (rule on_env_output) (auto dest: rel)
  have des: "on_env (destroy_pdu_wbuf b) t = Inr t' \<Longrightarrow> sys_out t' = sys_out t" for b t t'
    by (rule on_env_output) (auto dest: destroy_pdu_wbuf_sent)
  show ?thesis
  proof (cases w)
    case None
    with run c sz o show ?thesis by (simp add: reply_items_def)
  next
    case (Some b)
    let ?lv = "live (s_env s1)"
    let ?b = "init_pdu (pdu_service cmd) (pdu_opcode cmd) b"
    from run c sz Some obtain ok1 b1 ok2 b2 where
      b1: "wbuf_append P [ArgI num] ?b = Inr (ok1, b1)"
      and b2: "(if \<not> ok1 then Inr (False, b1) else append_all (app ?lv) ?lv items num b1) = Inr (ok2, b2)"
      and fin: "(if ok2 then andThen (call_send P (dtv_send_pdu s1) b2 s1)
            (\<lambda>s. andThen (on_env (release num items) s) (\<lambda>s. Inr (ERROR_NONE, s)))
          else andThen (on_env (release num items) s1) (\<lambda>s.
            andThen (on_env (destroy_pdu_wbuf b2) s) (\<lambda>s. Inr (ERROR_NOMEM, s)))) = Inr (st, s')"
      by (fastforce simp: reply_items_def andThen_Inr_iff)
    have "emits enc (\<lambda>w. andThen (wbuf_append P [ArgI num] w) (\<lambda>(ok, w).
        if \<not> ok then Inr (False, w) else append_all (app ?lv) ?lv items num w)) (counted L)"
      by (rule append_items_emits [OF codec app])
    from emits_payload [OF this, of "pdu_service cmd" "pdu_opcode cmd" b b2] b1 b2
    have filled: "ok2 \<Longrightarrow> pdu_service (wb_pdu b2) = pdu_service cmd"
      "ok2 \<Longrightarrow> pdu_opcode (wb_pdu b2) = pdu_opcode cmd"
      "ok2 \<Longrightarrow> payload enc (counted L) (wb_pdu b2)"
      by (simp_all add: andThen_Inr_iff)
    have "responds enc (counted L) cmd s1 st s'"
      using fin filled by (auto simp: res_simps split: if_splits dest!: rel' des intro: answers_sent)
    with o show ?thesis by (rule answers_from)
  qed
qed

lemma reply_tuners_answers:
  assumes codec: "pdu_codec P enc"
    and "reply_items P calculate_tuner_size (append_tuner P) release_tuners cmd n ts s = Inr (st, s')"
  shows "responds enc (counted tuner_form) cmd s st s'"
  using assms(2) append_tuner_emits [OF codec] codec release_tuners_sent by (rule reply_items_answers)

lemma reply_channels_answers:
  assumes codec: "pdu_codec P enc"
    and "reply_items P calculate_ch_size (append_channel P) release_channels cmd n cs s = Inr (st, s')"
  shows "responds enc (counted never) cmd s st s'"
  using assms(2) append_channel_emits codec release_channels_sent by (rule reply_items_answers)

lemma reply_programs_answers:
  assumes codec: "pdu_codec P enc"
    and "reply_items P calculate_prog_size (append_program P) release_programs cmd n ps s = Inr (st, s')"
  shows "responds enc (counted program_form) cmd s st s'"
  using assms(2) append_program_emits [OF codec] codec release_programs_sent by (rule reply_items_answers)

text \<open>A vendor call whose status decides between an error code and an empty response.\<close>

lemma call_then_reply_answers:
  assumes "andThen (call_drv f s) (\<lambda>(ret, s).
      if ret \<noteq> TV_STATUS_SUCCESS then Inr (uint ret, s) else reply_empty P cmd s) = Inr (st, s')"
    and quiet: "quiet f"
  shows "responds enc (just []) cmd s st s'"
proof -
  obtain ret s1 where 1: "call_drv f s = Inr (ret, s1)"
    "(if ret \<noteq> TV_STATUS_SUCCESS then Inr (uint ret, s1) else reply_empty P cmd s1) = Inr (st, s')"
    using assms(1) by (auto simp: andThen_Inr_iff)
  have "responds enc (just []) cmd s1 st s'"
    using 1(2) by (auto simp: status_error split: if_splits intro: reply_empty_answers)
  then show ?thesis using call_drv_output [OF 1(1) quiet] by (rule answers_from [rotated])
qed

context quiet_driver
begin

lemma get_tuners_answers:
  assumes codec: "pdu_codec P enc" and run: "get_tuners P A cmd s = Inr (st, s')"
  shows "responds enc (counted tuner_form) cmd s st s'"
proof -
  obtain n s1 where 1: "call_drv (api_get_tuner_num A) s = Inr (n, s1)"
    using run by (auto simp: get_tuners_def res_simps)
  let ?bytes = "to_size P (sizeof_tv_tuner P * uint n)"
  obtain ts s2 where 2: "sys_malloc P ?bytes
      (replicate (?bytes div nat (sizeof_tv_tuner P)) (uninit_tuner P)) s1 = (ts, s2)"
    by (metis surj_pair)
  from run 1 2 obtain ret ts3 s3 where 3: "call_drv2 (api_get_tuners A n ts) s2 = Inr (ret, ts3, s3)"
    and fin: "(if ret \<noteq> TV_STATUS_SUCCESS then Inr (ERROR_FAIL, s3)
      else reply_items P calculate_tuner_size (append_tuner P) release_tuners cmd n ts3 s3) =
        Inr (st, s')"
    by (auto simp: get_tuners_def andThen_Inr_iff Let_def)
  have "responds enc (counted tuner_form) cmd s3 st s'"
    using fin by (auto split: if_splits intro: reply_tuners_answers [OF codec])
  moreover have "sys_out s3 = sys_out s"
    using call_drv_output [OF 1 tuner_num_quiet] sys_malloc_output [OF 2]
      call_drv2_output [OF 3 tuners_quiet] by simp
  ultimately show ?thesis by (rule answers_from [rotated])
qed

lemma start_scan_answers:
  "start_scan P A cmd s = Inr (st, s') \<Longrightarrow> responds enc (just []) cmd s st s'"
  by (auto simp: start_scan_def split: option.splits list.splits pdu_arg.splits
      intro: call_then_reply_answers start_quiet)

lemma stop_scan_answers:
  "stop_scan P A cmd s = Inr (st, s') \<Longrightarrow> responds enc (just []) cmd s st s'"
  by (auto simp: stop_scan_def split: option.splits list.splits pdu_arg.splits
      intro: call_then_reply_answers stop_quiet)

lemma clean_cache_answers:
  "clean_cache P A cmd s = Inr (st, s') \<Longrightarrow> responds enc (just []) cmd s st s'"
  by (auto simp: clean_cache_def intro: call_then_reply_answers clean_quiet)

lemma get_channels_answers:
  assumes codec: "pdu_codec P enc" and run: "get_channels P A cmd s = Inr (st, s')"
  shows "responds enc (counted never) cmd s st s'"
proof (cases "\<exists>i t. read_pdu_at P cmd 0 [Fmt0, FmtC] = Some [Arg0 i, ArgC t]")
  case False
  with run have "st = ERROR_FAIL" "s' = s"
    by (auto simp: get_channels_def split: option.splits list.splits pdu_arg.splits)
  then show ?thesis by simp
next
  case True
  then obtain i t where rd: "read_pdu_at P cmd 0 [Fmt0, FmtC] = Some [Arg0 i, ArgC t]" by blast
  with run obtain n s1 where 1: "call_drv (api_get_channel_num A i t) s = Inr (n, s1)"
    by (auto simp: get_channels_def res_simps)
  let ?bytes = "to_size P (sizeof_tv_channel P * uint n)"
  obtain cs s2 where 2: "sys_malloc P ?bytes
      (replicate (?bytes div nat (sizeof_tv_channel P)) (uninit_channel P)) s1 = (cs, s2)"
    by (metis surj_pair)
  from run rd 1 2 obtain ret cs3 s3 where
    3: "call_drv2 (api_get_channels A i t n cs) s2 = Inr (ret, cs3, s3)"
    and fin: "(if ret \<noteq> TV_STATUS_SUCCESS then Inr (uint ret, s3)
      else reply_items P calculate_ch_size (append_channel P) release_channels cmd n cs3 s3) =
        Inr (st, s')"
    by (auto simp: get_channels_def andThen_Inr_iff Let_def)
  have "responds enc (counted never) cmd s3 st s'"
    using fin by (auto simp: status_error split: if_splits intro: reply_channels_answers [OF codec])
  moreover have "sys_out s3 = sys_out s"
    using call_drv_output [OF 1 channel_num_quiet] sys_malloc_output [OF 2]
      call_drv2_output [OF 3 channels_quiet] by simp
  ultimately show ?thesis by (rule answers_from [rotated])
qed

lemma get_programs_answers:
  assumes codec: "pdu_codec P enc" and run: "get_programs P A cmd s = Inr (st, s')"
  shows "responds enc (counted program_form) cmd s st s'"
proof (cases "\<exists>i t c b d. read_pdu_at P cmd 0 [Fmt0, FmtC, Fmt0, FmtL, FmtL] =
    Some [Arg0 i, ArgC t, Arg0 c, ArgL b, ArgL d]")
  case False
  with run have "st = ERROR_FAIL" "s' = s"
    by (auto simp: get_programs_def split: option.splits list.splits pdu_arg.splits)
  then show ?thesis by simp
next
  case True
  then obtain i t c b d where rd: "read_pdu_at P cmd 0 [Fmt0, FmtC, Fmt0, FmtL, FmtL] =
      Some [Arg0 i, ArgC t, Arg0 c, ArgL b, ArgL d]" by blast
  with run obtain n s1 where 1: "call_drv (api_get_prog_num A i t c b d) s = Inr (n, s1)"
    by (auto simp: get_programs_def res_simps)
  let ?bytes = "to_size P (sizeof_tv_program P * uint n)"
  obtain ps s2 where 2: "sys_malloc P ?bytes
      (replicate (?bytes div nat (sizeof_tv_program P)) (uninit_program P)) s1 = (ps, s2)"
    by (metis surj_pair)
  from run rd 1 2 obtain ret ps3 s3 where
    3: "call_drv2 (api_get_programs A i t c b d n ps) s2 = Inr (ret, ps3, s3)"
    and fin: "(if ret \<noteq> TV_STATUS_SUCCESS then Inr (uint ret, s3)
      else reply_items P calculate_prog_size (append_program P) release_programs cmd n ps3 s3) =
        Inr (st, s')"
    by (auto simp: get_programs_def andThen_Inr_iff Let_def)
  have "responds enc (counted program_form) cmd s3 st s'"
    using fin by (auto simp: status_error split: if_splits intro: reply_programs_answers [OF codec])
  moreover have "sys_out s3 = sys_out s"
    using call_drv_output [OF 1 prog_num_quiet] sys_malloc_output [OF 2]
      call_drv2_output [OF 3 programs_quiet] by simp
  ultimately show ?thesis by (rule answers_from [rotated])
qed

end

lemma release_channels_output:
  "on_env (release_channels n p) t = Inr t' \<Longrightarrow> sys_out t' = sys_out t"
  by (rule on_env_output) (auto dest: release_channels_sent)

lemma destroy_wbuf_output:
  "on_env (destroy_pdu_wbuf b) t = Inr t' \<Longrightarrow> sys_out t' = sys_out t"
  by (rule on_env_output) (auto dest: destroy_pdu_wbuf_sent)

context quiet_driver
begin

lemma set_channel_answers:
  assumes codec: "pdu_codec P enc" and run: "set_channel P A cmd s = Inr (st, s')"
  shows "responds enc never cmd s st s'"
proof (cases "\<exists>i t c. read_pdu_at P cmd 0 [Fmt0, FmtC, Fmt0] = Some [Arg0 i, ArgC t, Arg0 c]")
  case False
  with run have "st = ERROR_FAIL" "s' = s"
    by (auto simp: set_channel_def split: option.splits list.splits pdu_arg.splits)
  then show ?thesis by simp
next
  case True
  then obtain i t c where rd: "read_pdu_at P cmd 0 [Fmt0, FmtC, Fmt0] = Some [Arg0 i, ArgC t, Arg0 c]"
    by blast
  obtain ch s2 where 2: "sys_malloc P (nat (sizeof_tv_channel P)) [uninit_channel P] s = (ch, s2)"
    by (metis surj_pair)
  from run rd 2 obtain ret ch3 s3 where
    3: "call_drv2 (api_set_channel A i t c ch) s2 = Inr (ret, ch3, s3)"
    by (auto simp: set_channel_def andThen_Inr_iff Let_def)
  have o3: "sys_out s3 = sys_out s"
    using sys_malloc_output [OF 2] call_drv2_output [OF 3 channel_quiet] by simp
  have "responds enc never cmd s3 st s'"
  proof (cases "ret = TV_STATUS_SUCCESS")
    case False
    with run rd 2 3 show ?thesis
      by (auto simp: set_channel_def andThen_Inr_iff Let_def status_error
          dest: release_channels_output)
  next
    case True
    let ?lv = "live (s_env s3)"
    from True run rd 2 3 obtain x sz where x: "elem_ptr ?lv ch3 0 = Inr x"
      "calculate_ch_size ?lv x = Inr sz"
      by (auto simp: set_channel_def andThen_Inr_iff Let_def)
    obtain w s4 where 4: "sys_create_wbuf P (unat sz) 0 False s3 = (w, s4)" by (metis surj_pair)
    note o4 = sys_create_wbuf_output [OF 4]
    show ?thesis
    proof (cases w)
      case None
      with True run rd 2 3 x 4 o4 show ?thesis by (simp add: set_channel_def)
    next
      case (Some b)
      let ?b = "init_pdu (pdu_service cmd) (pdu_opcode cmd) b"
      from True Some run rd 2 3 x 4 obtain ok b2 where
        b2: "append_channel P (live (s_env s4)) x ?b = Inr (ok, b2)"
        and fin: "(if ok then andThen (call_send P (dtv_send_pdu s4) b2 s4)
              (\<lambda>s. andThen (on_env (release_channels 1 ch3) s) (\<lambda>s. Inr (ERROR_NONE, s)))
            else andThen (on_env (release_channels 1 ch3) s4) (\<lambda>s.
              andThen (on_env (destroy_pdu_wbuf b2) s) (\<lambda>s. Inr (ERROR_NOMEM, s)))) = Inr (st, s')"
        by (auto simp: set_channel_def andThen_Inr_iff)
      have "\<not> ok" using emitsD [OF append_channel_emits] b2 by (auto simp: never_def)
      then have "responds enc never cmd s4 st s'"
        using fin by (auto simp: res_simps split: if_splits
            dest!: release_channels_output destroy_wbuf_output intro: answers_sent)
      with o4 show ?thesis by (rule answers_from)
    qed
  qed
  with o3 show ?thesis by (rule answers_from)
qed

end

lemma store_fds_header:
  "store_fds P nh w = Inr w' \<Longrightarrow> wb_addr w' = wb_addr w \<and> wb_size w' = wb_size w \<and>
     wb_pdu w' = wb_pdu w"
  by (auto simp: store_fds_def res_simps Let_def split: if_splits)

lemma handle_wbuf_output:
  assumes "handle_wbuf P nh s = Inr (w, s')" shows "sys_out s' = sys_out s"
  using assms
  by (auto simp: handle_wbuf_def Let_def res_simps split: if_splits prod.splits option.splits
      dest: sys_create_wbuf_output)

context quiet_driver
begin

lemma set_source_answers:
  assumes codec: "pdu_codec P enc" and run: "set_source P A cmd s = Inr (st, s')"
  shows "responds enc handle_form cmd s st s'"
proof (cases "\<exists>i t. read_pdu_at P cmd 0 [Fmt0, FmtC] = Some [Arg0 i, ArgC t]")
  case False
  with run have "st = ERROR_FAIL" "s' = s"
    by (auto simp: set_source_def split: option.splits list.splits pdu_arg.splits)
  then show ?thesis by simp
next
  case True
  then obtain i t where rd: "read_pdu_at P cmd 0 [Fmt0, FmtC] = Some [Arg0 i, ArgC t]" by blast
  with run obtain ret strm s1 where
    1: "call_drv2 (api_set_source A i t (uninit_stream P)) s = Inr (ret, strm, s1)"
    by (auto simp: set_source_def andThen_Inr_iff)
  have o1: "sys_out s1 = sys_out s" using call_drv2_output [OF 1 source_quiet] .
  have "responds enc handle_form cmd s1 st s'"
  proof (cases "ret = TV_STATUS_SUCCESS")
    case False
    with run rd 1 show ?thesis by (auto simp: set_source_def status_error)
  next
    case True
    with run rd 1 obtain nh w s2 where
      2: "load (live (s_env s1)) (ts_handle strm) = Inr nh" "handle_wbuf P nh s1 = Inr (w, s2)"
      by (auto simp: set_source_def andThen_Inr_iff)
    note o2 = handle_wbuf_output [OF 2(2)]
    show ?thesis
    proof (cases w)
      case None
      with True run rd 1 2 o2 show ?thesis by (simp add: set_source_def)
    next
      case (Some b)
      let ?b = "init_pdu (pdu_service cmd) (pdu_opcode cmd) b"
      from True Some run rd 1 2 obtain ok b2 where
        b2: "append_handle P nh ?b = Inr (ok, b2)"
        and fin: "(if ok then andThen (call_send P (dtv_send_pdu s2) b2 s2) (\<lambda>s. Inr (ERROR_NONE, s))
            else andThen (on_env (destroy_pdu_wbuf b2) s2) (\<lambda>s. Inr (ERROR_NOMEM, s))) = Inr (st, s')"
        by (auto simp: set_source_def andThen_Inr_iff)
      note filled = emits_payload [OF append_handle_emits [OF codec]]
      have "responds enc handle_form cmd s2 st s'"
        using fin b2 by (auto simp: res_simps split: if_splits
            dest!: destroy_wbuf_output intro: answers_sent filled)
      with o2 show ?thesis by (rule answers_from)
    qed
  qed
  with o1 show ?thesis by (rule answers_from)
qed

lemma dtv_table_answers:
  assumes codec: "pdu_codec P enc" and h: "dtv_table P A (pdu_opcode cmd) = Some h" "h cmd s = Inr (st, s')"
  shows "answers (\<lambda>p. payload enc (dtv_response_form (pdu_opcode p)) p) sys_out cmd s st s'"
proof -
  consider (tuners) "pdu_opcode cmd = OPCODE_GET_TUNERS" "h = get_tuners P A"
    | (source) "pdu_opcode cmd = OPCODE_SET_SOURCE" "h = set_source P A"
    | (empty) "pdu_opcode cmd \<in> {OPCODE_START_SCAN, OPCODE_STOP_SCAN, OPCODE_CLEAR_CACHE}"
        "h = start_scan P A \<or> h = stop_scan P A \<or> h = clean_cache P A"
    | (channel) "h = set_channel P A"
    | (channels) "pdu_opcode cmd = OPCODE_GET_CHANNEL" "h = get_channels P A"
    | (programs) "pdu_opcode cmd = OPCODE_GET_PROGRAM" "h = get_programs P A"
    using h(1) by (auto simp: dtv_table_def split: if_splits)
  then show ?thesis
  proof cases
    case tuners
    from get_tuners_answers [OF codec h(2) [unfolded tuners(2)]] show ?thesis
      by (rule answers_mono) (simp add: tuners(1) dtv_response_form_def)
  next
    case source
    from set_source_answers [OF codec h(2) [unfolded source(2)]] show ?thesis
      by (rule answers_mono) (simp add: source(1) dtv_response_form_def dtv_opcode_defs)
  next
    case empty
    then have "responds enc (just []) cmd s st s'"
      using h(2) start_scan_answers stop_scan_answers clean_cache_answers by blast
    then show ?thesis
      by (rule answers_mono) (use empty(1) in \<open>auto simp: dtv_response_form_def dtv_opcode_defs\<close>)
  next
    case channel
    from set_channel_answers [OF codec h(2) [unfolded channel]] show ?thesis
      by (rule answers_mono) (simp add: payload_def never_def)
  next
    case channels
    from get_channels_answers [OF codec h(2) [unfolded channels(2)]] show ?thesis
      by (rule answers_mono)
        (auto simp: channels(1) dtv_response_form_def dtv_opcode_defs elim: payload_mono intro: counted_never)
  next
    case programs
    from get_programs_answers [OF codec h(2) [unfolded programs(2)]] show ?thesis
      by (rule answers_mono) (simp add: programs(1) dtv_response_form_def dtv_opcode_defs)
  qed
qed

end

section \<open>The table of the service\<close>

sublocale quiet_driver \<subseteq> dtv_commands: handler_table "dtv_table P A"
  "\<lambda>p. payload enc (dtv_response_form (pdu_opcode p)) p" sys_out pdu_opcode
  "PDU_MAX_NUM_OPCODES P" "pdu_codec P enc" for P enc
  by unfold_locales (rule dtv_table_answers)

context quiet_driver
begin

lemma dtv_handler_answers:
  "pdu_codec P enc \<Longrightarrow> dtv_handler P A cmd s = Inr (st, s') \<Longrightarrow>
     answers (\<lambda>p. payload enc (dtv_response_form (pdu_opcode p)) p) sys_out cmd s st s'"
  unfolding dtv_handler_def handle_pdu_by_opcode_def by (rule dtv_commands.dispatch_answers)

lemma dtv_handler_unknown:
  "dtv_table P A (pdu_opcode cmd) = None \<Longrightarrow>
     dtv_handler P A cmd s = Inr (ERROR_UNSUPPORTED, s)"
  by (simp add: dtv_handler_def handle_pdu_by_opcode_def dtv_commands.dispatch_unknown)

end

section \<open>dtv.c sends nothing\<close>

lemma ext_call_sent: "ext_call f e = (r, e') \<Longrightarrow> sent e' = sent e"
  by (simp add: ext_call_env)

lemma malloc_sent: "malloc P n x e = (p, e') \<Longrightarrow> sent e' = sent e"
  by (auto simp: malloc_def fresh_def ext_call_def split: prod.splits if_splits)

lemma device_close_stream_sent:
  "device_close_stream P h d st e = Inr (r, e') \<Longrightarrow> sent e' = sent e"
  by (auto simp: device_close_stream_def split: if_splits dest: ext_call_sent)

lemma get_stream_sent:
  "tv_input_hal_get_stream P d strm h e = Inr (r, strm', h', e') \<Longrightarrow> sent e' = sent e"
  by (auto simp: tv_input_hal_get_stream_def retire_stream_def res_simps Let_def
      split: if_splits prod.splits option.splits dest!: ext_call_sent device_close_stream_sent)

lemma get_tuner_sent:
  assumes "dtv_get_tuner P ids k (ts, e) = Inr (ts', e')" shows "sent e' = sent e"
proof -
  obtain dev where dev: "load_at (live e) ids k = Inr dev"
    using assms by (auto simp: dtv_get_tuner_def andThen_Inr_iff)
  obtain str e1 where m: "malloc P (unat (get_int_length dev) + 1) (tuner_id_text dev) e = (str, e1)"
    by (metis surj_pair)
  with assms dev have "e' = e1" by (auto simp: dtv_get_tuner_def andThen_Inr_iff Let_def)
  with malloc_sent [OF m] show ?thesis by simp
qed

lemma get_tuners_sent:
  assumes "dtv_get_tuners P n ts (h, e) = Inr (r, ts', (h', e'))"
  shows "sent e' = sent e"
proof -
  let ?bytes = "to_size P (4 * uint n)"
  obtain ids e1 where m: "malloc P ?bytes (replicate (?bytes div 4) (junk P)) e = (ids, e1)"
    by (metis surj_pair)
  note e1 = malloc_sent [OF m]
  have loop: "sent e3 = sent e1" if run: "for_loop (dtv_get_tuner P ids2) 0 k (ts, e1) = Inr (ts3, e3)"
    for ids2 k ts3 e3
  proof -
    have "sent (snd t') = sent e1" if "sent (snd t) = sent e1" "dtv_get_tuner P ids2 j t = Inr t'" for j t t'
      using that get_tuner_sent [of P ids2 j "fst t" "snd t" "fst t'" "snd t'"] by simp
    then show ?thesis
      using for_loop_rule [OF run, where I = "\<lambda>_ t. sent (snd t) = sent e1"] by simp
  qed
  from assms m e1 show ?thesis
    by (auto simp: dtv_get_tuners_def Let_def res_simps split: if_splits
        dest!: free_ptr_sent loop)
qed

interpretation dtv_impl_quiet: quiet_driver "dtv_impl P" for P
  by unfold_locales
    (auto simp: dtv_impl_def dtv_init_def dtv_uninit_def dtv_get_tuner_num_def dtv_set_source_def
      dtv_start_scanning_def dtv_stop_scanning_def dtv_cln_scanned_channel_cache_def
      dtv_set_channel_def dtv_get_channel_num_def dtv_get_channels_def dtv_get_prog_num_def
      dtv_get_programs_def res_simps Let_def quiet_def quiet2_def
      dest: get_tuners_sent get_stream_sent)

section \<open>Properties\<close>

lemma quiet2_fill: "quiet2 (fill x addrs p)"
  by (auto simp: quiet2_def fill_def)

lemma sample_vendor_quiet: "quiet_driver sample_vendor"
  using dtv_impl_quiet.quiet_driver_axioms [of sample_platform]
  by (simp add: quiet_driver_def sample_vendor_def quiet_return quiet2_fill)

definition scan_cmd :: pdu where
  "scan_cmd = \<lparr>pdu_service = SERVICE_DTV, pdu_opcode = OPCODE_START_SCAN, pdu_data = [0x37, 0, 1]\<rparr>"

end
