(* ===== verification/Registry.thy ===== *)
theory Registry
  imports Dtv_Replies
begin

text \<open>
  registry.c and the tables of service.c: registering and unregistering services, and the call
  of a registered service's handler. The lemmas show what each branch of the two commands does
  to the table of handlers and to the output, that the table only ever holds the handlers
  service.c knows, and that the registry answers like any other service.
\<close>

definition OPCODE_REGISTER_MODULE :: u8 where "OPCODE_REGISTER_MODULE = 0x01"
definition OPCODE_UNREGISTER_MODULE :: u8 where "OPCODE_UNREGISTER_MODULE = 0x02"
definition OPCODE_REGISTER_MODULE_RSP_SIZE :: nat where "OPCODE_REGISTER_MODULE_RSP_SIZE = 4"

section \<open>service.c\<close>

text \<open>The constant tables; \<open>g_service_handler\<close> is part of the state.\<close>

definition g_register_service ::
  "'w platform \<Rightarrow> 'w drv dtv_api \<Rightarrow> u8 \<Rightarrow>
     (send_fn option \<Rightarrow> 'w sys \<Rightarrow> (handler_fn option \<times> 'w sys) res) option" where
  "g_register_service P A = [SERVICE_DTV \<mapsto> register_dtv P A]"

definition g_unregister_service ::
  "'w platform \<Rightarrow> 'w drv dtv_api \<Rightarrow> u8 \<Rightarrow> ('w sys \<Rightarrow> (int \<times> 'w sys) res) option" where
  "g_unregister_service P A = [SERVICE_DTV \<mapsto> unregister_dtv P A]"

section \<open>registry.c\<close>

text \<open>\<open>send_pdu\<close> only logs that there is no send function, and calls it.\<close>

definition registry_send_pdu :: "'w platform \<Rightarrow> wbuf \<Rightarrow> 'w sys \<Rightarrow> 'w sys res" where
  "registry_send_pdu P w s = call_send P (g_send_pdu s) w s"

definition register_module ::
  "'w platform \<Rightarrow> 'w drv dtv_api \<Rightarrow> pdu \<Rightarrow> 'w sys \<Rightarrow> (int \<times> 'w sys) res" where
  "register_module P A cmd s =
     (case read_pdu_at P cmd 0 [FmtC] of
        Some [ArgC service] \<Rightarrow>
          if PDU_MAX_NUM_SERVICES P \<le> unat service then Inl Out_of_bounds
          else if g_service_handler s service \<noteq> None then Inr (ERROR_FAIL, s)
          else (case g_register_service P A service of
            None \<Rightarrow> Inr (ERROR_FAIL, s)
          | Some register \<Rightarrow>
              (case sys_create_wbuf P OPCODE_REGISTER_MODULE_RSP_SIZE 0 False s of
                (None, s) \<Rightarrow> Inr (ERROR_NOMEM, s)
              | (Some w, s) \<Rightarrow>
                  andThen (register (g_send_pdu s) s) (\<lambda>(handler, s).
                    case handler of
                      None \<Rightarrow> andThen (on_env (destroy_pdu_wbuf w) s) (\<lambda>s. Inr (ERROR_FAIL, s))
                    | Some h \<Rightarrow>
                        let s = s\<lparr>g_service_handler := (g_service_handler s)(service := Some h)\<rparr>
                        in andThen (wbuf_append P [ArgI (of_nat PROTOCOL_VERSION)]
                                      (init_pdu (pdu_service cmd) (pdu_opcode cmd) w))
                             (\<lambda>(ok, w).
                             if ok then
                               andThen (registry_send_pdu P w s) (\<lambda>s. Inr (ERROR_NONE, s))
                             else
                               andThen (on_env (destroy_pdu_wbuf w) s)
                                 (\<lambda>s. Inr (ERROR_FAIL, s))))))
      | _ \<Rightarrow> Inr (ERROR_PARM_INVALID, s))"

definition unregister_module ::
  "'w platform \<Rightarrow> 'w drv dtv_api \<Rightarrow> pdu \<Rightarrow> 'w sys \<Rightarrow> (int \<times> 'w sys) res" where
  "unregister_module P A cmd s =
     (case read_pdu_at P cmd 0 [FmtC] of
        Some [ArgC service] \<Rightarrow>
          (case sys_create_wbuf P 0 0 False s of
            (None, s) \<Rightarrow> Inr (ERROR_NOMEM, s)
          | (Some w, s) \<Rightarrow>
              if service = SERVICE_REGISTRY
              then andThen (on_env (destroy_pdu_wbuf w) s) (\<lambda>s. Inr (ERROR_FAIL, s))
              else if PDU_MAX_NUM_SERVICES P \<le> unat service then Inl Out_of_bounds
              else (case g_unregister_service P A service of
                None \<Rightarrow> andThen (on_env (destroy_pdu_wbuf w) s) (\<lambda>s. Inr (ERROR_FAIL, s))
              | Some unregister \<Rightarrow>
                  andThen (unregister s) (\<lambda>(r, s).
                    if r < 0
                    then andThen (on_env (destroy_pdu_wbuf w) s) (\<lambda>s. Inr (ERROR_FAIL, s))
                    else
                      let s = s\<lparr>g_service_handler := (g_service_handler s)(service := None)\<rparr>
                      in andThen (registry_send_pdu P
                                    (init_pdu (pdu_service cmd) (pdu_opcode cmd) w) s)
                           (\<lambda>s. Inr (ERROR_NONE, s)))))
      | _ \<Rightarrow> Inr (ERROR_PARM_INVALID, s))"

definition registry_table ::
  "'w platform \<Rightarrow> 'w drv dtv_api \<Rightarrow> u8 \<Rightarrow> 'w sys handler option" where
  "registry_table P A =
     [OPCODE_REGISTER_MODULE \<mapsto> register_module P A,
      OPCODE_UNREGISTER_MODULE \<mapsto> unregister_module P A]"

definition registry_handler ::
  "'w platform \<Rightarrow> 'w drv dtv_api \<Rightarrow> pdu \<Rightarrow> 'w sys \<Rightarrow> (int \<times> 'w sys) res" where
  "registry_handler P A cmd s = handle_pdu_by_opcode P cmd (registry_table P A) s"

definition init_registry :: "send_fn option \<Rightarrow> 'w sys \<Rightarrow> int \<times> 'w sys" where
  "init_registry send_pdu_cb s =
     (0, s\<lparr>g_send_pdu := send_pdu_cb,
           g_service_handler := (g_service_handler s)(SERVICE_REGISTRY := Some Registry_handler)\<rparr>)"

definition uninit_registry :: "'w sys \<Rightarrow> 'w sys" where
  "uninit_registry s =
     s\<lparr>g_service_handler := (g_service_handler s)(SERVICE_REGISTRY := None), g_send_pdu := None\<rparr>"

text \<open>A call through an entry of \<open>g_service_handler\<close>.\<close>

fun call_handler ::
  "'w platform \<Rightarrow> 'w drv dtv_api \<Rightarrow> handler_fn \<Rightarrow> pdu \<Rightarrow> 'w sys \<Rightarrow> (int \<times> 'w sys) res" where
  "call_handler P A Registry_handler cmd s = registry_handler P A cmd s"
| "call_handler P A Dtv_handler cmd s = dtv_handler P A cmd s"

definition service_table ::
  "'w platform \<Rightarrow> 'w drv dtv_api \<Rightarrow> (u8 \<Rightarrow> handler_fn option) \<Rightarrow> u8 \<Rightarrow> 'w sys handler option" where
  "service_table P A handlers v = map_option (call_handler P A) (handlers v)"

section \<open>Registering and unregistering send nothing\<close>

lemma notify_sent: "device_init_notify P ev h e = Inr (h', e') \<Longrightarrow> sent e' = sent e"
  by (auto simp: device_init_notify_def res_simps split: if_splits event_type.splits
      dest: device_close_stream_sent)

lemma run_notify_sent:
  "run_steps (notify_step P) evs (h, e) = Inr (h', e') \<Longrightarrow> sent e' = sent e"
proof (induction evs arbitrary: h e)
  case (Cons ev evs)
  from Cons.prems obtain h1 e1 where "notify_step P ev (h, e) = Inr (h1, e1)"
    "run_steps (notify_step P) evs (h1, e1) = Inr (h', e')"
    by (auto simp: res_simps)
  moreover from this(1) have "sent e1 = sent e" by (auto simp: notify_step_def dest: notify_sent)
  ultimately show ?case using Cons.IH [of h1 e1] by simp
qed simp

lemma hal_init_quiet:
  "quiet (\<lambda>(h, e). andThen (tv_input_hal_init P h e) (\<lambda>(r, h, e). Inr (r, (h, e))))"
  by (auto simp: quiet_def tv_input_hal_init_def Let_def res_simps
      split: if_splits prod.splits dest!: ext_call_sent run_notify_sent)

lemma hal_uninit_quiet:
  "quiet (\<lambda>(h, e). andThen (tv_input_hal_uninit P h e) (\<lambda>(r, e). Inr (r, (h, e))))"
  by (auto simp: quiet_def tv_input_hal_uninit_def res_simps split: if_splits
      dest!: for_loop_sent dest: device_close_stream_sent)

context quiet_driver
begin

lemma register_dtv_output:
  assumes "register_dtv P A f s = Inr (h, s')" shows "sys_out s' = sys_out s"
proof -
  obtain r s1 where 1: "hal_init_sys P s = Inr (r, s1)"
    using assms by (auto simp: register_dtv_def andThen_Inr_iff)
  have o1: "sys_out s1 = sys_out s"
    using call_drv_output [OF 1 [unfolded hal_init_sys_def] hal_init_quiet] .
  show ?thesis
    using assms 1 o1
    by (auto simp: register_dtv_def Let_def andThen_Inr_iff hal_uninit_sys_def split: if_splits
        dest!: call_drv_output [OF _ hal_uninit_quiet] call_drv_output [OF _ init_quiet]
          call_drv_output [OF _ uninit_quiet])
qed

lemma unregister_dtv_output:
  "unregister_dtv P A s = Inr (r, s') \<Longrightarrow> sys_out s' = sys_out s"
  by (auto simp: unregister_dtv_def andThen_Inr_iff hal_uninit_sys_def split: if_splits
      dest!: call_drv_output [OF _ hal_uninit_quiet] call_drv_output [OF _ uninit_quiet])

end

section \<open>The registry answers\<close>

text \<open>The payloads of the registry's responses, and those of a service with a given handler.\<close>

definition registry_response_form :: "u8 \<Rightarrow> form" where
  "registry_response_form oc =
     (if oc = OPCODE_REGISTER_MODULE then just [ArgI (of_nat PROTOCOL_VERSION)]
      else if oc = OPCODE_UNREGISTER_MODULE then just []
      else never)"

fun handler_form :: "handler_fn \<Rightarrow> u8 \<Rightarrow> form" where
  "handler_form Registry_handler oc = registry_response_form oc"
| "handler_form Dtv_handler oc = dtv_response_form oc"

context quiet_driver
begin

lemma register_module_answers:
  assumes codec: "pdu_codec P enc" and run: "register_module P A cmd s = Inr (st, s')"
  shows "responds enc (just [ArgI (of_nat PROTOCOL_VERSION)]) cmd s st s'"
proof (cases "\<exists>v. read_pdu_at P cmd 0 [FmtC] = Some [ArgC v] \<and> g_service_handler s v = None \<and>
    g_register_service P A v \<noteq> None")
  case False
  with run have "st \<noteq> ERROR_NONE" "s' = s"
    by (auto simp: register_module_def split: option.splits list.splits pdu_arg.splits if_splits)
  then show ?thesis by simp
next
  case True
  then obtain v reg where v: "read_pdu_at P cmd 0 [FmtC] = Some [ArgC v]"
    "g_service_handler s v = None" "g_register_service P A v = Some reg" by auto
  then have reg: "reg = register_dtv P A" by (simp add: g_register_service_def split: if_splits)
  have in_range: "\<not> PDU_MAX_NUM_SERVICES P \<le> unat v"
    using run v by (auto simp: register_module_def)
  obtain w s1 where c: "sys_create_wbuf P OPCODE_REGISTER_MODULE_RSP_SIZE 0 False s = (w, s1)"
    by (metis surj_pair)
  note o1 = sys_create_wbuf_output [OF c]
  show ?thesis
  proof (cases w)
    case None
    with run v c in_range o1 show ?thesis by (simp add: register_module_def)
  next
    case (Some b)
    let ?b = "init_pdu (pdu_service cmd) (pdu_opcode cmd) b"
    from Some run v c in_range reg obtain h s2 where
      2: "register_dtv P A (g_send_pdu s1) s1 = Inr (h, s2)"
      by (auto simp: register_module_def andThen_Inr_iff)
    have o2: "sys_out s2 = sys_out s" using register_dtv_output [OF 2] o1 by simp
    show ?thesis
    proof (cases h)
      case None
      with Some run v c in_range reg 2 o2 show ?thesis
        by (auto simp: register_module_def andThen_Inr_iff dest: destroy_wbuf_output)
    next
      case (Some hf)
      let ?s = "s2\<lparr>g_service_handler := (g_service_handler s2)(v := Some hf)\<rparr>"
      from Some \<open>w = Some b\<close> run v c in_range reg 2 obtain ok b2 where
        b2: "wbuf_append P [ArgI (of_nat PROTOCOL_VERSION)] ?b = Inr (ok, b2)"
        and fin: "(if ok then andThen (registry_send_pdu P b2 ?s) (\<lambda>s. Inr (ERROR_NONE, s))
            else andThen (on_env (destroy_pdu_wbuf b2) ?s) (\<lambda>s. Inr (ERROR_FAIL, s))) = Inr (st, s')"
        by (auto simp: register_module_def andThen_Inr_iff Let_def)
      have filled: "ok \<Longrightarrow> pdu_service (wb_pdu b2) = pdu_service cmd"
        "ok \<Longrightarrow> pdu_opcode (wb_pdu b2) = pdu_opcode cmd"
        "ok \<Longrightarrow> payload enc (just [ArgI (of_nat PROTOCOL_VERSION)]) (wb_pdu b2)"
        using emits_payload [OF emits_append [OF codec]] b2 by simp_all
      have "responds enc (just [ArgI (of_nat PROTOCOL_VERSION)]) cmd ?s st s'"
        using fin filled by (auto simp: res_simps registry_send_pdu_def split: if_splits
            dest!: destroy_wbuf_output intro: answers_sent)
      moreover have "sys_out ?s = sys_out s" using o2 by simp
      ultimately show ?thesis by (rule answers_from [rotated])
    qed
  qed
qed

lemma unregister_module_answers:
  assumes run: "unregister_module P A cmd s = Inr (st, s')"
  shows "responds enc (just []) cmd s st s'"
proof (cases "\<exists>v. read_pdu_at P cmd 0 [FmtC] = Some [ArgC v]")
  case False
  with run have "st \<noteq> ERROR_NONE" "s' = s"
    by (auto simp: unregister_module_def split: option.splits list.splits pdu_arg.splits)
  then show ?thesis by simp
next
  case True
  then obtain v where v: "read_pdu_at P cmd 0 [FmtC] = Some [ArgC v]" by blast
  obtain w s1 where c: "sys_create_wbuf P 0 0 False s = (w, s1)" by (metis surj_pair)
  note o1 = sys_create_wbuf_output [OF c]
  have "responds enc (just []) cmd s1 st s'"
  proof (cases "\<exists>b r s2. w = Some b \<and> g_unregister_service P A v \<noteq> None \<and>
      unregister_dtv P A s1 = Inr (r, s2) \<and> \<not> r < 0 \<and> v \<noteq> SERVICE_REGISTRY")
    case False
    with run v c show ?thesis
      by (auto simp: unregister_module_def g_unregister_service_def andThen_Inr_iff Let_def
          split: option.splits if_splits dest!: destroy_wbuf_output dest: unregister_dtv_output)
  next
    case True
    then obtain b r s2 where 2: "w = Some b" "g_unregister_service P A v \<noteq> None"
      "unregister_dtv P A s1 = Inr (r, s2)" "\<not> r < 0" "v \<noteq> SERVICE_REGISTRY" by blast
    then have "g_unregister_service P A v = Some (unregister_dtv P A)"
      by (simp add: g_unregister_service_def split: if_splits)
    with run v c 2 have "st = ERROR_NONE" "call_send P (g_send_pdu s2)
        (init_pdu (pdu_service cmd) (pdu_opcode cmd) b)
        (s2\<lparr>g_service_handler := (g_service_handler s2)(v := None)\<rparr>) = Inr s'"
      by (auto simp: unregister_module_def andThen_Inr_iff Let_def registry_send_pdu_def
          split: if_splits)
    then have "responds enc (just []) cmd (s2\<lparr>g_service_handler := (g_service_handler s2)(v := None)\<rparr>) st s'"
      by (auto intro: answers_sent payload_nothing)
    moreover have "sys_out (s2\<lparr>g_service_handler := (g_service_handler s2)(v := None)\<rparr>) = sys_out s1"
      using unregister_dtv_output [OF 2(3)] by simp
    ultimately show ?thesis by (rule answers_from [rotated])
  qed
  with o1 show ?thesis by (rule answers_from)
qed

end

context quiet_driver
begin

lemma registry_table_answers:
  assumes codec: "pdu_codec P enc" and h: "registry_table P A (pdu_opcode cmd) = Some h"
    "h cmd s = Inr (st, s')"
  shows "answers (\<lambda>p. payload enc (registry_response_form (pdu_opcode p)) p) sys_out cmd s st s'"
proof -
  consider "pdu_opcode cmd = OPCODE_REGISTER_MODULE" "h = register_module P A"
    | "pdu_opcode cmd = OPCODE_UNREGISTER_MODULE" "h = unregister_module P A"
    using h(1) by (auto simp: registry_table_def split: if_splits)
  then show ?thesis
  proof cases
    case 1
    from register_module_answers [OF codec h(2) [unfolded 1(2)]] show ?thesis
      by (rule answers_mono) (simp add: 1(1) registry_response_form_def)
  next
    case 2
    from unregister_module_answers [OF h(2) [unfolded 2(2)]] show ?thesis
      by (rule answers_mono)
        (simp add: 2(1) registry_response_form_def OPCODE_REGISTER_MODULE_def OPCODE_UNREGISTER_MODULE_def)
  qed
qed

end

sublocale quiet_driver \<subseteq> registry_commands: handler_table "registry_table P A"
  "\<lambda>p. payload enc (registry_response_form (pdu_opcode p)) p" sys_out pdu_opcode
  "PDU_MAX_NUM_OPCODES P" "pdu_codec P enc" for P enc
  by unfold_locales (rule registry_table_answers)

context quiet_driver
begin

lemma call_handler_answers:
  assumes codec: "pdu_codec P enc" and run: "call_handler P A f cmd s = Inr (st, s')"
  shows "answers (\<lambda>p. payload enc (handler_form f (pdu_opcode p)) p) sys_out cmd s st s'"
proof (cases f)
  case Registry_handler
  with run registry_commands.dispatch_answers [OF codec] show ?thesis
    by (simp add: registry_handler_def handle_pdu_by_opcode_def)
next
  case Dtv_handler
  with run dtv_handler_answers [OF codec] show ?thesis by simp
qed

lemma service_table_answers:
  assumes "pdu_codec P enc" and "service_table P A handlers (pdu_service cmd) = Some h"
    and "h cmd s = Inr (st, s')"
  shows "answers (\<lambda>p. \<exists>f. handlers (pdu_service p) = Some f \<and> payload enc (handler_form f (pdu_opcode p)) p)
           sys_out cmd s st s'"
proof -
  from assms(2) obtain f where f: "handlers (pdu_service cmd) = Some f" "h = call_handler P A f"
    by (auto simp: service_table_def)
  from call_handler_answers [OF assms(1) assms(3) [unfolded f(2)]] show ?thesis
    by (rule answers_mono) (simp add: f(1))
qed

end

sublocale quiet_driver \<subseteq> services: handler_table "service_table P A handlers"
  "\<lambda>p. \<exists>f. handlers (pdu_service p) = Some f \<and> payload enc (handler_form f (pdu_opcode p)) p"
  sys_out pdu_service "PDU_MAX_NUM_SERVICES P" "pdu_codec P enc" for P handlers enc
  by unfold_locales (rule service_table_answers)

section \<open>Commands keep the registration state\<close>

lemma reply_empty_services: "reply_empty P cmd s = Inr x \<Longrightarrow> services (snd x) = services s"
  by (auto simp: reply_empty_def res_simps case_prod_beta split: option.splits dest!: services_keep)

lemma reply_items_services:
  "reply_items P calc app release cmd num items s = Inr x \<Longrightarrow> services (snd x) = services s"
  by (auto simp: reply_items_def andThen_Inr_iff case_prod_beta split: option.splits if_splits
      dest!: services_keep)

lemma get_tuners_services: "get_tuners P A cmd s = Inr x \<Longrightarrow> services (snd x) = services s"
  by (auto simp: get_tuners_def andThen_Inr_iff case_prod_beta Let_def split: if_splits
      dest!: services_keep reply_items_services)

lemma start_scan_services: "start_scan P A cmd s = Inr x \<Longrightarrow> services (snd x) = services s"
  by (auto simp: start_scan_def andThen_Inr_iff case_prod_beta
      split: option.splits list.splits pdu_arg.splits if_splits
      dest!: services_keep reply_empty_services)

lemma stop_scan_services: "stop_scan P A cmd s = Inr x \<Longrightarrow> services (snd x) = services s"
  by (auto simp: stop_scan_def andThen_Inr_iff case_prod_beta
      split: option.splits list.splits pdu_arg.splits if_splits
      dest!: services_keep reply_empty_services)

lemma clean_cache_services: "clean_cache P A cmd s = Inr x \<Longrightarrow> services (snd x) = services s"
  by (auto simp: clean_cache_def andThen_Inr_iff case_prod_beta split: if_splits
      dest!: services_keep reply_empty_services)

lemma get_channels_services: "get_channels P A cmd s = Inr x \<Longrightarrow> services (snd x) = services s"
  by (auto simp: get_channels_def andThen_Inr_iff case_prod_beta Let_def
      split: option.splits list.splits pdu_arg.splits if_splits
      dest!: services_keep reply_items_services)

lemma get_programs_services: "get_programs P A cmd s = Inr x \<Longrightarrow> services (snd x) = services s"
  by (auto simp: get_programs_def andThen_Inr_iff case_prod_beta Let_def
      split: option.splits list.splits pdu_arg.splits if_splits
      dest!: services_keep reply_items_services)

lemma set_channel_services: "set_channel P A cmd s = Inr x \<Longrightarrow> services (snd x) = services s"
  by (auto simp: set_channel_def andThen_Inr_iff case_prod_beta Let_def
      split: option.splits list.splits pdu_arg.splits if_splits
      dest!: services_keep)

lemma handle_wbuf_services: "handle_wbuf P nh s = Inr x \<Longrightarrow> services (snd x) = services s"
  by (auto simp: handle_wbuf_def Let_def res_simps case_prod_beta split: if_splits option.splits
      dest: services_keep)

lemma set_source_services: "set_source P A cmd s = Inr x \<Longrightarrow> services (snd x) = services s"
  by (auto simp: set_source_def andThen_Inr_iff case_prod_beta
      split: option.splits list.splits pdu_arg.splits if_splits
      dest!: services_keep handle_wbuf_services)

lemma dtv_handler_services: "dtv_handler P A cmd s = Inr x \<Longrightarrow> services (snd x) = services s"
  by (auto simp: dtv_handler_def handle_pdu_by_opcode_def handle_pdu_def dtv_table_def
      split: if_splits option.splits
      dest: get_tuners_services set_source_services start_scan_services stop_scan_services
        clean_cache_services set_channel_services get_channels_services get_programs_services)

section \<open>The registration invariant\<close>

text \<open>
  Each entry of \<open>g_service_handler\<close> is the handler service.c has for the id, and a service
  whose handler is installed has a send function, so that no response is sent through a null
  pointer.
\<close>

definition services_ok :: "'w sys \<Rightarrow> bool" where
  "services_ok s \<longleftrightarrow>
     (\<forall>v f. g_service_handler s v = Some f \<longrightarrow>
        (v, f) \<in> {(SERVICE_REGISTRY, Registry_handler), (SERVICE_DTV, Dtv_handler)}) \<and>
     (g_service_handler s SERVICE_REGISTRY \<noteq> None \<longrightarrow> g_send_pdu s \<noteq> None) \<and>
     (g_service_handler s SERVICE_DTV \<noteq> None \<longrightarrow> dtv_send_pdu s \<noteq> None \<and> dtv_callbacks_set s)"

lemma services_ok_same: "services s' = services s \<Longrightarrow> services_ok s \<Longrightarrow> services_ok s'"
  by (simp add: services_ok_def services_def dtv_callbacks_set_def)

lemma service_ids_differ [simp]: "SERVICE_DTV \<noteq> SERVICE_REGISTRY" "SERVICE_REGISTRY \<noteq> SERVICE_DTV"
  by (simp_all add: service_id_defs)

lemma services_ok_upd:
  "services_ok s \<Longrightarrow> services_ok (s\<lparr>g_service_handler := (g_service_handler s)(v := None)\<rparr>)"
  by (auto simp: services_ok_def)

lemma register_dtv_services:
  assumes "register_dtv P A f s = Inr (h, s')"
  shows "g_service_handler s' = g_service_handler s" "g_send_pdu s' = g_send_pdu s"
    "tasks s' = tasks s"
    "h = None \<and> dtv_send_pdu s' = dtv_send_pdu s \<or>
     h = Some Dtv_handler \<and> dtv_send_pdu s' = f \<and> dtv_callbacks_set s'"
    "dtv_callbacks_set s \<longrightarrow> dtv_callbacks_set s'"
  using assms
  by (auto simp: register_dtv_def hal_init_sys_def hal_uninit_sys_def Let_def andThen_Inr_iff
      services_def dtv_callbacks_set_def split: if_splits dest!: services_keep)

lemma unregister_dtv_services:
  assumes "unregister_dtv P A s = Inr (r, s')"
  shows "g_service_handler s' = g_service_handler s" "g_send_pdu s' = g_send_pdu s"
    "tasks s' = tasks s" "dtv_callbacks s' = dtv_callbacks s"
    "dtv_send_pdu s' = (if r = ERROR_NONE then None else dtv_send_pdu s)"
    "r = ERROR_NONE \<or> r = ERROR_FAIL"
proof -
  obtain s2 where s2: "services s2 = services s"
    "r = ERROR_FAIL \<and> s' = s2 \<or> r = ERROR_NONE \<and> s' = s2\<lparr>dtv_send_pdu := None\<rparr>"
  proof -
    obtain r1 s1 where 1: "hal_uninit_sys P s = Inr (r1, s1)"
      using assms by (auto simp: unregister_dtv_def andThen_Inr_iff)
    have o1: "services s1 = services s"
      using call_drv_services [OF 1 [unfolded hal_uninit_sys_def]] by simp
    show thesis
    proof (cases "r1 = TV_STATUS_SUCCESS")
      case False
      with assms 1 o1 that show thesis by (simp add: unregister_dtv_def)
    next
      case True
      with assms 1 obtain r2 s2 where 2: "call_drv (api_uninit A) s1 = Inr (r2, s2)"
        by (auto simp: unregister_dtv_def andThen_Inr_iff)
      with call_drv_services [OF 2] True assms 1 o1 that show thesis
        by (cases "r2 = TV_STATUS_SUCCESS") (auto simp: unregister_dtv_def)
    qed
  qed
  then show "g_service_handler s' = g_service_handler s" "g_send_pdu s' = g_send_pdu s"
    "tasks s' = tasks s" "dtv_callbacks s' = dtv_callbacks s"
    "dtv_send_pdu s' = (if r = ERROR_NONE then None else dtv_send_pdu s)"
    "r = ERROR_NONE \<or> r = ERROR_FAIL"
    by (auto simp: services_def)
qed

lemma register_module_ok:
  assumes ok: "services_ok s" and reg: "g_service_handler s SERVICE_REGISTRY \<noteq> None"
    and run: "register_module P A cmd s = Inr (st, s')"
  shows "services_ok s'"
proof (cases "\<exists>v. read_pdu_at P cmd 0 [FmtC] = Some [ArgC v] \<and> g_service_handler s v = None \<and>
    g_register_service P A v \<noteq> None")
  case False
  with run have "s' = s"
    by (auto simp: register_module_def split: option.splits list.splits pdu_arg.splits if_splits)
  with ok show ?thesis by simp
next
  case True
  then have v: "read_pdu_at P cmd 0 [FmtC] = Some [ArgC SERVICE_DTV]"
    "g_service_handler s SERVICE_DTV = None"
    by (auto simp: g_register_service_def split: if_splits)
  have in_range: "\<not> PDU_MAX_NUM_SERVICES P \<le> unat SERVICE_DTV"
    using run v by (auto simp: register_module_def)
  obtain w s1 where c: "sys_create_wbuf P OPCODE_REGISTER_MODULE_RSP_SIZE 0 False s = (w, s1)"
    by (metis surj_pair)
  have s1: "services s1 = services s"
    using sys_create_wbuf_services [of P OPCODE_REGISTER_MODULE_RSP_SIZE 0 False s] c by simp
  show ?thesis
  proof (cases w)
    case None
    with run v c in_range have "s' = s1"
      by (auto simp: register_module_def g_register_service_def)
    with ok s1 show ?thesis by (auto intro: services_ok_same)
  next
    case (Some b)
    with run v c in_range obtain h s2 where 2: "register_dtv P A (g_send_pdu s1) s1 = Inr (h, s2)"
      by (auto simp: register_module_def g_register_service_def andThen_Inr_iff)
    note r = register_dtv_services [OF 2]
    show ?thesis
    proof (cases h)
      case None
      with Some run v c in_range 2 have "services s' = services s2"
        by (auto simp: register_module_def g_register_service_def andThen_Inr_iff
            dest: services_keep)
      moreover have "services_ok s2"
        using ok s1 r None v by (auto simp: services_ok_def services_def)
      ultimately show ?thesis by (auto intro: services_ok_same)
    next
      case hf: (Some hf)
      let ?s = "s2\<lparr>g_service_handler := (g_service_handler s2)(SERVICE_DTV := Some hf)\<rparr>"
      from hf Some run v c in_range 2 have "services s' = services ?s"
        by (auto simp: register_module_def g_register_service_def andThen_Inr_iff Let_def
            registry_send_pdu_def split: if_splits dest!: services_keep)
      moreover have "services_ok ?s"
        using ok s1 r hf v reg by (auto simp: services_ok_def services_def)
      ultimately show ?thesis by (auto intro: services_ok_same)
    qed
  qed
qed

lemma unregister_module_ok:
  assumes ok: "services_ok s" and run: "unregister_module P A cmd s = Inr (st, s')"
  shows "services_ok s'"
proof (cases "\<exists>v. read_pdu_at P cmd 0 [FmtC] = Some [ArgC v]")
  case False
  with run have "s' = s"
    by (auto simp: unregister_module_def split: option.splits list.splits pdu_arg.splits)
  with ok show ?thesis by simp
next
  case True
  then obtain v where v: "read_pdu_at P cmd 0 [FmtC] = Some [ArgC v]" by blast
  obtain w s1 where c: "sys_create_wbuf P 0 0 False s = (w, s1)" by (metis surj_pair)
  have s1: "services s1 = services s" using sys_create_wbuf_services [of P 0 0 False s] c by simp
  then have ok1: "services_ok s1" using ok by (rule services_ok_same)
  show ?thesis
  proof (cases "\<exists>b r s2. w = Some b \<and> v = SERVICE_DTV \<and> unregister_dtv P A s1 = Inr (r, s2)")
    case False
    with run v c have "services s' = services s1"
      by (auto simp: unregister_module_def g_unregister_service_def andThen_Inr_iff
          split: option.splits if_splits dest: services_keep)
    then show ?thesis using ok1 by (rule services_ok_same)
  next
    case True
    then obtain b r s2 where 2: "w = Some b" "v = SERVICE_DTV" "unregister_dtv P A s1 = Inr (r, s2)"
      by blast
    note u = unregister_dtv_services [OF 2(3)]
    have "\<not> r < 0" using u(6) by (auto simp: error_code_defs)
    with run v c 2 have "services s' =
        services (s2\<lparr>g_service_handler := (g_service_handler s2)(SERVICE_DTV := None)\<rparr>)"
      by (auto simp: unregister_module_def g_unregister_service_def andThen_Inr_iff Let_def
          registry_send_pdu_def split: if_splits dest: services_keep)
    moreover have "services_ok (s2\<lparr>g_service_handler := (g_service_handler s2)(SERVICE_DTV := None)\<rparr>)"
      using ok1 u by (auto simp: services_ok_def)
    ultimately show ?thesis by (rule services_ok_same)
  qed
qed

text \<open>Hence every command keeps it.\<close>

lemma service_command_ok:
  assumes ok: "services_ok s"
    and run: "handle_pdu_by_service P cmd (service_table P A (g_service_handler s)) s = Inr (st, s')"
  shows "services_ok s'"
proof (cases "g_service_handler s (pdu_service cmd)")
  case None
  with run ok show ?thesis
    by (auto simp: handle_pdu_by_service_def handle_pdu_def service_table_def split: if_splits)
next
  case (Some f)
  show ?thesis
  proof (cases f)
    case Dtv_handler
    with Some run have "services s' = services s"
      by (auto simp: handle_pdu_by_service_def handle_pdu_def service_table_def split: if_splits
          dest!: dtv_handler_services)
    then show ?thesis using ok by (rule services_ok_same)
  next
    case Registry_handler
    with Some ok have "pdu_service cmd = SERVICE_REGISTRY" by (fastforce simp: services_ok_def)
    with Some have reg: "g_service_handler s SERVICE_REGISTRY \<noteq> None" by simp
    from Registry_handler Some run ok reg show ?thesis
      by (auto simp: handle_pdu_by_service_def handle_pdu_def service_table_def registry_handler_def
          handle_pdu_by_opcode_def registry_table_def split: if_splits option.splits
          dest: register_module_ok unregister_module_ok)
  qed
qed

end
