(* ===== verification/Io_Loop.thy ===== *)
theory Io_Loop
  imports Registry
begin

text \<open>
  The rest of io.c: receiving a PDU and answering it, the callbacks of the epoll loop, and
  setting up and closing the connection. The lemmas are about the daemon's side of the
  protocol (each command is answered exactly once, by a response or by an error PDU), the
  wake lock, the size checks on the socket name, and which descriptors stay open on errors.
\<close>

section \<open>Answering a PDU\<close>

definition OPCODE_ERROR :: u8 where "OPCODE_ERROR = 0"
definition OPCODE_ERROR_RSP_SIZE :: nat where "OPCODE_ERROR_RSP_SIZE = 1"

definition send_error_reply :: "'w platform \<Rightarrow> u8 \<Rightarrow> u8 \<Rightarrow> 'w sys \<Rightarrow> 'w sys res" where
  "send_error_reply P service error s =
     (case sys_create_wbuf P OPCODE_ERROR_RSP_SIZE 0 False s of
        (None, s) \<Rightarrow> Inl Abort_call
      | (Some w, s) \<Rightarrow>
          andThen (wbuf_append P [ArgC error] (init_pdu service OPCODE_ERROR w)) (\<lambda>(_, w).
          andThen (io_state_send P w (s_io s) (s_env s)) (\<lambda>(r, io, e).
            if r < 0 then Inl Abort_call else Inr (s\<lparr>s_io := io, s_env := e\<rparr>))))"

text \<open>\<open>handle_pdu\<close> of io.c. The status is converted to \<open>uint8_t\<close> for the error PDU.\<close>

definition io_handle_pdu ::
  "'w platform \<Rightarrow> 'w drv dtv_api \<Rightarrow> pdu \<Rightarrow> 'w sys \<Rightarrow> (int \<times> 'w sys) res" where
  "io_handle_pdu P A cmd s =
     andThen (handle_pdu_by_service P cmd (service_table P A (g_service_handler s)) s)
       (\<lambda>(status, s).
       if status \<noteq> 0
       then andThen (send_error_reply P (pdu_service cmd) (word_of_int status) s)
              (\<lambda>s. Inr (0, s))
       else Inr (0, s))"

section \<open>Input\<close>

definition wake :: "bool \<Rightarrow> 'w sys \<Rightarrow> 'w sys" where
  "wake b s =
     s\<lparr>s_env := (if b then acquire_wake_lock (s_env s) else release_wake_lock (s_env s))\<rparr>"

definition get_rbuf :: "'w sys \<Rightarrow> rbuf res" where
  "get_rbuf s =
     (case io_rbuf (s_io s) of
        None \<Rightarrow> Inl Null_deref
      | Some b \<Rightarrow> if rb_addr b \<in> live (s_env s) then Inr b else Inl Use_after_free)"

definition set_rbuf :: "rbuf \<Rightarrow> 'w sys \<Rightarrow> 'w sys" where
  "set_rbuf b s = s\<lparr>s_io := (s_io s)\<lparr>io_rbuf := Some b\<rparr>\<rparr>"

text \<open>When the peer has hung up, the descriptor is no longer watched for input.\<close>

definition stop_watching_input :: "'w platform \<Rightarrow> 'w sys \<Rightarrow> int \<times> 'w sys" where
  "stop_watching_input P s =
     (let io = (s_io s)\<lparr>epoll_events := and (epoll_events (s_io s)) (not EPOLLIN)\<rparr>
      in if epoll_events io \<noteq> 0 then
           (case add_fd_events P (io_fd io) (epoll_events io) (s_env s) of
              (res, e) \<Rightarrow> (res, s\<lparr>s_io := io, s_env := e\<rparr>))
         else (0, s\<lparr>s_io := io, s_env := remove_fd P (io_fd io) (s_env s)\<rparr>))"

text \<open>The part of \<open>io_state_in\<close> after the octets have arrived: \<open>len\<close> is stored, and a PDU handled.\<close>

definition handle_rbuf ::
  "'w platform \<Rightarrow> (pdu \<Rightarrow> 'w sys \<Rightarrow> (int \<times> 'w sys) res) \<Rightarrow> nat \<Rightarrow> 'w sys \<Rightarrow> (int \<times> 'w sys) res" where
  "handle_rbuf P handle len s =
     andThen (get_rbuf s) (\<lambda>b.
       let b = b\<lparr>rb_len := len\<rparr>;
           s = set_rbuf b s
       in if pdu_rbuf_has_pdu P b then
            andThen (handle (rbuf_pdu P b) s) (\<lambda>(r, s).
              if r < 0 then Inr (-1, s)
              else andThen (get_rbuf s) (\<lambda>b. Inr (0, set_rbuf (b\<lparr>rb_len := 0\<rparr>) s)))
          else if pdu_rbuf_is_full P b then Inr (-1, s)
          else Inr (0, s))"

definition io_state_in ::
  "'w platform \<Rightarrow> (pdu \<Rightarrow> 'w sys \<Rightarrow> (int \<times> 'w sys) res) \<Rightarrow> 'w sys \<Rightarrow> (int \<times> 'w sys) res" where
  "io_state_in P handle s =
     (let s = wake True s
      in andThen (get_rbuf s) (\<lambda>b.
         case ext_call (recvmsg P (io_fd (s_io s)) (rb_maxlen b)) (s_env s) of
           ((res, octets), e) \<Rightarrow>
             let s = set_rbuf (b\<lparr>rb_raw := octets @ drop (length octets) (rb_raw b)\<rparr>)
                       (s\<lparr>s_env := e\<rparr>)
             in if res < 0 then Inr (-1, wake False s)
                else
                  (case (if res = 0 then stop_watching_input P s else (res, s)) of
                     (res, s) \<Rightarrow>
                       if res < 0 then Inr (-1, wake False s)
                       else andThen (handle_rbuf P handle (nat res) s) (\<lambda>(r, s).
                              Inr (r, wake False s)))))"

section \<open>Callbacks of the loop\<close>

datatype ioresult = IO_OK | IO_POLL | IO_EXIT | IO_ABORT | Io_other int

definition fd_io_err :: "'w platform \<Rightarrow> 'w sys \<Rightarrow> (ioresult \<times> 'w sys) res" where
  "fd_io_err P s =
     andThen (io_state_err P (s_io s) (s_env s)) (\<lambda>(io, e).
       Inr (IO_POLL, s\<lparr>s_io := io, s_env := e\<rparr>))"

definition fd_io_hup :: "'w platform \<Rightarrow> 'w sys \<Rightarrow> (ioresult \<times> 'w sys) res" where
  "fd_io_hup P s =
     andThen (io_state_hup P (s_io s) (s_env s)) (\<lambda>(io, e).
       Inr (IO_EXIT, s\<lparr>s_io := io, s_env := e\<rparr>))"

definition fd_io_in :: "'w platform \<Rightarrow> 'w drv dtv_api \<Rightarrow> 'w sys \<Rightarrow> (ioresult \<times> 'w sys) res" where
  "fd_io_in P A s =
     andThen (io_state_in P (io_handle_pdu P A) s) (\<lambda>(r, s).
       Inr (if r < 0 then IO_ABORT else IO_OK, s))"

definition fd_io_out :: "'w platform \<Rightarrow> 'w sys \<Rightarrow> (ioresult \<times> 'w sys) res" where
  "fd_io_out P s =
     andThen (io_state_out P (s_io s) (s_env s)) (\<lambda>(r, io, e).
       Inr (if r < 0 then IO_ABORT else IO_OK, s\<lparr>s_io := io, s_env := e\<rparr>))"

section \<open>Connecting\<close>

text \<open>The Linux layout of \<open>struct sockaddr_un\<close>, and the flags that are set on the socket.\<close>

definition sizeof_sun_path :: nat where "sizeof_sun_path = 108"
definition offsetof_sun_path :: nat where "offsetof_sun_path = 2"
definition NAME_OFFSET :: nat where "NAME_OFFSET = 1"
definition O_CLOEXEC :: i32 where "O_CLOEXEC = 0x80000"
definition O_NONBLOCK :: i32 where "O_NONBLOCK = 0x800"

definition SIZE_MAX :: "'w platform \<Rightarrow> nat" where
  "SIZE_MAX P = 2 ^ (8 * ptr_size P) - 1"
definition SSIZE_MAX :: "'w platform \<Rightarrow> nat" where
  "SSIZE_MAX P = 2 ^ (8 * ptr_size P - 1) - 1"

text \<open>
  \<open>create_sockaddr_un\<close> returns the size of the address, or -1, and the octets it has written to
  \<open>sun_path\<close>; a write past that array faults.
\<close>

definition create_sockaddr_un :: "'w platform \<Rightarrow> string \<Rightarrow> (int \<times> u8 list) res" where
  "create_sockaddr_un P socket_name =
     (let len = length socket_name in
      if SIZE_MAX P \<le> len then Inr (-1, [])
      else
        let siz = to_size P (int len + 1) in
        if sizeof_sun_path < siz \<or> sizeof_sun_path - siz < NAME_OFFSET then Inr (-1, [])
        else
          let pathsiz = to_size P (int NAME_OFFSET + int siz) in
          if SSIZE_MAX P < pathsiz \<or> SSIZE_MAX P - pathsiz < offsetof_sun_path then Inr (-1, [])
          else if sizeof_sun_path < NAME_OFFSET + siz then Inl Out_of_bounds
          else Inr (int (offsetof_sun_path + NAME_OFFSET + siz),
                    replicate NAME_OFFSET 0 @ map byte_of socket_name @ [0]))"

text \<open>
  \<open>connect_socket\<close>: each step of the set-up may fail, and then the descriptor is closed.
\<close>

definition close_and_fail :: "'w platform \<Rightarrow> int \<Rightarrow> 'w env \<Rightarrow> int \<times> 'w env" where
  "close_and_fail P fd e = (-1, snd (ext_call (close_fd P fd) e))"

definition connect_socket :: "'w platform \<Rightarrow> string \<Rightarrow> 'w env \<Rightarrow> (int \<times> 'w env) res" where
  "connect_socket P socket_name e =
     andThen (create_sockaddr_un P socket_name) (\<lambda>(socklen, addr).
       if socklen < 0 then Inr (-1, e)
       else Inr
         (let (fd, e) = ext_call (socket P) e in
          if fd < 0 then (-1, e) else
          let (res, e) = ext_call (fcntl_getfd P fd) e in
          if sint res < 0 then close_and_fail P fd e else
          let (r, e) = ext_call (fcntl_setfd P fd (or res O_CLOEXEC)) e in
          if r < 0 then close_and_fail P fd e else
          let (res, e) = ext_call (fcntl_getfl P fd) e in
          if sint res < 0 then close_and_fail P fd e else
          let (r, e) = ext_call (fcntl_setfl P fd (or res O_NONBLOCK)) e in
          if r < 0 then close_and_fail P fd e else
          let (r, e) = ext_call (connect_fd P fd addr (nat socklen)) e in
          if r < 0 then close_and_fail P fd e else
          let (r, e) = add_fd_events P fd (or EPOLLOUT EPOLLERR) e in
          if r < 0 then close_and_fail P fd e else (fd, e)))"

definition create_pdu_rbuf :: "'w platform \<Rightarrow> nat \<Rightarrow> 'w env \<Rightarrow> rbuf option \<times> 'w env" where
  "create_pdu_rbuf P maxlen e =
     (case ext_call (create_pdu_rbuf_ok P maxlen) e of
        (ok, e) \<Rightarrow>
          if ok then
            (case fresh e of (a, e) \<Rightarrow>
               (Some \<lparr>rb_addr = a, rb_maxlen = maxlen, rb_len = 0, rb_raw = []\<rparr>, e))
          else (None, e))"

definition connected_socket :: "'w platform \<Rightarrow> int \<Rightarrow> 'w sys \<Rightarrow> (int \<times> 'w sys) res" where
  "connected_socket P fd s =
     (let s = s\<lparr>s_env := remove_fd P fd (s_env s)\<rparr>
      in if io_rbuf (s_io s) \<noteq> None then Inr (-1, s)
         else
           case create_pdu_rbuf P (PDU_MAX_DATA_LENGTH P) (s_env s) of
             (None, e) \<Rightarrow> Inr (-1, s\<lparr>s_env := e\<rparr>)
           | (Some b, e) \<Rightarrow>
               andThen (load (live e) (epoll_funcs (s_io s))) (\<lambda>_.
                 let funcs = Ptr (ptr_addr (epoll_funcs (s_io s)))
                       \<lparr>epollin = Some Fd_io_in, epollout = Some Fd_io_out,
                        epollerr = Some Fd_io_err, epollhup = Some Fd_io_hup\<rparr>
                 in Inr (0, s\<lparr>s_env := e,
                              s_io := INIT_IO_STATE fd (or EPOLLERR EPOLLIN) funcs (Some b)\<rparr>)))"

definition start_main_loop :: "'w platform \<Rightarrow> 'w sys \<Rightarrow> int \<times> 'w sys" where
  "start_main_loop P s =
     (let (r, s) = init_registry (Some Io_send_pdu) s
      in if r < 0 then (-1, s)
         else
           let (res, e) = add_fd_events P (io_fd (s_io s)) (epoll_events (s_io s)) (s_env s);
               s = s\<lparr>s_env := e\<rparr>
           in if res < 0 then (-1, uninit_registry s) else (0, s))"

definition fd_con_err :: "'w sys \<Rightarrow> (ioresult \<times> 'w sys) res" where
  "fd_con_err s = Inr (IO_ABORT, s)"

definition fd_con_out :: "'w platform \<Rightarrow> int \<Rightarrow> 'w sys \<Rightarrow> (ioresult \<times> 'w sys) res" where
  "fd_con_out P fd s =
     andThen (connected_socket P fd s) (\<lambda>(r, s).
       if r < 0 then Inr (IO_ABORT, s)
       else case start_main_loop P s of
              (r, s) \<Rightarrow> Inr (if r < 0 then IO_ABORT else IO_OK, s))"

section \<open>Initialising and uninitialising\<close>

definition init_io :: "'w platform \<Rightarrow> string \<Rightarrow> 'w sys \<Rightarrow> (int \<times> 'w sys) res" where
  "init_io P socket_name s =
     (let funcs = \<lparr>epollin = None, epollout = Some Fd_con_out, epollerr = Some Fd_con_err,
                   epollhup = None\<rparr>;
          (p, e) = malloc P (sizeof_fd_events P) funcs (s_env s);
          s = s\<lparr>s_env := e\<rparr>
      in if p = Null then Inr (-1, s)
         else
           let s = s\<lparr>s_io := INIT_IO_STATE (-1) 0 p None\<rparr>
           in andThen (connect_socket P socket_name (s_env s)) (\<lambda>(fd, e).
                let s = s\<lparr>s_env := e\<rparr>
                in if fd < 0
                   then andThen (on_env (free_ptr p) s) (\<lambda>s. Inr (-1, s))
                   else Inr (0, s)))"

text \<open>The array has one entry; an entry without a descriptor is skipped.\<close>

definition uninit_io :: "'w platform \<Rightarrow> 'w sys \<Rightarrow> 'w sys res" where
  "uninit_io P s =
     andThen
       (if io_fd (s_io s) = -1 then Inr s
        else
          let fd = io_fd (s_io s);
              e = remove_fd P fd (s_env s);
              (_, e) = ext_call (close_fd P fd) e;
              s = s\<lparr>s_env := e\<rparr>
          in andThen (case io_rbuf (s_io s) of
                        None \<Rightarrow> Inr s
                      | Some b \<Rightarrow> on_env (destroy_pdu_rbuf b) s)
               (\<lambda>s. on_env (free_ptr (epoll_funcs (s_io s))) s))
       (\<lambda>s. Inr (uninit_registry s))"

section \<open>One answer per command\<close>

text \<open>An error PDU can be built.\<close>

definition octet_fits :: "'w platform \<Rightarrow> bool" where
  "octet_fits P \<longleftrightarrow> append_total P \<and> 1 \<le> PDU_MAX_DATA_LENGTH P"

lemma octet_appended: "octet_fits P \<Longrightarrow> pdu_data p = [] \<Longrightarrow> append_to_pdu P p [ArgC b] \<noteq> None"
  by (simp add: octet_fits_def append_total_def del: not_None_eq)

context quiet_driver
begin

lemma send_error_reply_output:
  assumes codec: "pdu_codec P enc" and run: "send_error_reply P sv err s = Inr s'"
  shows "\<exists>p. sys_out s' = sys_out s @ [p] \<and> pdu_service p = sv \<and> pdu_opcode p = OPCODE_ERROR \<and>
           (octet_fits P \<longrightarrow> payload enc is_octet p)"
proof -
  obtain w s1 where c: "sys_create_wbuf P OPCODE_ERROR_RSP_SIZE 0 False s = (w, s1)"
    by (metis surj_pair)
  with run obtain b where b: "w = Some b" by (cases w) (auto simp: send_error_reply_def)
  with run c obtain ok b2 r io e where
    ap: "wbuf_append P [ArgC err] (init_pdu sv OPCODE_ERROR b) = Inr (ok, b2)"
    and sd: "io_state_send P b2 (s_io s1) (s_env s1) = Inr (r, io, e)"
    and s': "s' = s1\<lparr>s_io := io, s_env := e\<rparr>"
    by (auto simp: send_error_reply_def andThen_Inr_iff split: if_splits)
  have "pdu_service (wb_pdu b2) = sv \<and> pdu_opcode (wb_pdu b2) = OPCODE_ERROR"
    using ap by (auto simp: res_simps dest!: codec_append [OF codec])
  moreover have "ok" if "octet_fits P"
    using that ap octet_appended [of P "wb_pdu (init_pdu sv OPCODE_ERROR b)" err]
    by (auto simp: wbuf_append_def split: option.splits if_splits)
  then have "payload enc is_octet (wb_pdu b2)" if "octet_fits P"
    using that ap emits_payload(3) [OF emits_just [OF codec, of is_octet "[ArgC err]"]] by simp
  moreover have "sys_out s' = sys_out s @ [wb_pdu b2]"
    using io_state_send_output [OF sd] sys_create_wbuf_output [OF c] s' by (simp add: sys_out_def)
  ultimately show ?thesis by blast
qed

lemma io_handle_pdu_answers:
  assumes codec: "pdu_codec P enc" and run: "io_handle_pdu P A cmd s = Inr (r, s')"
  shows "r = 0 \<and> (\<exists>p. sys_out s' = sys_out s @ [p] \<and> pdu_service p = pdu_service cmd \<and>
           (pdu_opcode p = pdu_opcode cmd \<and> (\<exists>f. g_service_handler s (pdu_service cmd) = Some f \<and>
              payload enc (handler_form f (pdu_opcode cmd)) p) \<or>
            pdu_opcode p = OPCODE_ERROR \<and> (octet_fits P \<longrightarrow> payload enc is_octet p)))"
proof -
  obtain st s1 where 1: "handle_pdu_by_service P cmd (service_table P A (g_service_handler s)) s =
      Inr (st, s1)"
    "(if st \<noteq> 0 then andThen (send_error_reply P (pdu_service cmd) (word_of_int st) s1)
        (\<lambda>s. Inr (0, s)) else Inr (0, s1)) = Inr (r, s')"
    using run by (auto simp: io_handle_pdu_def andThen_Inr_iff)
  note ans = services.dispatch_answers [OF codec 1(1) [unfolded handle_pdu_by_service_def]]
  show ?thesis
  proof (cases "st = 0")
    case True
    with 1(2) ans show ?thesis by (fastforce simp: answers_def ERROR_NONE_def)
  next
    case False
    then have "sys_out s1 = sys_out s" using ans by (simp add: answers_def ERROR_NONE_def)
    with False 1(2) send_error_reply_output [OF codec] show ?thesis by (fastforce simp: res_simps)
  qed
qed

end

section \<open>The wake lock\<close>

text \<open>However \<open>io_state_in\<close> returns, the lock it has taken is released.\<close>

lemma wake_awake [simp]: "awake (s_env (wake b s)) = b"
  by (simp add: wake_def acquire_wake_lock_def release_wake_lock_def)

lemma io_state_in_releases:
  assumes "io_state_in P handle s = Inr (r, s')" shows "\<not> awake (s_env s')"
  using assms
  by (auto simp: io_state_in_def Let_def andThen_Inr_iff case_prod_beta split: if_splits)

section \<open>The socket name\<close>

text \<open>
  A name is accepted exactly when it fits into \<open>sun_path\<close> with a null character on either side;
  nothing is ever written past the array.
\<close>

lemma create_sockaddr_un_eq:
  assumes ptr: "4 \<le> ptr_size P"
  shows "create_sockaddr_un P name =
    (if length name + 2 \<le> sizeof_sun_path
     then Inr (int (length name + 4), 0 # map byte_of name @ [0]) else Inr (-1, []))"
proof -
  have pow: "(2::nat) ^ 31 \<le> 2 ^ (8 * ptr_size P - 1)" using ptr by (intro power_increasing) simp_all
  have "(2::nat) ^ (8 * ptr_size P) = 2 * 2 ^ (8 * ptr_size P - 1)"
    using ptr by (cases "8 * ptr_size P") simp_all
  with pow have pow2: "(2::nat) ^ 32 \<le> 2 ^ (8 * ptr_size P)" by simp
  have small: "to_size P n = nat n" if "0 \<le> n" "n < 2 ^ 32" for n
  proof -
    have "(2::int) ^ 32 \<le> 2 ^ (8 * ptr_size P)" using ptr by (intro power_increasing) simp_all
    with that show ?thesis by (intro to_size_id) simp_all
  qed
  show ?thesis
  proof (cases "SIZE_MAX P \<le> length name")
    case True
    moreover have "200 \<le> SIZE_MAX P" using pow2 by (simp add: SIZE_MAX_def)
    ultimately show ?thesis by (simp add: create_sockaddr_un_def sizeof_sun_path_def)
  next
    case False
    then have "int (length name) + 1 < 2 ^ (8 * ptr_size P)"
    proof -
      have "length name + 1 < 2 ^ (8 * ptr_size P)" using False by (simp add: SIZE_MAX_def)
      then have "int (length name + 1) < int (2 ^ (8 * ptr_size P))" by (subst of_nat_less_iff)
      then show ?thesis by simp
    qed
    then have siz: "to_size P (int (length name) + 1) = length name + 1"
      by (subst to_size_id) simp_all
    show ?thesis
    proof (cases "length name + 2 \<le> sizeof_sun_path")
      case True
      then have "to_size P (int NAME_OFFSET + int (length name + 1)) = length name + 2"
        by (subst small) (simp_all add: NAME_OFFSET_def sizeof_sun_path_def)
      moreover have "200 \<le> SSIZE_MAX P" using pow by (simp add: SSIZE_MAX_def)
      ultimately show ?thesis
        using True False siz
        by (simp add: create_sockaddr_un_def Let_def sizeof_sun_path_def NAME_OFFSET_def
            offsetof_sun_path_def)
    next
      case big: False
      with False siz show ?thesis
        by (auto simp: create_sockaddr_un_def Let_def sizeof_sun_path_def NAME_OFFSET_def)
    qed
  qed
qed

section \<open>Connecting\<close>

text \<open>
  A connection attempt leaves the heap alone; it ends with the descriptor watched for
  writability and errors, or with -1 and nothing more watched than before.
\<close>

definition quiet_env :: "'w env \<Rightarrow> 'w env \<Rightarrow> bool" where
  "quiet_env e e' \<longleftrightarrow> live e' = live e \<and> next_addr e' = next_addr e \<and> sent e' = sent e \<and>
     awake e' = awake e \<and> watched e' = watched e"

lemma ext_call_quiet: "ext_call f e = (r, e') \<Longrightarrow> quiet_env e e'"
  by (drule ext_call_env) (simp add: quiet_env_def)

lemma close_and_fail_quiet: "\<exists>e'. close_and_fail P fd e = (-1, e') \<and> quiet_env e e'"
proof -
  obtain r e' where "ext_call (close_fd P fd) e = (r, e')" by (metis surj_pair)
  then show ?thesis using ext_call_quiet by (auto simp: close_and_fail_def)
qed

definition connect_outcome :: "'w env \<Rightarrow> int \<times> 'w env \<Rightarrow> bool" where
  "connect_outcome e = (\<lambda>(fd, e'). live e' = live e \<and> next_addr e' = next_addr e \<and>
     sent e' = sent e \<and> awake e' = awake e \<and>
     (if 0 \<le> fd then watched e' = (watched e)(fd := Some (or EPOLLOUT EPOLLERR))
      else fd = -1 \<and> watched e' = watched e))"

lemma outcome_close: "quiet_env e e1 \<Longrightarrow> connect_outcome e (close_and_fail P fd e1)"
  using close_and_fail_quiet [of P fd e1] by (auto simp: connect_outcome_def quiet_env_def)

text \<open>One step of the set-up: on failure the descriptor is closed, else the next step follows.\<close>

lemma outcome_step:
  assumes "quiet_env e e1"
    and "\<And>r e2. quiet_env e e2 \<Longrightarrow> \<not> bad r \<Longrightarrow> connect_outcome e (k r e2)"
  shows "connect_outcome e (case ext_call f e1 of (r, e2) \<Rightarrow>
           if bad r then close_and_fail P fd e2 else k r e2)"
proof -
  obtain r e2 where c: "ext_call f e1 = (r, e2)" by (metis surj_pair)
  from ext_call_quiet [OF c] assms(1) have q: "quiet_env e e2" by (simp add: quiet_env_def)
  with c assms(2) outcome_close [OF q] show ?thesis by simp
qed

lemma outcome_watch:
  assumes "quiet_env e e1" "0 \<le> fd"
  shows "connect_outcome e (case add_fd_events P fd (or EPOLLOUT EPOLLERR) e1 of (r, e2) \<Rightarrow>
           if r < 0 then close_and_fail P fd e2 else (fd, e2))"
proof -
  obtain r e2 where c: "add_fd_events P fd (or EPOLLOUT EPOLLERR) e1 = (r, e2)" by (metis surj_pair)
  note e2 = add_fd_events_env [OF c]
  show ?thesis
  proof (cases "r < 0")
    case True
    with e2 assms have "quiet_env e e2" by (simp add: quiet_env_def)
    with True c outcome_close show ?thesis by simp
  next
    case False
    with c e2 assms show ?thesis by (simp add: connect_outcome_def quiet_env_def)
  qed
qed

lemma connect_socket_result:
  assumes ptr: "4 \<le> ptr_size P"
  shows "\<exists>r. connect_socket P name e = Inr r \<and> connect_outcome e r \<and>
           (sizeof_sun_path < length name + 2 \<longrightarrow> r = (-1, e))"
proof (cases "length name + 2 \<le> sizeof_sun_path")
  case False
  then show ?thesis
    using create_sockaddr_un_eq [OF ptr, of name]
    by (simp add: connect_socket_def connect_outcome_def)
next
  case True
  obtain fd e1 where c: "ext_call (socket P) e = (fd, e1)" by (metis surj_pair)
  note q = ext_call_quiet [OF c]
  show ?thesis
  proof (cases "fd < 0")
    case neg: True
    with True c q create_sockaddr_un_eq [OF ptr, of name] show ?thesis
      by (simp add: connect_socket_def connect_outcome_def quiet_env_def)
  next
    case False
    then have fd: "0 \<le> fd" by simp
    show ?thesis
      using True c False create_sockaddr_un_eq [OF ptr, of name] fd q
      by (auto simp: connect_socket_def Let_def
          intro!: outcome_step [where bad = "\<lambda>r. sint r < 0"] outcome_step [where bad = "\<lambda>r. r < 0"]
            outcome_watch)
  qed
qed

section \<open>Properties\<close>

text \<open>
  C7: Every command a client sends gets exactly one PDU back, whatever vendor functions are plugged in, as long
  as they send nothing themselves: the response of its service, with the payload its opcode
  asks for, or an error PDU of that service. This holds for unknown services and opcodes, for malformed
  arguments and for failing vendor functions alike.
\<close>

theorem one_answer_per_command:
  assumes "quiet_driver A" and "pdu_codec P enc" and "io_handle_pdu P A cmd s = Inr (r, s')"
  shows "r = 0 \<and> (\<exists>p. sys_out s' = sys_out s @ [p] \<and> pdu_service p = pdu_service cmd \<and>
           (pdu_opcode p = pdu_opcode cmd \<and> (\<exists>f. g_service_handler s (pdu_service cmd) = Some f \<and>
              payload enc (handler_form f (pdu_opcode cmd)) p) \<or>
            pdu_opcode p = OPCODE_ERROR \<and> (octet_fits P \<longrightarrow> payload enc is_octet p)))"
  by (rule quiet_driver.io_handle_pdu_answers [OF assms])

definition unknown_cmd :: pdu where
  "unknown_cmd = \<lparr>pdu_service = 9, pdu_opcode = 5, pdu_data = []\<rparr>"

theorem one_answer_per_command_witness:
  "(\<exists>s' p c. io_handle_pdu sample_platform sample_vendor unknown_cmd dtv_sys = Inr (0, s') \<and>
      sys_out s' = sys_out dtv_sys @ [p] \<and> pdu_service p = 9 \<and> pdu_opcode p = OPCODE_ERROR \<and>
      pdu_data p = [c]) \<and>
   (\<exists>s' p. io_handle_pdu sample_platform sample_vendor scan_cmd dtv_sys = Inr (0, s') \<and>
      sys_out s' = sys_out dtv_sys @ [p] \<and> pdu_service p = SERVICE_DTV)"
proof -
  have fits: "octet_fits sample_platform" using sample_append_total by (simp add: octet_fits_def)
  have "\<exists>s'. io_handle_pdu sample_platform sample_vendor unknown_cmd dtv_sys = Inr (0, s')"
    by (simp add: io_handle_pdu_def handle_pdu_by_service_def handle_pdu_def unknown_cmd_def
        service_table_def service_id_defs error_code_defs send_error_reply_def OPCODE_ERROR_RSP_SIZE_def
        sys_create_wbuf_def create_pdu_wbuf_def fresh_def io_state_send_def wbuf_append_def
        sample_append_def init_pdu_def io_state_send_pending_wbufs_def destroy_pdu_wbuf_def Let_def)
  then obtain s' where 1: "io_handle_pdu sample_platform sample_vendor unknown_cmd dtv_sys = Inr (0, s')"
    by blast
  from one_answer_per_command [OF sample_vendor_quiet sample_codec 1] fits
  obtain p where p: "sys_out s' = sys_out dtv_sys @ [p]" "pdu_service p = 9" "pdu_opcode p = OPCODE_ERROR"
    "payload sample_enc is_octet p"
    by (auto simp: unknown_cmd_def service_id_defs)
  then obtain c where "pdu_data p = encodes sample_enc [ArgC c]"
    unfolding payload_def by (metis is_octet.elims(2))
  with 1 p have unknown: "\<exists>s' p c. io_handle_pdu sample_platform sample_vendor unknown_cmd dtv_sys = Inr (0, s') \<and>
      sys_out s' = sys_out dtv_sys @ [p] \<and> pdu_service p = 9 \<and> pdu_opcode p = OPCODE_ERROR \<and>
      pdu_data p = [c]" by auto
  have "\<exists>s'. io_handle_pdu sample_platform sample_vendor scan_cmd dtv_sys = Inr (0, s')"
    by (simp add: io_handle_pdu_def handle_pdu_by_service_def service_table_def service_id_defs error_code_defs
        dtv_handler_def handle_pdu_by_opcode_def handle_pdu_def scan_cmd_def dtv_table_def
        dtv_opcode_defs start_scan_def call_drv_def char_of_byte_def reply_empty_def sys_create_wbuf_def
        create_pdu_wbuf_def fresh_def call_send_def io_send_pdu_def io_state_send_def
        io_state_send_pending_wbufs_def destroy_pdu_wbuf_def init_pdu_def)
  with one_answer_per_command [OF sample_vendor_quiet sample_codec, of scan_cmd dtv_sys] unknown
  show ?thesis by (fastforce simp: scan_cmd_def)
qed

text \<open>
  C18: The wake lock that the input callback takes is released on every return from it: errors of
  \<open>recvmsg\<close>, a hung-up peer, incomplete and oversized PDUs included.
\<close>

theorem input_releases_wake_lock:
  assumes "fd_io_in P A s = Inr (r, s')"
  shows "\<not> awake (s_env s')"
  using assms by (auto simp: fd_io_in_def andThen_Inr_iff dest: io_state_in_releases)

theorem input_releases_wake_lock_witness:
  "\<exists>r s'. fd_io_in sample_platform sample_vendor dtv_sys = Inr (r, s') \<and> \<not> awake (s_env s')"
proof -
  have "\<exists>r s'. fd_io_in sample_platform sample_vendor dtv_sys = Inr (r, s')"
    by (simp add: fd_io_in_def io_state_in_def wake_def get_rbuf_def set_rbuf_def handle_rbuf_def
        stop_watching_input_def acquire_wake_lock_def Let_def add_fd_events_def EPOLLIN_def
        sample_rbuf_def)
  then show ?thesis using input_releases_wake_lock by blast
qed

text \<open>
  C22: A socket name is turned into an abstract address exactly when it fits, with a null character on
  either side, into \<open>sun_path\<close>; then the address is the name between two null characters, and in
  no case is anything written past the array.
\<close>

theorem socket_address_fits:
  assumes "4 \<le> ptr_size P"
  shows "create_sockaddr_un P name =
    (if length name + 2 \<le> sizeof_sun_path
     then Inr (int (length name + 4), 0 # map byte_of name @ [0]) else Inr (-1, []))"
  using assms by (rule create_sockaddr_un_eq)

theorem socket_address_fits_witness:
  "create_sockaddr_un sample_platform ''tvd'' = Inr (7, [0, 116, 118, 100, 0]) \<and>
   create_sockaddr_un sample_platform (replicate 107 CHR ''a'') = Inr (-1, [])"
  using socket_address_fits [of sample_platform] by (simp add: sizeof_sun_path_def byte_of_def)

text \<open>
  C23: Connecting never faults and leaves the heap alone: it ends with the new descriptor watched for
  writability and errors, or with -1 and what was watched before; a name that is too long
  fails before anything is done.
\<close>

theorem connect_socket_outcome:
  assumes "4 \<le> ptr_size P"
  shows "\<exists>fd e'. connect_socket P name e = Inr (fd, e') \<and> live e' = live e \<and> sent e' = sent e \<and>
           (if 0 \<le> fd then watched e' = (watched e)(fd := Some (or EPOLLOUT EPOLLERR))
            else fd = -1 \<and> watched e' = watched e) \<and>
           (sizeof_sun_path < length name + 2 \<longrightarrow> fd = -1 \<and> e' = e)"
proof -
  obtain fd e' where r: "connect_socket P name e = Inr (fd, e')" "connect_outcome e (fd, e')"
    "sizeof_sun_path < length name + 2 \<longrightarrow> (fd, e') = (-1, e)"
    using connect_socket_result [OF assms, of name e] by (metis surj_pair)
  have "live e' = live e" "sent e' = sent e" and
    "if 0 \<le> fd then watched e' = (watched e)(fd := Some (or EPOLLOUT EPOLLERR))
     else fd = -1 \<and> watched e' = watched e"
    using r(2) unfolding connect_outcome_def prod.case by blast+
  with r(1,3) show ?thesis by blast
qed

theorem connect_socket_outcome_witness:
  "\<exists>fd e'. connect_socket sample_platform ''tvd'' sample_env = Inr (fd, e') \<and> live e' = {} \<and> -1 \<le> fd"
  using connect_socket_outcome [of sample_platform "''tvd''" sample_env] by (auto split: if_splits)

end
