(* ===== verification/Sys_Total.thy ===== *)
theory Sys_Total
  imports Io_Loop
begin

text \<open>
  Total correctness: the invariant of the whole state (the connection, the device table, the
  services and the objects held aside for later are sound and apart from each other), and
  under it, which commands run to the end without a fault, what they answer, and what becomes of
  memory; and which commands fault with the vendor functions of dtv.c.
\<close>

section \<open>The invariant\<close>

text \<open>
  \<open>apart F s\<close>: the objects \<open>F\<close> are live and neither the queue nor the receive buffer is one of
  them. This holds of the objects the connection does not own but that must stay: the callback
  table and the buffers of the posted tasks.
\<close>

definition apart :: "nat set \<Rightarrow> 'w sys \<Rightarrow> bool" where
  "apart F s \<longleftrightarrow> F \<subseteq> live (s_env s) \<and> F \<inter> wb_addr ` set (sendq (s_io s)) = {} \<and>
     (\<forall>b. io_rbuf (s_io s) = Some b \<longrightarrow> rb_addr b \<notin> F)"

definition held :: "'w sys \<Rightarrow> nat list" where
  "held s = ptr_addrs (epoll_funcs (s_io s)) @ map wb_addr (tasks s)"

definition held_ok :: "'w sys \<Rightarrow> bool" where
  "held_ok s \<longleftrightarrow> epoll_funcs (s_io s) \<noteq> Wild \<and> distinct (held s) \<and> apart (set (held s)) s"

definition sys_ok :: "'w platform \<Rightarrow> 'w sys \<Rightarrow> bool" where
  "sys_ok P s \<longleftrightarrow> conn_ok (s_io s, s_env s) \<and> hal_wf P (s_hal s) \<and> services_ok s \<and> held_ok s"

text \<open>A buffer that may be queued: nobody else holds it.\<close>

definition postable :: "wbuf \<Rightarrow> 'w sys \<Rightarrow> bool" where
  "postable w s \<longleftrightarrow> sendable w (s_io s, s_env s) \<and> wb_addr w \<notin> set (held s)"

lemma held_same:
  "s_io s' = s_io s \<Longrightarrow> tasks s' = tasks s \<Longrightarrow> held s' = held s"
  by (simp add: held_def)

lemma held_ok_same:
  "s_io s' = s_io s \<Longrightarrow> tasks s' = tasks s \<Longrightarrow> live (s_env s) \<subseteq> live (s_env s') \<Longrightarrow>
     held_ok s \<Longrightarrow> held_ok s'"
  by (auto simp: held_ok_def held_def apart_def)

text \<open>Sending and freeing concern other objects.\<close>

lemma held_ok_shrunk:
  assumes ok: "held_ok s" and same: "held s' = held s" "io_rbuf (s_io s') = io_rbuf (s_io s)"
    and funcs: "epoll_funcs (s_io s') = epoll_funcs (s_io s)"
    and q: "wb_addr ` set (sendq (s_io s')) \<subseteq> Q" and l: "live (s_env s) - live (s_env s') \<subseteq> Q"
    and Q: "set (held s) \<inter> Q = {}"
  shows "held_ok s'"
proof -
  have "set (held s) \<subseteq> live (s_env s')" using ok l Q by (auto simp: held_ok_def apart_def)
  moreover have "set (held s) \<inter> wb_addr ` set (sendq (s_io s')) = {}" using q Q by blast
  ultimately show ?thesis using ok same funcs by (simp add: held_ok_def apart_def)
qed

lemma services_tasks: "services s' = services s \<Longrightarrow> tasks s' = tasks s"
  by (simp add: services_def)

text \<open>Calls to the outside world that touch nothing of the environment but the world.\<close>

definition world_only :: "'w env \<Rightarrow> 'w env \<Rightarrow> bool" where
  "world_only e e' \<longleftrightarrow> live e' = live e \<and> next_addr e' = next_addr e \<and> sent e' = sent e \<and>
     awake e' = awake e \<and> watched e' = watched e"

lemma world_only_refl [simp]: "world_only e e"
  by (simp add: world_only_def)

lemma world_only_trans: "world_only e e1 \<Longrightarrow> world_only e1 e2 \<Longrightarrow> world_only e e2"
  by (simp add: world_only_def)

lemma ext_call_world: "ext_call f e = (r, e') \<Longrightarrow> world_only e e'"
  by (drule ext_call_env) (simp add: world_only_def)

lemma world_only_conn:
  "world_only e e' \<Longrightarrow> conn_ok (io, e') = conn_ok (io, e)"
  "world_only e e' \<Longrightarrow> sendable w (io, e') = sendable w (io, e)"
  "world_only e e' \<Longrightarrow> output_stream (io, e') = output_stream (io, e)"
  by (simp_all add: world_only_def conn_ok_def sendable_def output_stream_def env_wf_def)

lemma close_all_world: "world_only e (close_all P calls e)"
proof (induction calls arbitrary: e)
  case (Cons c calls)
  obtain r e1 where "ext_call (close_stream P (fst c) (snd c)) e = (r, e1)" by (metis surj_pair)
  moreover from this have "world_only e e1" by (rule ext_call_world)
  ultimately show ?case
    using Cons.IH [of e1] by (auto simp: close_all_def case_prod_beta intro: world_only_trans)
qed (simp add: close_all_def)

lemma notify_world:
  assumes "hal_wf P h" "hal_device h" "device_init_notify P ev h e = Inr (h', e')"
  shows "world_only e e'"
  using notify_refines [OF assms(1,2), of ev e] assms(3) close_all_world
  by (auto simp: notify_refined_def)

lemma run_notify_world:
  assumes "hal_wf P h" "hal_device h" "run_steps (notify_step P) evs (h, e) = Inr (h', e')"
  shows "world_only e e'"
  using assms
proof (induction evs arbitrary: h e)
  case (Cons ev evs)
  from notify_refines [OF Cons.prems(1,2), of ev e] obtain h1 where
    1: "device_init_notify P ev h e = Inr (h1, close_all P (notify_closes P ev (devices h)) e)"
    "hal_wf P h1" "hal_device h1"
    using Cons.prems(2) by (auto simp: notify_refined_def hal_same_module_def)
  let ?e1 = "close_all P (notify_closes P ev (devices h)) e"
  have "notify_step P ev (h, e) = Inr (h1, ?e1)" using 1(1) by (simp add: notify_step_def)
  then have "run_steps (notify_step P) evs (h1, ?e1) = Inr (h', e')" using Cons.prems(3) by simp
  from Cons.IH [OF 1(2,3) this] close_all_world show ?case by (rule world_only_trans [rotated])
qed simp

lemma hal_init_world:
  assumes len: "length (device_list h) = MAX_DEVICE_NUM"
    and run: "tv_input_hal_init P h e = Inr (st, h', e')"
  shows "world_only e e'"
proof -
  obtain err1 e1 where 1: "ext_call (hw_get_module P) e = (err1, e1)" by (meson surj_pair)
  obtain err2 e2 where 2: "ext_call (hw_module_open P) e1 = (err2, e2)" by (meson surj_pair)
  obtain err3 evs e3 where 3: "ext_call (hw_initialize P) e2 = ((err3, evs), e3)"
    by (metis surj_pair)
  let ?h = "h\<lparr>device_num := 0, hal_module := True, hal_device := True\<rparr>"
  have h: "hal_wf P ?h" "hal_device ?h" using len by (simp_all add: hal_wf_def devices_def)
  then obtain h4 e4 where 4: "run_steps (notify_step P) evs (?h, e3) = Inr (h4, e4)"
    using hal_events.run_keeps [of P "(?h, e3)" evs] by (auto simp: hal_ready_def list_all_iff)
  note w = ext_call_world [OF 1] ext_call_world [OF 2] ext_call_world [OF 3]
    run_notify_world [OF h 4]
  from run 1 2 3 4 have "e' = e1 \<or> e' = e2 \<or> e' = e4"
    by (auto simp: tv_input_hal_init_def Let_def split: if_splits)
  with w show ?thesis by (auto intro: world_only_trans)
qed

section \<open>The device layer and the service\<close>

lemma hal_init_sys_total:
  assumes ok: "sys_ok P s"
  shows "\<exists>st s'. hal_init_sys P s = Inr (st, s') \<and> sys_ok P s' \<and>
           (st = TV_STATUS_SUCCESS \<longleftrightarrow> hal_device (s_hal s')) \<and> s_io s' = s_io s \<and>
           services s' = services s \<and> world_only (s_env s) (s_env s')"
proof -
  have len: "length (device_list (s_hal s)) = MAX_DEVICE_NUM"
    using ok by (simp add: sys_ok_def hal_wf_def)
  obtain st h' e' where r: "tv_input_hal_init P (s_hal s) (s_env s) = Inr (st, h', e')" "hal_wf P h'"
    "st = TV_STATUS_SUCCESS \<longleftrightarrow> hal_device h'"
    using tv_input_hal_init_total [OF len] by blast
  note w = hal_init_world [OF len r(1)]
  have "services_ok (s\<lparr>s_hal := h', s_env := e'\<rparr>)"
    using ok by (auto simp: sys_ok_def intro: services_ok_same [of _ s])
  moreover have "held_ok (s\<lparr>s_hal := h', s_env := e'\<rparr>)"
    using ok w by - (rule held_ok_same [of _ s], simp_all add: sys_ok_def world_only_def)
  ultimately show ?thesis
    using r w ok world_only_conn(1) [OF w] by (simp add: hal_init_sys_def call_drv_def sys_ok_def)
qed

lemma hal_uninit_sys_total:
  assumes ok: "sys_ok P s"
  shows "hal_uninit_sys P s =
           Inr (TV_STATUS_SUCCESS, s\<lparr>s_env := close_all P (active_streams (s_hal s)) (s_env s)\<rparr>)"
  using ok tv_input_hal_uninit_eq [of P "s_hal s" "s_env s"]
  by (simp add: hal_uninit_sys_def call_drv_def sys_ok_def)

lemma sys_ok_world:
  "sys_ok P s \<Longrightarrow> world_only (s_env s) e \<Longrightarrow> sys_ok P (s\<lparr>s_env := e\<rparr>)"
  using services_ok_same [of "s\<lparr>s_env := e\<rparr>" s] held_ok_same [of "s\<lparr>s_env := e\<rparr>" s]
  by (simp add: sys_ok_def world_only_conn(1)) (simp add: world_only_def)

text \<open>
  Registering the DTV service succeeds exactly when the HAL can be opened; the vendor
  functions of dtv.c do not fail.
\<close>

lemma register_dtv_total:
  assumes ok: "sys_ok P s"
  shows "\<exists>h s'. register_dtv P (dtv_impl P) f s = Inr (h, s') \<and> conn_ok (s_io s', s_env s') \<and>
           hal_wf P (s_hal s') \<and> s_io s' = s_io s \<and> world_only (s_env s) (s_env s') \<and>
           (h = Some Dtv_handler \<longleftrightarrow> hal_device (s_hal s'))"
proof -
  obtain st s1 where 1: "hal_init_sys P s = Inr (st, s1)" "sys_ok P s1"
    "st = TV_STATUS_SUCCESS \<longleftrightarrow> hal_device (s_hal s1)" "s_io s1 = s_io s"
    "world_only (s_env s) (s_env s1)"
    using hal_init_sys_total [OF ok] by blast
  show ?thesis
  proof (cases "st = TV_STATUS_SUCCESS")
    case True
    with 1 show ?thesis
      by (simp add: register_dtv_def Let_def dtv_impl_def dtv_init_def call_drv_def sys_ok_def)
  next
    case False
    let ?s = "s1\<lparr>s_env := close_all P (active_streams (s_hal s1)) (s_env s1)\<rparr>"
    have w: "world_only (s_env s1) (s_env ?s)" using close_all_world by simp
    with 1 False sys_ok_world [OF 1(2) w] show ?thesis
      by (auto simp: register_dtv_def hal_uninit_sys_total sys_ok_def intro: world_only_trans)
  qed
qed

lemma unregister_dtv_total:
  assumes ok: "sys_ok P s"
  shows "unregister_dtv P (dtv_impl P) s =
           Inr (ERROR_NONE, s\<lparr>s_env := close_all P (active_streams (s_hal s)) (s_env s),
                              dtv_send_pdu := None\<rparr>)"
  using hal_uninit_sys_total [OF ok]
  by (simp add: unregister_dtv_def dtv_impl_def dtv_uninit_def call_drv_def)

section \<open>Buffers and sending\<close>

lemma conn_create_wbuf:
  assumes c: "sys_create_wbuf P n t cb s = (w, s')" and ok: "conn_ok (s_io s, s_env s)"
  shows "conn_ok (s_io s', s_env s')" "services s' = services s" "s_io s' = s_io s"
    "s_hal s' = s_hal s" "sys_out s' = sys_out s" "live (s_env s) \<subseteq> live (s_env s')"
    "w = Some b \<Longrightarrow> sendable b (s_io s', s_env s') \<and> wb_size b = n \<and> wb_tail_size b = t \<and>
       wb_ancillary b = cb \<and> wb_tail b = None \<and> wb_addr b \<notin> live (s_env s) \<and>
       live (s_env s') = insert (wb_addr b) (live (s_env s))"
proof -
  obtain r e where e: "create_pdu_wbuf P n t cb (s_env s) = (r, e)" "w = r" "s' = s\<lparr>s_env := e\<rparr>"
    using c by (auto simp: sys_create_wbuf_def split: prod.splits)
  have wf: "env_wf (s_env s)" using ok by (simp add: conn_ok_def)
  note env = create_pdu_wbuf_env [OF e(1)] create_pdu_wbuf_wf [OF e(1) wf]
  show "services s' = services s" "s_io s' = s_io s" "s_hal s' = s_hal s" using e by simp_all
  show "live (s_env s) \<subseteq> live (s_env s')" using e env by simp
  show "sys_out s' = sys_out s" using sys_create_wbuf_output [OF c] .
  show "conn_ok (s_io s', s_env s')" using ok env e by (auto simp: conn_ok_def queue_ok_def)
  show "w = Some b \<Longrightarrow> sendable b (s_io s', s_env s') \<and> wb_size b = n \<and> wb_tail_size b = t \<and>
       wb_ancillary b = cb \<and> wb_tail b = None \<and> wb_addr b \<notin> live (s_env s) \<and>
       live (s_env s') = insert (wb_addr b) (live (s_env s))"
  proof -
    assume "w = Some b"
    with e have e1: "create_pdu_wbuf P n t cb (s_env s) = (Some b, e)" by simp
    note b = create_pdu_wbuf_Some [OF e1]
    have "wb_addr b \<notin> live (s_env s)" using b env_wf_fresh [OF wf] by simp
    with ok e b show ?thesis by (auto simp: sendable_def conn_ok_def queue_ok_def)
  qed
qed

lemma sys_create_wbuf_ok:
  assumes "sys_create_wbuf P n t cb s = (w, s')" and "sys_ok P s"
  shows "sys_ok P s'" "w = Some b \<Longrightarrow> postable b s'"
proof -
  have conn: "conn_ok (s_io s, s_env s)" using assms(2) by (simp add: sys_ok_def)
  note c = conn_create_wbuf [OF assms(1) conn]
  have held: "held_ok s" using assms(2) by (simp add: sys_ok_def)
  have "held_ok s'" using held_ok_same [OF c(3) services_tasks [OF c(2)] c(6) held] .
  then show "sys_ok P s'"
    using assms(2) c(1,4) services_ok_same [OF c(2)] by (simp add: sys_ok_def)
  show "postable b s'" if "w = Some b"
    using c(7) [OF that] held held_same [OF c(3) services_tasks [OF c(2)]]
    by (auto simp: postable_def held_ok_def apart_def)
qed

text \<open>What a completed append leaves of \<open>sendable\<close>.\<close>

lemma sendable_addr:
  "sendable b c \<Longrightarrow> wb_addr b' = wb_addr b \<Longrightarrow> sendable b' c"
  by (cases c) (simp add: sendable_def)

lemma call_send_total:
  assumes ok: "conn_ok (s_io s, s_env s)" and w: "sendable w (s_io s, s_env s)"
    and f: "f \<noteq> None"
  shows "\<exists>s'. call_send P f w s = Inr s' \<and> conn_ok (s_io s', s_env s') \<and> s_hal s' = s_hal s \<and>
           services s' = services s \<and> sys_out s' = sys_out s @ [wb_pdu w] \<and>
           live (s_env s') \<subseteq> live (s_env s) \<and>
           live (s_env s) - live (s_env s') \<subseteq> wb_addr ` set (sendq (s_io s) @ [w]) \<and>
           io_rbuf (s_io s') = io_rbuf (s_io s) \<and> set (sendq (s_io s')) \<subseteq> set (sendq (s_io s) @ [w]) \<and>
           next_addr (s_env s') = next_addr (s_env s) \<and> epoll_funcs (s_io s') = epoll_funcs (s_io s)"
proof -
  have f': "f = Some Io_send_pdu" using f by (cases f) (auto intro: send_fn.exhaust)
  obtain r io' e' where r: "io_state_send P w (s_io s) (s_env s) = Inr (r, io', e')"
    "conn_ok (io', e')" "output_stream (io', e') = output_stream (s_io s, s_env s) @ [wb_pdu w]"
    "same_conn ((s_io s)\<lparr>sendq := sendq (s_io s) @ [w]\<rparr>, s_env s) (io', e')"
    using io_state_send_total [OF ok w] by blast
  then show ?thesis
    using f' by (auto simp: call_send_def io_send_pdu_def sys_out_def same_conn_def)
qed

lemma send_total:
  assumes ok: "sys_ok P s" and w: "postable w s" and f: "f \<noteq> None"
  shows "\<exists>s'. call_send P f w s = Inr s' \<and> sys_ok P s' \<and> services s' = services s \<and>
           sys_out s' = sys_out s @ [wb_pdu w] \<and> io_rbuf (s_io s') = io_rbuf (s_io s)"
proof -
  have conn: "conn_ok (s_io s, s_env s)" using ok by (simp add: sys_ok_def)
  have sw: "sendable w (s_io s, s_env s)" using w by (simp add: postable_def)
  obtain s' where s': "call_send P f w s = Inr s'" "conn_ok (s_io s', s_env s')" "s_hal s' = s_hal s"
    "services s' = services s" "sys_out s' = sys_out s @ [wb_pdu w]"
    "live (s_env s) - live (s_env s') \<subseteq> wb_addr ` set (sendq (s_io s) @ [w])"
    "io_rbuf (s_io s') = io_rbuf (s_io s)" "set (sendq (s_io s')) \<subseteq> set (sendq (s_io s) @ [w])"
    "epoll_funcs (s_io s') = epoll_funcs (s_io s)"
    using call_send_total [OF conn sw f] by blast
  have "held s' = held s" using s'(4,9) by (simp add: held_def services_def)
  moreover have "set (held s) \<inter> wb_addr ` set (sendq (s_io s) @ [w]) = {}"
    using ok w by (auto simp: sys_ok_def held_ok_def apart_def postable_def)
  moreover have "wb_addr ` set (sendq (s_io s')) \<subseteq> wb_addr ` set (sendq (s_io s) @ [w])"
    using s'(8) by (rule image_mono)
  moreover have "held_ok s" using ok by (simp add: sys_ok_def)
  ultimately have "held_ok s'" using s'(6,7,9) by (intro held_ok_shrunk [of s s']) assumption+
  then have "sys_ok P s'"
    using ok s'(2,3) services_ok_same [OF s'(4)] by (simp add: sys_ok_def)
  with s' show ?thesis by blast
qed

lemma postable_addr: "postable b s \<Longrightarrow> wb_addr b' = wb_addr b \<Longrightarrow> postable b' s"
  by (auto simp: postable_def intro: sendable_addr)

lemma postable_world:
  "postable b s \<Longrightarrow> s_io s' = s_io s \<Longrightarrow> tasks s' = tasks s \<Longrightarrow> world_only (s_env s) (s_env s') \<Longrightarrow>
     postable b s'"
  using world_only_conn(2) [of "s_env s" "s_env s'" b "s_io s"]
  by (simp add: postable_def held_def)

section \<open>Delivering items\<close>

text \<open>
  A state in which a service may answer: the connection is sound and the service has a send
  function.
\<close>

definition can_answer :: "'w sys \<Rightarrow> bool" where
  "can_answer s \<longleftrightarrow> conn_ok (s_io s, s_env s) \<and> dtv_send_pdu s \<noteq> None"

lemma conn_ok_free:
  assumes "conn_ok (s_io s, e)" "apart F s" "live e' = live e - F" "next_addr e' = next_addr e"
  shows "conn_ok (s_io s, e')"
  using assms by (auto simp: conn_ok_def apart_def queue_ok_def env_wf_def)

lemma andThen_pair:
  "andThen (andThen m (\<lambda>(x, y). k x y)) l = andThen m (\<lambda>(x, y). andThen (k x y) l)"
  by (cases m) auto

definition live_mono :: "(nat set \<Rightarrow> 'a \<Rightarrow> bool) \<Rightarrow> bool" where
  "live_mono sound \<longleftrightarrow> (\<forall>lv lv' x. lv \<subseteq> lv' \<longrightarrow> sound lv x \<longrightarrow> sound lv' x)"

definition frees_exactly :: "('w env \<Rightarrow> 'w env res) \<Rightarrow> nat set \<Rightarrow> bool" where
  "frees_exactly f F \<longleftrightarrow> (\<forall>e. F \<subseteq> live e \<longrightarrow> f e = Inr (e\<lparr>live := live e - F\<rparr>))"

text \<open>
  The general law of \<open>reply_items\<close>: with sound items whose sizes stay within the maximal PDU,
  and a release function that frees the objects \<open>F\<close>, the count and all items are sent in one
  PDU, and afterwards exactly the objects \<open>F\<close> and sent buffers are gone.
\<close>

lemma reply_items_sent:
  assumes item: "\<And>lv. sized_item (sound lv) (calc lv) bytes P enc (app lv) args"
    and mono: "live_mono sound"
    and codec: "pdu_codec P enc" and tot: "append_total P"
    and max: "PDU_MAX_DATA_LENGTH P < 4294967296"
    and s: "can_answer s" and a: "a \<in> live (s_env s)" and F: "apart F s"
    and xs: "list_all (sound (live (s_env s))) xs" "unat num = length xs"
    and small: "4 + sum_list (map bytes xs) \<le> PDU_MAX_DATA_LENGTH P"
    and mem: "sys_create_wbuf P (4 + sum_list (map bytes xs)) 0 False s = (Some w, s1)"
  shows "\<exists>s2. reply_items P calc app release cmd num (Ptr a xs) s =
             andThen (on_env (release num (Ptr a xs)) s2) (\<lambda>s. Inr (ERROR_NONE, s)) \<and>
           sys_out s2 = sys_out s @ [\<lparr>pdu_service = pdu_service cmd, pdu_opcode = pdu_opcode cmd,
              pdu_data = encodes enc (ArgI num # concat (map args xs))\<rparr>] \<and>
           can_answer s2 \<and> apart F s2 \<and> services s2 = services s"
proof -
  let ?lv = "live (s_env s)" and ?lv1 = "live (s_env s1)"
  let ?n = "4 + sum_list (map bytes xs)" and ?args = "ArgI num # concat (map args xs)"
  let ?b = "init_pdu (pdu_service cmd) (pdu_opcode cmd) w"
  let ?app = "\<lambda>w. andThen (wbuf_append P [ArgI num] w) (\<lambda>(ok, w).
      if \<not> ok then Inr (False, w) else append_all (app ?lv1) ?lv1 (Ptr a xs) num w)"
  have conn: "conn_ok (s_io s, s_env s)" using s by (simp add: can_answer_def)
  note c = conn_create_wbuf [OF mem conn]
  from c(7) have w: "sendable w (s_io s1, s_env s1)" "wb_size w = ?n" "wb_addr w \<notin> ?lv" by simp_all
  have lt: "?n < 4294967296" using small max by simp
  have xs1: "list_all (sound ?lv1) xs" "a \<in> ?lv1"
    using xs(1) mono a c(6) unfolding live_mono_def list_all_iff by blast+
  note counted = sized_item.axioms(1) [OF item]
  note sz = counted_item.sum_sizes_eq [OF counted a xs, of 4]
  have un: "unat (4 + of_nat (sum_list (map bytes xs)) :: u32) = ?n"
  proof -
    have "(4 + of_nat (sum_list (map bytes xs)) :: u32) = of_nat ?n" by simp
    then show ?thesis using lt by (simp only: unat_of_nat) simp
  qed
  note sz1 = counted_item.sum_sizes_eq [OF counted xs1(2,1) xs(2), of 4]
  note fit = sized_item.counted_items_fit(2,3) [OF item codec xs1(2,1) xs(2) lt sz1, unfolded un]
  have "wbuf_used ?b + args_size ?args \<le> wb_size ?b" using fit(2) w(2) by simp
  from writesE [OF fit(1) this] obtain ok pre where run: "?app ?b = Inr (ok, wbuf_extend enc pre ?b)"
    "ok \<longrightarrow> pre = ?args" "append_total P \<Longrightarrow> wbuf_used ?b + args_size ?args \<le> PDU_MAX_DATA_LENGTH P \<Longrightarrow> ok"
    by blast
  have ok using run(3) [OF tot] fit(2) small by simp
  let ?w = "wbuf_extend enc ?args ?b"
  have app: "?app ?b = Inr (True, ?w)" using run \<open>ok\<close> by simp
  have "sendable ?w (s_io s1, s_env s1)" using w(1) by (rule sendable_addr) simp
  moreover have "dtv_send_pdu s1 \<noteq> None"
    using s c(2) by (auto simp: can_answer_def services_def)
  ultimately obtain s2 where s2: "call_send P (dtv_send_pdu s1) ?w s1 = Inr s2"
    "conn_ok (s_io s2, s_env s2)" "services s2 = services s1"
    "sys_out s2 = sys_out s1 @ [wb_pdu ?w]"
    "live (s_env s1) - live (s_env s2) \<subseteq> wb_addr ` set (sendq (s_io s1) @ [?w])"
    "io_rbuf (s_io s2) = io_rbuf (s_io s1)" "set (sendq (s_io s2)) \<subseteq> set (sendq (s_io s1) @ [?w])"
    using call_send_total [OF c(1)] by blast
  have "wb_addr w \<notin> F" using w(3) F by (auto simp: apart_def)
  have q2: "wb_addr ` set (sendq (s_io s2)) \<subseteq> insert (wb_addr w) (wb_addr ` set (sendq (s_io s)))"
    using image_mono [OF s2(7), of wb_addr] c(3) by simp
  have l2: "live (s_env s1) - live (s_env s2) \<subseteq> insert (wb_addr w) (wb_addr ` set (sendq (s_io s)))"
    using s2(5) c(3) by simp
  have F1: "F \<subseteq> live (s_env s1)" "F \<inter> insert (wb_addr w) (wb_addr ` set (sendq (s_io s))) = {}"
    using F c(6) \<open>wb_addr w \<notin> F\<close> unfolding apart_def by blast+
  have "F \<subseteq> live (s_env s2)" using F1 l2 by blast
  moreover have "F \<inter> wb_addr ` set (sendq (s_io s2)) = {}" using F1(2) q2 by blast
  ultimately have F2: "apart F s2" using F s2(6) c(3) by (simp add: apart_def)
  have "reply_items P calc app release cmd num (Ptr a xs) s =
      andThen (?app ?b) (\<lambda>(ok, w). if ok then andThen (call_send P (dtv_send_pdu s1) w s1)
          (\<lambda>s. andThen (on_env (release num (Ptr a xs)) s) (\<lambda>s. Inr (ERROR_NONE, s)))
        else andThen (on_env (release num (Ptr a xs)) s1) (\<lambda>s.
          andThen (on_env (destroy_pdu_wbuf w) s) (\<lambda>s. Inr (ERROR_NOMEM, s))))"
    unfolding reply_items_def sz andThen.simps un mem prod.case option.case andThen_pair ..
  also have "\<dots> = andThen (on_env (release num (Ptr a xs)) s2) (\<lambda>s. Inr (ERROR_NONE, s))"
    unfolding app using s2(1) by simp
  finally have run: "reply_items P calc app release cmd num (Ptr a xs) s =
      andThen (on_env (release num (Ptr a xs)) s2) (\<lambda>s. Inr (ERROR_NONE, s))" .
  moreover have "can_answer s2" using s s2(2,3) c(2) by (auto simp: can_answer_def services_def)
  moreover have "services s2 = services s" using s2(3) c(2) by simp
  moreover have "sys_out s2 = sys_out s @
      [\<lparr>pdu_service = pdu_service cmd, pdu_opcode = pdu_opcode cmd, pdu_data = encodes enc ?args\<rparr>]"
    using s2(4) c(5) by (simp add: wbuf_extend_def)
  ultimately show ?thesis using F2 by blast
qed

text \<open>With a release that frees \<open>F\<close>, the objects of \<open>F\<close> are gone afterwards.\<close>

lemma release_done:
  assumes s: "can_answer s" "apart F s" and rel: "frees_exactly f F"
  shows "\<exists>s'. on_env f s = Inr s' \<and> sys_out s' = sys_out s \<and> can_answer s' \<and>
           live (s_env s') \<inter> F = {} \<and> services s' = services s"
proof -
  let ?e = "(s_env s)\<lparr>live := live (s_env s) - F\<rparr>"
  have "f (s_env s) = Inr ?e" using s(2) rel by (simp add: apart_def frees_exactly_def)
  then have "on_env f s = Inr (s\<lparr>s_env := ?e\<rparr>)" by (simp add: on_env_def)
  moreover have "conn_ok (s_io s, ?e)" "dtv_send_pdu s \<noteq> None"
    using s(1) conn_ok_free [OF _ s(2), of "s_env s" ?e] by (simp_all add: can_answer_def)
  then have "can_answer (s\<lparr>s_env := ?e\<rparr>)" by (simp add: can_answer_def)
  moreover have "sys_out (s\<lparr>s_env := ?e\<rparr>) = sys_out s" by (rule sys_out_same_env) simp
  moreover have "live (s_env (s\<lparr>s_env := ?e\<rparr>)) \<inter> F = {}" by simp blast
  ultimately show ?thesis using services_update(1) by blast
qed

lemma reply_items_delivers:
  assumes "\<And>lv. sized_item (sound lv) (calc lv) bytes P enc (app lv) args" and "live_mono sound"
    and "pdu_codec P enc" and "append_total P" and "PDU_MAX_DATA_LENGTH P < 4294967296"
    and "can_answer s" and "a \<in> live (s_env s)" and "apart F s"
    and "list_all (sound (live (s_env s))) xs" "unat num = length xs"
    and "4 + sum_list (map bytes xs) \<le> PDU_MAX_DATA_LENGTH P"
    and "sys_create_wbuf P (4 + sum_list (map bytes xs)) 0 False s = (Some w, s1)"
    and rel: "frees_exactly (release num (Ptr a xs)) F"
  shows "\<exists>s'. reply_items P calc app release cmd num (Ptr a xs) s = Inr (ERROR_NONE, s') \<and>
           sys_out s' = sys_out s @ [\<lparr>pdu_service = pdu_service cmd, pdu_opcode = pdu_opcode cmd,
              pdu_data = encodes enc (ArgI num # concat (map args xs))\<rparr>] \<and>
           can_answer s' \<and> live (s_env s') \<inter> F = {} \<and> services s' = services s"
proof -
  obtain s2 where s2: "reply_items P calc app release cmd num (Ptr a xs) s =
        andThen (on_env (release num (Ptr a xs)) s2) (\<lambda>s. Inr (ERROR_NONE, s))"
      "sys_out s2 = sys_out s @ [\<lparr>pdu_service = pdu_service cmd, pdu_opcode = pdu_opcode cmd,
              pdu_data = encodes enc (ArgI num # concat (map args xs))\<rparr>]"
      "can_answer s2" "apart F s2" "services s2 = services s"
    using reply_items_sent [OF assms(1-12), where release = release and cmd = cmd] by blast
  from release_done [OF s2(3,4) rel] s2 show ?thesis by auto
qed

text \<open>
  An array as a vendor function hands it over: every item and everything an item points to is
  live, nothing is shared, and the connection owns none of it.
\<close>

definition handed ::
  "('a \<Rightarrow> nat list) \<Rightarrow> ('a \<Rightarrow> bool) \<Rightarrow> (nat set \<Rightarrow> 'a \<Rightarrow> bool) \<Rightarrow> nat \<Rightarrow> 'a list \<Rightarrow> 'w sys \<Rightarrow> bool" where
  "handed owned sound readable a xs s \<longleftrightarrow>
     distinct (a # concat (map owned xs)) \<and> apart (set (a # concat (map owned xs))) s \<and>
     list_all sound xs \<and> list_all (readable (live (s_env s))) xs"

lemma handed_owns:
  "handed owned sound readable a xs s \<Longrightarrow> set (a # concat (map owned xs)) \<subseteq> lv \<Longrightarrow>
     owns_array owned a xs lv"
  by (simp add: handed_def owns_array_def)

lemma cstring_mono: "lv \<subseteq> lv' \<Longrightarrow> cstring lv p \<Longrightarrow> cstring lv' p"
  by (cases p) (auto simp: cstring_def)

lemma readable_tuner_mono: "live_mono readable_tuner"
  unfolding readable_tuner_def live_mono_def using cstring_mono by blast

lemma readable_channel_mono: "live_mono readable_channel"
  unfolding readable_channel_def live_mono_def using cstring_mono by blast

lemma get_tuners_sends:
  assumes codec: "pdu_codec P enc" "append_total P" "PDU_MAX_DATA_LENGTH P < 4294967296"
    and num: "call_drv (api_get_tuner_num A) s = Inr (num, s1)"
    and arr: "sys_malloc P (to_size P (sizeof_tv_tuner P * uint num))
        (replicate (to_size P (sizeof_tv_tuner P * uint num) div nat (sizeof_tv_tuner P))
           (uninit_tuner P)) s1 = (p, s2)"
    and got: "call_drv2 (api_get_tuners A num p) s2 = Inr (TV_STATUS_SUCCESS, Ptr a ts, s3)"
    and s3: "can_answer s3" "handed owned_tuner sound_tuner readable_tuner a ts s3"
    and len: "unat num = length ts"
    and small: "4 + sum_list (map (\<lambda>t. args_size (tuner_args t)) ts) \<le> PDU_MAX_DATA_LENGTH P"
    and mem: "sys_create_wbuf P (4 + sum_list (map (\<lambda>t. args_size (tuner_args t)) ts)) 0 False s3 =
        (Some w, s4)"
  shows "\<exists>s'. get_tuners P A cmd s = Inr (ERROR_NONE, s') \<and>
           sys_out s' = sys_out s3 @ [\<lparr>pdu_service = pdu_service cmd, pdu_opcode = pdu_opcode cmd,
              pdu_data = encodes enc (ArgI num # concat (map tuner_args ts))\<rparr>] \<and>
           can_answer s' \<and> live (s_env s') \<inter> set (a # concat (map owned_tuner ts)) = {}"
proof -
  have a: "a \<in> live (s_env s3)" using s3(2) by (simp add: handed_def apart_def)
  have F: "apart (set (a # concat (map owned_tuner ts))) s3" using s3(2) by (simp add: handed_def)
  have snd: "list_all sound_tuner ts" "list_all (readable_tuner (live (s_env s3))) ts"
    using s3(2) by (simp_all add: handed_def)
  have rel: "frees_exactly (release_tuners num (Ptr a ts)) (set (a # concat (map owned_tuner ts)))"
    unfolding frees_exactly_def using len
    by (intro allI impI release_tuners_frees [OF handed_owns [OF s3(2)] snd(1)]) simp_all
  from reply_items_delivers [where sound = readable_tuner and calc = calculate_tuner_size
        and app = "append_tuner P" and bytes = "\<lambda>t. args_size (tuner_args t)" and args = tuner_args
        and release = release_tuners, OF tuner_item.sized_item_axioms readable_tuner_mono codec s3(1) a F
      snd(2) len small mem rel]
  obtain s' where "reply_items P calculate_tuner_size (append_tuner P) release_tuners cmd num (Ptr a ts) s3 =
      Inr (ERROR_NONE, s')"
    "sys_out s' = sys_out s3 @ [\<lparr>pdu_service = pdu_service cmd, pdu_opcode = pdu_opcode cmd,
       pdu_data = encodes enc (ArgI num # concat (map tuner_args ts))\<rparr>]"
    "can_answer s'" "live (s_env s') \<inter> set (a # concat (map owned_tuner ts)) = {}"
    by blast
  then show ?thesis using num arr got by (simp add: get_tuners_def Let_def)
qed

lemma readable_program_mono: "live_mono readable_program"
proof -
  have "readable_langs lv n p \<Longrightarrow> lv \<subseteq> lv' \<Longrightarrow> readable_langs lv' n p" for lv lv' n p
    unfolding readable_langs_def list_all_iff using cstring_mono by blast
  then show ?thesis
    unfolding live_mono_def readable_program_def using cstring_mono by blast
qed

text \<open>
  Programs: one is sent and released; with several, the response is sent and the release then
  reads the array that it has freed.
\<close>

lemma get_programs_sends:
  assumes codec: "pdu_codec P enc" "append_total P" "PDU_MAX_DATA_LENGTH P < 4294967296"
    and rd: "read_pdu_at P cmd 0 [Fmt0, FmtC, Fmt0, FmtL, FmtL] =
        Some [Arg0 i, ArgC t, Arg0 c, ArgL t1, ArgL t2]"
    and num: "call_drv (api_get_prog_num A i t c t1 t2) s = Inr (num, s1)"
    and arr: "sys_malloc P (to_size P (sizeof_tv_program P * uint num))
        (replicate (to_size P (sizeof_tv_program P * uint num) div nat (sizeof_tv_program P))
           (uninit_program P)) s1 = (p, s2)"
    and got: "call_drv2 (api_get_programs A i t c t1 t2 num p) s2 = Inr (TV_STATUS_SUCCESS, Ptr a ps, s3)"
    and s3: "can_answer s3" "handed owned_program sound_program readable_program a ps s3"
    and len: "unat num = length ps" "ps \<noteq> []"
    and small: "4 + sum_list (map program_bytes ps) \<le> PDU_MAX_DATA_LENGTH P"
    and mem: "sys_create_wbuf P (4 + sum_list (map program_bytes ps)) 0 False s3 = (Some w, s4)"
  shows "if num = 1
         then \<exists>s'. get_programs P A cmd s = Inr (ERROR_NONE, s') \<and>
                sys_out s' = sys_out s3 @ [\<lparr>pdu_service = pdu_service cmd, pdu_opcode = pdu_opcode cmd,
                  pdu_data = encodes enc (ArgI 1 # program_args (hd ps))\<rparr>] \<and>
                can_answer s' \<and> live (s_env s') \<inter> set (a # owned_program (hd ps)) = {}
         else get_programs P A cmd s = Inl Use_after_free"
proof -
  have a: "a \<in> live (s_env s3)" using s3(2) by (simp add: handed_def apart_def)
  have F: "apart (set (a # concat (map owned_program ps))) s3" using s3(2) by (simp add: handed_def)
  have snd: "list_all sound_program ps" "list_all (readable_program (live (s_env s3))) ps"
    using s3(2) by (simp_all add: handed_def)
  have run: "get_programs P A cmd s = reply_items P calculate_prog_size (append_program P)
      release_programs cmd num (Ptr a ps) s3"
    using rd num arr got by (simp add: get_programs_def Let_def)
  note sent = reply_items_sent [where sound = readable_program and calc = calculate_prog_size
      and app = "append_program P" and bytes = program_bytes and args = program_args
      and release = release_programs and cmd = cmd, OF program_item.sized_item_axioms
      readable_program_mono codec s3(1) a F snd(2) len(1) small mem]
  show ?thesis
  proof (cases "num = 1")
    case True
    with len have "length ps = 1" by simp
    then obtain q where ps: "ps = [q]" by (auto simp: length_Suc_conv)
    have own: "owns_array owned_program a [q] lv" if "a \<in> lv" "set (owned_program q) \<subseteq> lv" for lv
      using handed_owns [OF s3(2)] ps that by simp
    have "sound_program q" using snd(1) ps by simp
    note free = release_one_program [OF own this]
    have rel: "frees_exactly (release_programs num (Ptr a ps)) (set (a # concat (map owned_program ps)))"
      unfolding frees_exactly_def True ps by (simp add: free)
    from reply_items_delivers [where sound = readable_program and calc = calculate_prog_size
        and app = "append_program P" and bytes = program_bytes and args = program_args
        and release = release_programs and cmd = cmd, OF program_item.sized_item_axioms
        readable_program_mono codec s3(1) a F snd(2) len(1) small mem rel]
    show ?thesis unfolding run using True ps by auto
  next
    case False
    from len have "unat num \<noteq> 0" by simp
    moreover from False have "unat num \<noteq> 1" by (simp add: word_unat_eq_iff)
    ultimately have many: "2 \<le> unat num" by linarith
    from sent obtain s5 where s5: "reply_items P calculate_prog_size (append_program P)
          release_programs cmd num (Ptr a ps) s3 =
        andThen (on_env (release_programs num (Ptr a ps)) s5) (\<lambda>s. Inr (ERROR_NONE, s))"
      "apart (set (a # concat (map owned_program ps))) s5" by blast
    have "owns_array owned_program a ps (live (s_env s5))"
      using s5(2) by (intro handed_owns [OF s3(2)]) (simp add: apart_def)
    from release_many_programs [OF this snd(1) many] len(1) s5(1) False show ?thesis
      unfolding run by (simp add: on_env_def)
  qed
qed

text \<open>
  Channels: whenever the vendor functions hand over at least one, the first append faults.
\<close>

lemma append_all_first:
  assumes "0 < unat num" "a \<in> lv" "xs \<noteq> []" "app (Some (hd xs)) w = Inl f"
  shows "append_all app lv (Ptr a xs) num w = Inl f"
proof -
  obtain k where "unat num = Suc k" using assms(1) by (cases "unat num") auto
  with assms show ?thesis by (simp add: append_all_def elem_ptr_def hd_conv_nth)
qed

lemma get_channels_stuck:
  assumes codec: "pdu_codec P enc" "append_total P" "4 \<le> PDU_MAX_DATA_LENGTH P"
    and rd: "read_pdu_at P cmd 0 [Fmt0, FmtC] = Some [Arg0 i, ArgC t]"
    and num: "call_drv (api_get_channel_num A i t) s = Inr (num, s1)"
    and arr: "sys_malloc P (to_size P (sizeof_tv_channel P * uint num))
        (replicate (to_size P (sizeof_tv_channel P * uint num) div nat (sizeof_tv_channel P))
           (uninit_channel P)) s1 = (p, s2)"
    and got: "call_drv2 (api_get_channels A i t num p) s2 = Inr (TV_STATUS_SUCCESS, Ptr a cs, s3)"
    and cs: "a \<in> live (s_env s3)" "list_all (readable_channel (live (s_env s3))) cs"
      "unat num = length cs" "cs \<noteq> []"
    and small: "4 + sum_list (map channel_bytes cs) < 4294967296"
    and mem: "sys_create_wbuf P (4 + sum_list (map channel_bytes cs)) 0 False s3 = (Some w, s4)"
    and conn: "conn_ok (s_io s3, s_env s3)"
  shows "get_channels P A cmd s = Inl Bad_vararg"
proof -
  let ?lv = "live (s_env s3)" and ?lv4 = "live (s_env s4)"
  let ?b = "init_pdu (pdu_service cmd) (pdu_opcode cmd) w"
  note sz = channel_item.sum_sizes_eq [OF cs(1-3), of 4]
  have un: "unat (4 + of_nat (sum_list (map channel_bytes cs)) :: u32) =
      4 + sum_list (map channel_bytes cs)"
  proof -
    have "(4 + of_nat (sum_list (map channel_bytes cs)) :: u32) =
        of_nat (4 + sum_list (map channel_bytes cs))" by simp
    then show ?thesis using small by (simp only: unat_of_nat) simp
  qed
  note c = conn_create_wbuf [OF mem conn]
  have "wb_size w = 4 + sum_list (map channel_bytes cs)" using c(7) by simp
  then have ap: "\<exists>w1. wbuf_append P [ArgI num] ?b = Inr (True, w1)"
    using wbuf_append_succeeds [OF codec(1,2), of ?b "[ArgI num]"] codec(3) by simp
  then obtain w1 where w1: "wbuf_append P [ArgI num] ?b = Inr (True, w1)" by blast
  have "readable_channel ?lv (hd cs)" using cs(2,4) by (cases cs) simp_all
  then have "readable_channel ?lv4 (hd cs)"
    using readable_channel_mono c(6) unfolding live_mono_def by blast
  then have "append_all (append_channel P ?lv4) ?lv4 (Ptr a cs) num w1 = Inl Bad_vararg"
    using cs c(6) by (intro append_all_first append_channel_faults) auto
  then have "reply_items P calculate_ch_size (append_channel P) release_channels cmd num (Ptr a cs) s3 =
      Inl Bad_vararg"
    by (simp add: reply_items_def sz un mem w1)
  then show ?thesis using rd num arr got by (simp add: get_channels_def Let_def)
qed

section \<open>The commands with the functions of dtv.c\<close>

lemma call_drv_return [simp]: "call_drv (\<lambda>d. Inr (r, d)) s = Inr (r, s)"
  by (simp add: call_drv_def)

lemma call_drv2_return [simp]: "call_drv2 (\<lambda>d. Inr (r, q, d)) s = Inr (r, q, s)"
  by (simp add: call_drv2_def)

lemma dtv_impl_stubs [simp]:
  "api_start_scanning (dtv_impl P) i t = (\<lambda>d. Inr (TV_STATUS_NOT_SUPPORTED, d))"
  "api_stop_scanning (dtv_impl P) i t = (\<lambda>d. Inr (TV_STATUS_NOT_SUPPORTED, d))"
  "api_cln_scanned_channel_cache (dtv_impl P) = (\<lambda>d. Inr (TV_STATUS_NOT_SUPPORTED, d))"
  "api_set_channel (dtv_impl P) i t c ch = (\<lambda>d. Inr (TV_STATUS_NOT_SUPPORTED, ch, d))"
  "api_get_channel_num (dtv_impl P) i t = (\<lambda>d. Inr (0, d))"
  "api_get_channels (dtv_impl P) i t n chs = (\<lambda>d. Inr (TV_STATUS_NOT_SUPPORTED, chs, d))"
  "api_get_prog_num (dtv_impl P) i t c st et = (\<lambda>d. Inr (0, d))"
  "api_get_programs (dtv_impl P) i t c st et n ps = (\<lambda>d. Inr (TV_STATUS_NOT_SUPPORTED, ps, d))"
  by (simp_all add: dtv_impl_def dtv_start_scanning_def dtv_stop_scanning_def
      dtv_cln_scanned_channel_cache_def dtv_set_channel_def dtv_get_channel_num_def
      dtv_get_channels_def dtv_get_prog_num_def dtv_get_programs_def fun_eq_iff)

lemma not_supported [simp]:
  "TV_STATUS_NOT_SUPPORTED \<noteq> TV_STATUS_SUCCESS" "uint TV_STATUS_NOT_SUPPORTED = 4"
  by (simp_all add: tv_status_defs)

lemma start_scan_stub:
  "start_scan P (dtv_impl P) cmd s =
     Inr (if \<exists>i t. read_pdu_at P cmd 0 [Fmt0, FmtC] = Some [Arg0 i, ArgC t] then 4 else ERROR_FAIL, s)"
  by (auto simp: start_scan_def split: option.splits list.splits pdu_arg.splits)

lemma stop_scan_stub:
  "stop_scan P (dtv_impl P) cmd s =
     Inr (if \<exists>i t. read_pdu_at P cmd 0 [Fmt0, FmtC] = Some [Arg0 i, ArgC t] then 4 else ERROR_FAIL, s)"
  by (auto simp: stop_scan_def split: option.splits list.splits pdu_arg.splits)

lemma clean_cache_stub: "clean_cache P (dtv_impl P) cmd s = Inr (4, s)"
  by (simp add: clean_cache_def)

text \<open>
  \<open>get_channels\<close> and \<open>get_programs\<close> return the error without giving the array back; the array has
  no elements, as the announced number is 0.
\<close>

lemma get_channels_stub:
  "\<exists>st s'. get_channels P (dtv_impl P) cmd s = Inr (st, s') \<and> st \<in> {4, ERROR_FAIL} \<and>
     (s' = s \<or> s' = snd (sys_malloc P (to_size P 0) ([] :: tv_channel list) s))"
proof (cases "\<exists>i t. read_pdu_at P cmd 0 [Fmt0, FmtC] = Some [Arg0 i, ArgC t]")
  case True
  then show ?thesis by (auto simp: get_channels_def Let_def to_size_def split: prod.splits)
next
  case False
  then show ?thesis
    by (auto simp: get_channels_def split: option.splits list.splits pdu_arg.splits)
qed

lemma get_programs_stub:
  "\<exists>st s'. get_programs P (dtv_impl P) cmd s = Inr (st, s') \<and> st \<in> {4, ERROR_FAIL} \<and>
     (s' = s \<or> s' = snd (sys_malloc P (to_size P 0) ([] :: tv_program list) s))"
proof (cases "\<exists>i t c b d. read_pdu_at P cmd 0 [Fmt0, FmtC, Fmt0, FmtL, FmtL] =
    Some [Arg0 i, ArgC t, Arg0 c, ArgL b, ArgL d]")
  case True
  then show ?thesis by (auto simp: get_programs_def Let_def to_size_def split: prod.splits)
next
  case False
  then show ?thesis
    by (auto simp: get_programs_def split: option.splits list.splits pdu_arg.splits)
qed

lemma sys_malloc_ok:
  assumes ok: "sys_ok P s" shows "sys_ok P (snd (sys_malloc P n x s))"
proof -
  obtain p s' where m: "sys_malloc P n x s = (p, s')" by (metis surj_pair)
  then obtain e where e: "malloc P n x (s_env s) = (p, e)" "s' = s\<lparr>s_env := e\<rparr>"
    by (auto simp: sys_malloc_def split: prod.splits)
  have conn: "conn_ok (s_io s, s_env s)" using ok by (simp add: sys_ok_def)
  then have "conn_ok (s_io s, e)"
    using e(1)
    by (auto simp: malloc_def fresh_def ext_call_def conn_ok_def queue_ok_def env_wf_def
        less_Suc_eq split: prod.splits if_splits)
  moreover have "live (s_env s) \<subseteq> live e"
    using e(1) by (auto simp: malloc_def fresh_def ext_call_def split: prod.splits if_splits)
  then have "held_ok s'" using ok e(2) by - (rule held_ok_same [of s' s], simp_all add: sys_ok_def)
  ultimately show ?thesis using ok m e services_ok_same [of s' s] by (simp add: sys_ok_def)
qed

lemma sys_malloc_out: "sys_out (snd (sys_malloc P n x s)) = sys_out s"
  by (metis surj_pair sys_malloc_output snd_conv)

lemma sys_malloc_io: "s_io (snd (sys_malloc P n x s)) = s_io s"
  by (simp add: sys_malloc_def split: prod.splits)

text \<open>
  Setting a channel is not supported, and the channel that was never filled in is released:
  a fault whenever the allocation has succeeded.
\<close>

lemma set_channel_stub:
  assumes "read_pdu_at P cmd 0 [Fmt0, FmtC, Fmt0] = Some [Arg0 i, ArgC t, Arg0 c]"
  shows "set_channel P (dtv_impl P) cmd s =
    (if fst (malloc_ok P (nat (sizeof_tv_channel P)) (world (s_env s))) then Inl Bad_free
     else Inr (4, snd (sys_malloc P (nat (sizeof_tv_channel P)) [uninit_channel P] s)))"
proof (cases "malloc_ok P (nat (sizeof_tv_channel P)) (world (s_env s))")
  case (Pair b w)
  then show ?thesis
    using assms
    by (simp add: set_channel_def sys_malloc_def malloc_def ext_call_def fresh_def on_env_def
        release_channels_def release_channel_fields_def free_field_def uninit_channel_def)
qed

text \<open>The commands of the DTV service that these functions reject without further ado.\<close>

definition rejected_opcode :: "u8 \<Rightarrow> bool" where
  "rejected_opcode v \<longleftrightarrow> v \<noteq> OPCODE_GET_TUNERS \<and> v \<noteq> OPCODE_SET_SOURCE \<and> v \<noteq> OPCODE_SET_CHANNEL"

lemma dtv_handler_rejects:
  assumes ok: "sys_ok P s" and v: "rejected_opcode (pdu_opcode cmd)"
  shows "\<exists>st s'. dtv_handler P (dtv_impl P) cmd s = Inr (st, s') \<and>
           st \<in> {4, ERROR_FAIL, ERROR_UNSUPPORTED} \<and> sys_ok P s' \<and> sys_out s' = sys_out s \<and>
           io_rbuf (s_io s') = io_rbuf (s_io s)"
proof (cases "dtv_table P (dtv_impl P) (pdu_opcode cmd) = None \<or>
    PDU_MAX_NUM_OPCODES P \<le> unat (pdu_opcode cmd)")
  case True
  then show ?thesis
    using ok by (auto simp: dtv_handler_def handle_pdu_by_opcode_def handle_pdu_def
        split: option.splits)
next
  case False
  then obtain h where h: "dtv_table P (dtv_impl P) (pdu_opcode cmd) = Some h" by auto
  with False have run: "dtv_handler P (dtv_impl P) cmd s = h cmd s"
    by (auto simp: dtv_handler_def handle_pdu_by_opcode_def handle_pdu_def)
  from h v have "h = start_scan P (dtv_impl P) \<or> h = stop_scan P (dtv_impl P) \<or>
      h = clean_cache P (dtv_impl P) \<or> h = get_channels P (dtv_impl P) \<or>
      h = get_programs P (dtv_impl P)"
    by (auto simp: dtv_table_def rejected_opcode_def split: if_splits)
  moreover note get_channels_stub [of P cmd s] get_programs_stub [of P cmd s]
  ultimately show ?thesis
    using run ok
    by (auto simp: start_scan_stub stop_scan_stub clean_cache_stub sys_malloc_ok sys_malloc_out
        sys_malloc_io)
qed

section \<open>Registering a service, and the answer to any PDU\<close>

lemma octet_not_256: "\<not> 256 \<le> unat (v :: u8)"
proof -
  have "unat v < 2 ^ LENGTH(8)" by (rule unsigned_less)
  then show ?thesis by simp
qed

lemma destroy_postable:
  assumes "postable w s" "sys_ok P s"
  shows "\<exists>s'. on_env (destroy_pdu_wbuf w) s = Inr s' \<and> sys_ok P s' \<and> sys_out s' = sys_out s \<and>
           services s' = services s \<and> io_rbuf (s_io s') = io_rbuf (s_io s)"
proof -
  let ?s = "s\<lparr>s_env := (s_env s)\<lparr>live := live (s_env s) - {wb_addr w}\<rparr>\<rparr>"
  have "wb_addr w \<in> live (s_env s)" using assms(1) by (simp add: postable_def sendable_def)
  then have run: "on_env (destroy_pdu_wbuf w) s = Inr ?s"
    by (simp add: on_env_def destroy_pdu_wbuf_def)
  have conn: "conn_ok (s_io s, s_env s)" and held: "held_ok s"
    using assms(2) by (simp_all add: sys_ok_def)
  have "conn_ok (s_io s, s_env ?s)"
    using assms(1) conn
    by (simp add: conn_ok_def postable_def sendable_def queue_ok_def env_wf_def
        subset_Diff_insert)
  moreover have "held ?s = held s" by (simp add: held_def)
  then have "held_ok ?s"
    using assms(1) held by (simp add: held_ok_def apart_def postable_def subset_Diff_insert)
  ultimately have "sys_ok P ?s"
    using assms(2) services_ok_same [of ?s s] by (simp add: sys_ok_def)
  with run show ?thesis using destroy_wbuf_output [OF run] by auto
qed

lemma register_module_total:
  assumes ok: "sys_ok P s" and codec: "pdu_codec P enc" and tabs: "PDU_MAX_NUM_SERVICES P = 256"
    and reg: "g_service_handler s SERVICE_REGISTRY \<noteq> None"
  shows "\<exists>st s'. register_module P (dtv_impl P) cmd s = Inr (st, s') \<and> sys_ok P s' \<and>
           io_rbuf (s_io s') = io_rbuf (s_io s) \<and>
           (if st = ERROR_NONE
            then read_pdu_at P cmd 0 [FmtC] = Some [ArgC SERVICE_DTV] \<and>
                 g_service_handler s SERVICE_DTV = None \<and>
                 g_service_handler s' = (g_service_handler s)(SERVICE_DTV := Some Dtv_handler) \<and>
                 sys_out s' = sys_out s @ [\<lparr>pdu_service = pdu_service cmd,
                   pdu_opcode = pdu_opcode cmd, pdu_data = enc (ArgI 1)\<rparr>]
            else sys_out s' = sys_out s)"
proof (cases "read_pdu_at P cmd 0 [FmtC] = Some [ArgC SERVICE_DTV] \<and> g_service_handler s SERVICE_DTV = None")
  case False
  then have "\<exists>st. register_module P (dtv_impl P) cmd s = Inr (st, s) \<and> st \<noteq> ERROR_NONE"
    using tabs
    by (auto simp: register_module_def g_register_service_def octet_not_256
        split: option.splits list.splits pdu_arg.splits)
  with ok show ?thesis by auto
next
  case True
  have range: "\<not> PDU_MAX_NUM_SERVICES P \<le> unat SERVICE_DTV" using tabs by (simp add: SERVICE_DTV_def)
  have conn: "conn_ok (s_io s, s_env s)" using ok by (simp add: sys_ok_def)
  obtain w s1 where c: "sys_create_wbuf P OPCODE_REGISTER_MODULE_RSP_SIZE 0 False s = (w, s1)"
    by (metis surj_pair)
  note c1 = conn_create_wbuf [OF c conn] sys_create_wbuf_ok [OF c ok]
  show ?thesis
  proof (cases w)
    case None
    with True range c c1 show ?thesis
      by (auto simp: register_module_def g_register_service_def)
  next
    case (Some b)
    obtain h s2 where r: "register_dtv P (dtv_impl P) (g_send_pdu s1) s1 = Inr (h, s2)"
      "conn_ok (s_io s2, s_env s2)" "hal_wf P (s_hal s2)" "s_io s2 = s_io s1"
      "world_only (s_env s1) (s_env s2)"
      using register_dtv_total [OF c1(8), of "g_send_pdu s1"] by blast
    note rs = register_dtv_services [OF r(1)]
    have tasks: "tasks s2 = tasks s1" by (rule rs(3))
    have b: "postable b s2" "wb_size b = 4"
      using postable_world [OF c1(9) [OF Some] r(4) tasks r(5)] c1(7) [OF Some]
      by (simp_all add: OPCODE_REGISTER_MODULE_RSP_SIZE_def)
    have "held_ok s1" using c1(8) by (simp add: sys_ok_def)
    then have held: "held_ok s2"
      using r(4,5) tasks by - (rule held_ok_same [of s2 s1], simp_all add: world_only_def)
    have out2: "sys_out s2 = sys_out s"
      using c1(5) r(4) world_only_conn(3) [OF r(5)] by (simp add: sys_out_def)
    have serv1: "g_service_handler s1 = g_service_handler s" "g_send_pdu s1 = g_send_pdu s"
      "dtv_send_pdu s1 = dtv_send_pdu s" "dtv_callbacks s1 = dtv_callbacks s"
      using c1(2) by (simp_all add: services_def)
    have sok: "services_ok s" using ok by (simp add: sys_ok_def)
    show ?thesis
    proof (cases h)
      case None
      then have "services_ok s2" using sok rs serv1 True by (auto simp: services_ok_def)
      then have "sys_ok P s2" using r held by (simp add: sys_ok_def)
      from destroy_postable [OF b(1) this] obtain s4 where
        "on_env (destroy_pdu_wbuf b) s2 = Inr s4" "sys_ok P s4" "sys_out s4 = sys_out s2"
        "io_rbuf (s_io s4) = io_rbuf (s_io s2)" by blast
      with c1(3) r(4) out2 None Some True range c r(1) show ?thesis
        by (intro exI [of _ ERROR_FAIL] exI [of _ s4])
          (simp add: register_module_def g_register_service_def)
    next
      case h: (Some hf)
      let ?s = "s2\<lparr>g_service_handler := (g_service_handler s2)(SERVICE_DTV := Some hf)\<rparr>"
      let ?b = "init_pdu (pdu_service cmd) (pdu_opcode cmd) b"
      have hf: "hf = Dtv_handler" using rs(4) h by simp
      have "services_ok ?s" using sok rs serv1 h reg by (auto simp: services_ok_def)
      moreover have "held_ok ?s" using held by - (rule held_ok_same [of ?s s2], simp_all)
      ultimately have ok3: "sys_ok P ?s" using r by (simp add: sys_ok_def)
      have "wbuf_used ?b + args_size [ArgI (of_nat PROTOCOL_VERSION)] \<le> wb_size ?b"
        using b(2) by simp
      from writesE [OF writes_append [OF codec] this] obtain okk pre where
        ap: "wbuf_append P [ArgI (of_nat PROTOCOL_VERSION)] ?b = Inr (okk, wbuf_extend enc pre ?b)"
        "okk \<longrightarrow> pre = [ArgI (of_nat PROTOCOL_VERSION)]" by blast
      let ?w = "wbuf_extend enc pre ?b"
      have "postable ?w s2" using b(1) by (rule postable_addr) simp
      then have w: "postable ?w ?s" by (simp add: postable_def held_def)
      show ?thesis
      proof (cases okk)
        case False
        from destroy_postable [OF w ok3] obtain s4 where
          "on_env (destroy_pdu_wbuf ?w) ?s = Inr s4" "sys_ok P s4" "sys_out s4 = sys_out ?s"
          "io_rbuf (s_io s4) = io_rbuf (s_io ?s)" by blast
        with c1(3) r(4) out2 False ap(1) h Some True range c r(1) show ?thesis
          by (intro exI [of _ ERROR_FAIL] exI [of _ s4])
            (simp add: register_module_def g_register_service_def Let_def)
      next
        case okk: True
        have "g_send_pdu ?s \<noteq> None" using sok reg rs serv1 by (auto simp: services_ok_def)
        then obtain s3 where s3: "call_send P (g_send_pdu ?s) ?w ?s = Inr s3" "sys_ok P s3"
          "services s3 = services ?s" "sys_out s3 = sys_out ?s @ [wb_pdu ?w]"
          "io_rbuf (s_io s3) = io_rbuf (s_io ?s)"
          using send_total [OF ok3 w] by blast
        have "register_module P (dtv_impl P) cmd s = Inr (ERROR_NONE, s3)"
          using okk ap(1) h Some True range c r(1) s3(1)
          by (simp add: register_module_def g_register_service_def Let_def registry_send_pdu_def)
        moreover have "sys_out s3 = sys_out s @ [\<lparr>pdu_service = pdu_service cmd,
            pdu_opcode = pdu_opcode cmd, pdu_data = enc (ArgI 1)\<rparr>]"
          using s3(4) out2 okk ap(2) by (simp add: wbuf_extend_def PROTOCOL_VERSION_def)
        moreover have "g_service_handler s3 = (g_service_handler s)(SERVICE_DTV := Some Dtv_handler)"
          using s3(3) rs serv1 hf by (simp add: services_def)
        ultimately show ?thesis using True s3(2,5) c1(3) r(4) by auto
      qed
    qed
  qed
qed

lemma unregister_module_total:
  assumes ok: "sys_ok P s" and tabs: "PDU_MAX_NUM_SERVICES P = 256"
    and reg: "g_service_handler s SERVICE_REGISTRY \<noteq> None"
  shows "\<exists>st s'. unregister_module P (dtv_impl P) cmd s = Inr (st, s') \<and> sys_ok P s' \<and>
           io_rbuf (s_io s') = io_rbuf (s_io s) \<and>
           (if st = ERROR_NONE
            then read_pdu_at P cmd 0 [FmtC] = Some [ArgC SERVICE_DTV] \<and>
                 g_service_handler s' = (g_service_handler s)(SERVICE_DTV := None) \<and>
                 dtv_send_pdu s' = None \<and>
                 sys_out s' = sys_out s @ [\<lparr>pdu_service = pdu_service cmd,
                   pdu_opcode = pdu_opcode cmd, pdu_data = []\<rparr>]
            else sys_out s' = sys_out s)"
proof -
  have conn: "conn_ok (s_io s, s_env s)" using ok by (simp add: sys_ok_def)
  obtain w s1 where c: "sys_create_wbuf P 0 0 False s = (w, s1)" by (metis surj_pair)
  note c1 = conn_create_wbuf [OF c conn] sys_create_wbuf_ok [OF c ok]
  consider "\<forall>v. read_pdu_at P cmd 0 [FmtC] \<noteq> Some [ArgC v]"
    | v where "read_pdu_at P cmd 0 [FmtC] = Some [ArgC v]" "w = None"
    | v b where "read_pdu_at P cmd 0 [FmtC] = Some [ArgC v]" "w = Some b" "v \<noteq> SERVICE_DTV"
    | b where "read_pdu_at P cmd 0 [FmtC] = Some [ArgC SERVICE_DTV]" "w = Some b"
    by (cases w) auto
  then show ?thesis
  proof cases
    case 1
    then have "unregister_module P (dtv_impl P) cmd s = Inr (ERROR_PARM_INVALID, s)"
      by (auto simp: unregister_module_def split: option.splits list.splits pdu_arg.splits)
    with ok show ?thesis by auto
  next
    case 2
    with c c1 show ?thesis by (auto simp: unregister_module_def)
  next
    case 3
    from destroy_postable [OF c1(9) [OF 3(2)] c1(8)] obtain s2 where
      "on_env (destroy_pdu_wbuf b) s1 = Inr s2" "sys_ok P s2" "sys_out s2 = sys_out s1"
      "io_rbuf (s_io s2) = io_rbuf (s_io s1)" by blast
    with 3 c c1(3,5) tabs octet_not_256 [of v] show ?thesis
      by (intro exI [of _ ERROR_FAIL] exI [of _ s2])
        (simp add: unregister_module_def g_unregister_service_def)
  next
    case 4
    let ?e = "close_all P (active_streams (s_hal s1)) (s_env s1)"
    let ?s = "s1\<lparr>s_env := ?e, dtv_send_pdu := None,
                 g_service_handler := (g_service_handler s1)(SERVICE_DTV := None)\<rparr>"
    let ?b = "init_pdu (pdu_service cmd) (pdu_opcode cmd) b"
    have w: "world_only (s_env s1) ?e" by (rule close_all_world)
    have serv: "services_ok ?s" using c1(8) by (auto simp: sys_ok_def services_ok_def)
    have "held_ok s1" using c1(8) by (simp add: sys_ok_def)
    then have "held_ok ?s" using w by - (rule held_ok_same [of ?s s1], simp_all add: world_only_def)
    with serv have ok2: "sys_ok P ?s" using c1(8) world_only_conn(1) [OF w] by (simp add: sys_ok_def)
    have "postable ?b s1" using c1(9) [OF 4(2)] by (rule postable_addr) simp
    then have b: "postable ?b ?s" using w by (intro postable_world [of ?b s1 ?s]) simp_all
    have "g_send_pdu ?s \<noteq> None"
      using c1(2,8) reg by (auto simp: sys_ok_def services_ok_def services_def)
    then obtain s3 where s3: "call_send P (g_send_pdu ?s) ?b ?s = Inr s3" "sys_ok P s3"
      "services s3 = services ?s" "sys_out s3 = sys_out ?s @ [wb_pdu ?b]"
      "io_rbuf (s_io s3) = io_rbuf (s_io ?s)"
      using send_total [OF ok2 b] by blast
    have "unregister_module P (dtv_impl P) cmd s = Inr (ERROR_NONE, s3)"
      using 4 c tabs s3(1) unregister_dtv_total [OF c1(8)]
      by (simp add: unregister_module_def g_unregister_service_def Let_def registry_send_pdu_def
          SERVICE_DTV_def SERVICE_REGISTRY_def ERROR_NONE_def)
    moreover have "sys_out ?s = sys_out s"
      using c1(3,5) world_only_conn(3) [OF w] by (simp add: sys_out_def)
    moreover have "g_service_handler s1 = g_service_handler s"
      using c1(2) by (simp add: services_def)
    ultimately show ?thesis using s3 4 c1(3) by (auto simp: services_def)
  qed
qed

text \<open>The error PDU either goes out or the daemon aborts.\<close>

lemma send_error_reply_total:
  assumes ok: "sys_ok P s" and codec: "pdu_codec P enc"
  shows "send_error_reply P sv err s = Inl Abort_call \<or>
         (\<exists>s' data. send_error_reply P sv err s = Inr s' \<and> sys_ok P s' \<and>
            io_rbuf (s_io s') = io_rbuf (s_io s) \<and>
            sys_out s' = sys_out s @ [\<lparr>pdu_service = sv, pdu_opcode = OPCODE_ERROR, pdu_data = data\<rparr>] \<and>
            (append_total P \<and> 1 \<le> PDU_MAX_DATA_LENGTH P \<longrightarrow> data = enc (ArgC err)))"
proof -
  have conn: "conn_ok (s_io s, s_env s)" using ok by (simp add: sys_ok_def)
  obtain w s1 where c: "sys_create_wbuf P OPCODE_ERROR_RSP_SIZE 0 False s = (w, s1)"
    by (metis surj_pair)
  note c1 = conn_create_wbuf [OF c conn] sys_create_wbuf_ok [OF c ok]
  show ?thesis
  proof (cases w)
    case None
    with c show ?thesis by (simp add: send_error_reply_def)
  next
    case (Some b)
    let ?b = "init_pdu sv OPCODE_ERROR b"
    have b: "postable b s1" "wb_size b = 1"
      using c1(7,9) [OF Some] by (simp_all add: OPCODE_ERROR_RSP_SIZE_def)
    have "wbuf_used ?b + args_size [ArgC err] \<le> wb_size ?b" using b(2) by simp
    from writesE [OF writes_append [OF codec] this] obtain okk pre where
      ap: "wbuf_append P [ArgC err] ?b = Inr (okk, wbuf_extend enc pre ?b)"
      "okk \<longrightarrow> pre = [ArgC err]"
      "append_total P \<Longrightarrow> wbuf_used ?b + args_size [ArgC err] \<le> PDU_MAX_DATA_LENGTH P \<Longrightarrow> okk"
      by blast
    let ?w = "wbuf_extend enc pre ?b"
    have w: "postable ?w s1" using b(1) by (rule postable_addr) simp
    obtain s2 where s2: "call_send P (Some Io_send_pdu) ?w s1 = Inr s2" "sys_ok P s2"
      "sys_out s2 = sys_out s1 @ [wb_pdu ?w]" "io_rbuf (s_io s2) = io_rbuf (s_io s1)"
      using send_total [OF c1(8) w, of "Some Io_send_pdu"] by auto
    then obtain r io' e' where r: "io_state_send P ?w (s_io s1) (s_env s1) = Inr (r, io', e')"
      "s2 = s1\<lparr>s_io := io', s_env := e'\<rparr>"
      by (auto simp: call_send_def io_send_pdu_def andThen_Inr_iff)
    show ?thesis
    proof (cases "r < 0")
      case True
      with Some c ap(1) r(1) show ?thesis by (simp add: send_error_reply_def)
    next
      case False
      have "send_error_reply P sv err s = Inr s2"
        using False Some c ap(1) r by (simp add: send_error_reply_def)
      moreover have "sys_out s2 = sys_out s @
          [\<lparr>pdu_service = sv, pdu_opcode = OPCODE_ERROR, pdu_data = encodes enc pre\<rparr>]"
        using s2(3) c1(5) by (simp add: wbuf_extend_def)
      moreover have "append_total P \<and> 1 \<le> PDU_MAX_DATA_LENGTH P \<longrightarrow> encodes enc pre = enc (ArgC err)"
        using ap(2,3) by auto
      ultimately show ?thesis using s2(2,4) c1(3) by metis
    qed
  qed
qed

text \<open>
  The PDUs that are handled without a fault, whatever the device table: all but three commands
  of the DTV service.
\<close>

definition benign :: "'w sys \<Rightarrow> pdu \<Rightarrow> bool" where
  "benign s cmd \<longleftrightarrow>
     (g_service_handler s (pdu_service cmd) = Some Dtv_handler \<longrightarrow> rejected_opcode (pdu_opcode cmd))"

lemma service_command_total:
  assumes ok: "sys_ok P s" and codec: "pdu_codec P enc" and tabs: "PDU_MAX_NUM_SERVICES P = 256"
    and cmd: "benign s cmd"
  shows "\<exists>st s'. handle_pdu_by_service P cmd (service_table P (dtv_impl P) (g_service_handler s)) s =
             Inr (st, s') \<and> sys_ok P s' \<and> io_rbuf (s_io s') = io_rbuf (s_io s) \<and>
             (st \<noteq> ERROR_NONE \<longrightarrow> sys_out s' = sys_out s)"
proof (cases "g_service_handler s (pdu_service cmd)")
  case None
  with ok show ?thesis
    by (simp add: handle_pdu_by_service_def handle_pdu_def service_table_def)
next
  case (Some f)
  then have run: "handle_pdu_by_service P cmd (service_table P (dtv_impl P) (g_service_handler s)) s =
      call_handler P (dtv_impl P) f cmd s"
    using tabs octet_not_256 by (simp add: handle_pdu_by_service_def handle_pdu_def service_table_def)
  show ?thesis
  proof (cases f)
    case Dtv_handler
    with Some cmd have "rejected_opcode (pdu_opcode cmd)" by (simp add: benign_def)
    from dtv_handler_rejects [OF ok this] run Dtv_handler show ?thesis by auto
  next
    case Registry_handler
    have "services_ok s" using ok by (simp add: sys_ok_def)
    with Some Registry_handler have "pdu_service cmd = SERVICE_REGISTRY"
      by (fastforce simp: services_ok_def)
    with Some have reg: "g_service_handler s SERVICE_REGISTRY \<noteq> None" by simp
    note t = register_module_total [OF ok codec tabs reg, of cmd]
      unregister_module_total [OF ok tabs reg, of cmd]
    show ?thesis
    proof (cases "PDU_MAX_NUM_OPCODES P \<le> unat (pdu_opcode cmd)")
      case True
      with run Registry_handler ok show ?thesis
        by (simp add: registry_handler_def handle_pdu_by_opcode_def handle_pdu_def)
    next
      case False
      then have "registry_handler P (dtv_impl P) cmd s =
          (if pdu_opcode cmd = OPCODE_REGISTER_MODULE then register_module P (dtv_impl P) cmd s
           else if pdu_opcode cmd = OPCODE_UNREGISTER_MODULE then unregister_module P (dtv_impl P) cmd s
           else Inr (ERROR_UNSUPPORTED, s))"
        by (simp add: registry_handler_def handle_pdu_by_opcode_def handle_pdu_def
            registry_table_def OPCODE_REGISTER_MODULE_def OPCODE_UNREGISTER_MODULE_def)
      with run Registry_handler t ok show ?thesis by (auto split: if_splits)
    qed
  qed
qed

lemma io_handle_pdu_total:
  assumes ok: "sys_ok P s" and codec: "pdu_codec P enc" and tabs: "PDU_MAX_NUM_SERVICES P = 256"
    and cmd: "benign s cmd"
  shows "io_handle_pdu P (dtv_impl P) cmd s = Inl Abort_call \<or>
         (\<exists>s'. io_handle_pdu P (dtv_impl P) cmd s = Inr (0, s') \<and> sys_ok P s' \<and>
            io_rbuf (s_io s') = io_rbuf (s_io s))"
proof -
  obtain st s1 where 1: "handle_pdu_by_service P cmd
        (service_table P (dtv_impl P) (g_service_handler s)) s = Inr (st, s1)" "sys_ok P s1"
    "io_rbuf (s_io s1) = io_rbuf (s_io s)"
    using service_command_total [OF assms] by blast
  show ?thesis
    using 1 send_error_reply_total [OF 1(2) codec, of "pdu_service cmd" "word_of_int st"]
    by (cases "st = 0") (auto simp: io_handle_pdu_def)
qed

section \<open>Properties\<close>

lemma sample_sys_ok [simp]: "sys_ok sample_platform sample_sys" "sys_ok sample_platform dtv_sys"
proof -
  have "epoll_funcs sample_io \<noteq> Wild" by (simp add: sample_io_def)
  then show "sys_ok sample_platform sample_sys" "sys_ok sample_platform dtv_sys"
    by (simp_all add: sys_ok_def services_ok_def service_id_defs held_ok_def held_def apart_def)
qed

lemma sys_refresh [simp]:
  "dtv_sys\<lparr>s_hal := sample_hal, s_env := conn_env\<rparr> = dtv_sys" "dtv_sys\<lparr>s_env := conn_env\<rparr> = dtv_sys"
  by (simp_all add: dtv_sys_def sample_sys_def)

definition list_cmd :: "u8 \<Rightarrow> pdu" where
  "list_cmd opc = \<lparr>pdu_service = SERVICE_DTV, pdu_opcode = opc,
     pdu_data = [byte_of CHR ''7'', 0, 1]\<rparr>"

definition register_cmd :: pdu where
  "register_cmd = \<lparr>pdu_service = SERVICE_REGISTRY, pdu_opcode = OPCODE_REGISTER_MODULE, pdu_data = [1]\<rparr>"

lemma list_cmd_args: "read_pdu_at sample_platform (list_cmd opc) 0 [Fmt0, FmtC] = Some [Arg0 ''7'', ArgC 1]"
  by (simp add: list_cmd_def)

lemma sample_cmds [simp]:
  "pdu_service (list_cmd opc) = SERVICE_DTV" "pdu_opcode (list_cmd opc) = opc"
  "sample_dec [FmtC] (pdu_data register_cmd) = Some [ArgC 1]"
  "pdu_service register_cmd = SERVICE_REGISTRY" "pdu_opcode register_cmd = OPCODE_REGISTER_MODULE"
  by (simp_all add: list_cmd_def register_cmd_def)

text \<open>
  C9: From a well-formed state, handling any command but the three whose defects are shown
  separately (get tuners, set source and set channel of a registered DTV service) either
  ends in the deliberate abort of a failing error reply, or returns 0 in a well-formed state; it
  never touches memory it may not touch.
\<close>

theorem commands_never_fault:
  assumes "sys_ok P s" and "pdu_codec P enc" and "PDU_MAX_NUM_SERVICES P = 256" and "benign s cmd"
  shows "io_handle_pdu P (dtv_impl P) cmd s = Inl Abort_call \<or>
         (\<exists>s'. io_handle_pdu P (dtv_impl P) cmd s = Inr (0, s') \<and> sys_ok P s' \<and>
            io_rbuf (s_io s') = io_rbuf (s_io s))"
  using assms by (rule io_handle_pdu_total)

theorem commands_never_fault_witness:
  "\<exists>s'. io_handle_pdu sample_platform (dtv_impl sample_platform) register_cmd sample_sys = Inr (0, s') \<and>
     sys_ok sample_platform s'"
proof -
  have "\<exists>s'. io_handle_pdu sample_platform (dtv_impl sample_platform) register_cmd sample_sys = Inr (0, s')"
    by (simp add: io_handle_pdu_def handle_pdu_by_service_def handle_pdu_def service_table_def registry_handler_def
        handle_pdu_by_opcode_def registry_table_def error_code_defs OPCODE_REGISTER_MODULE_def
        OPCODE_UNREGISTER_MODULE_def register_cmd_def register_module_def g_register_service_def register_dtv_def
        hal_init_sys_def call_drv_def tv_input_hal_init_def dtv_impl_def dtv_init_def registry_send_pdu_def
        call_send_def io_send_pdu_def sys_create_wbuf_def create_pdu_wbuf_def fresh_def io_state_send_def
        wbuf_append_def sample_append_def init_pdu_def io_state_send_pending_wbufs_def destroy_pdu_wbuf_def on_env_def
        service_id_defs OPCODE_REGISTER_MODULE_RSP_SIZE_def TV_STATUS_SUCCESS_def Let_def hal_wf_def)
  with commands_never_fault [OF sample_sys_ok(1) sample_codec, of register_cmd]
  show ?thesis by (auto simp: benign_def)
qed

text \<open>
  C14: Registering a module from a well-formed state never faults and keeps the state well-formed. It
  succeeds only for the DTV service and only when that is not registered, and then the service's
  handler is installed and the response carries the protocol version; on an error nothing is sent.
\<close>

theorem register_module_outcome:
  assumes "sys_ok P s" and "pdu_codec P enc" and "PDU_MAX_NUM_SERVICES P = 256"
    and "g_service_handler s SERVICE_REGISTRY \<noteq> None"
  shows "\<exists>st s'. register_module P (dtv_impl P) cmd s = Inr (st, s') \<and> sys_ok P s' \<and>
           io_rbuf (s_io s') = io_rbuf (s_io s) \<and>
           (if st = ERROR_NONE
            then read_pdu_at P cmd 0 [FmtC] = Some [ArgC SERVICE_DTV] \<and>
                 g_service_handler s SERVICE_DTV = None \<and>
                 g_service_handler s' = (g_service_handler s)(SERVICE_DTV := Some Dtv_handler) \<and>
                 sys_out s' = sys_out s @ [\<lparr>pdu_service = pdu_service cmd,
                   pdu_opcode = pdu_opcode cmd, pdu_data = enc (ArgI 1)\<rparr>]
            else sys_out s' = sys_out s)"
  using assms by (rule register_module_total)

theorem register_module_outcome_witness:
  "(\<exists>st s'. register_module sample_platform (dtv_impl sample_platform) register_cmd dtv_sys = Inr (st, s') \<and>
      st \<noteq> ERROR_NONE \<and> sys_out s' = sys_out dtv_sys) \<and>
   (\<exists>s'. register_module sample_platform (dtv_impl sample_platform) register_cmd sample_sys =
        Inr (ERROR_NONE, s') \<and> g_service_handler s' SERVICE_DTV = Some Dtv_handler)"
proof -
  have "\<exists>s'. register_module sample_platform (dtv_impl sample_platform) register_cmd sample_sys =
      Inr (ERROR_NONE, s')"
    by (simp add: register_cmd_def register_module_def g_register_service_def register_dtv_def hal_init_sys_def
        call_drv_def tv_input_hal_init_def dtv_impl_def dtv_init_def registry_send_pdu_def call_send_def
        io_send_pdu_def sys_create_wbuf_def create_pdu_wbuf_def fresh_def io_state_send_def wbuf_append_def
        sample_append_def init_pdu_def io_state_send_pending_wbufs_def destroy_pdu_wbuf_def on_env_def
        service_id_defs OPCODE_REGISTER_MODULE_RSP_SIZE_def TV_STATUS_SUCCESS_def Let_def ERROR_NONE_def
        hal_wf_def)
  with register_module_outcome [OF sample_sys_ok(1) sample_codec, of register_cmd]
    register_module_outcome [OF sample_sys_ok(2) sample_codec, of register_cmd]
  show ?thesis by (auto split: if_splits)
qed

lemma close_all_unit: "close_all P calls (e :: unit env) = e"
  by (induction calls) (simp_all add: close_all_def case_prod_beta)

text \<open>
  C15: Unregistering a module from a well-formed state never faults and keeps the state well-formed. It
  succeeds only for the DTV service, and then the service's handler and its send function are
  gone and the response is empty; on an error nothing is sent.
\<close>

theorem unregister_module_outcome:
  assumes "sys_ok P s" and "PDU_MAX_NUM_SERVICES P = 256"
    and "g_service_handler s SERVICE_REGISTRY \<noteq> None"
  shows "\<exists>st s'. unregister_module P (dtv_impl P) cmd s = Inr (st, s') \<and> sys_ok P s' \<and>
           io_rbuf (s_io s') = io_rbuf (s_io s) \<and>
           (if st = ERROR_NONE
            then read_pdu_at P cmd 0 [FmtC] = Some [ArgC SERVICE_DTV] \<and>
                 g_service_handler s' = (g_service_handler s)(SERVICE_DTV := None) \<and>
                 dtv_send_pdu s' = None \<and>
                 sys_out s' = sys_out s @ [\<lparr>pdu_service = pdu_service cmd,
                   pdu_opcode = pdu_opcode cmd, pdu_data = []\<rparr>]
            else sys_out s' = sys_out s)"
  using assms by (rule unregister_module_total)

theorem unregister_module_outcome_witness:
  "\<exists>s' p. unregister_module sample_platform (dtv_impl sample_platform) register_cmd dtv_sys =
       Inr (ERROR_NONE, s') \<and> g_service_handler s' SERVICE_DTV = None \<and> sys_out s' = sys_out dtv_sys @ [p]"
proof -
  have "g_service_handler dtv_sys SERVICE_REGISTRY \<noteq> None" by simp
  note out = unregister_module_outcome [OF sample_sys_ok(2) _ this, of register_cmd]
  have "\<exists>s'. unregister_module sample_platform (dtv_impl sample_platform) register_cmd dtv_sys =
      Inr (ERROR_NONE, s')"
    by (simp add: unregister_module_def g_unregister_service_def unregister_dtv_def hal_uninit_sys_def
        tv_input_hal_uninit_eq close_all_unit dtv_uninit_def register_cmd_def register_module_def g_register_service_def register_dtv_def hal_init_sys_def
        call_drv_def tv_input_hal_init_def dtv_impl_def dtv_init_def registry_send_pdu_def call_send_def
        io_send_pdu_def sys_create_wbuf_def create_pdu_wbuf_def fresh_def io_state_send_def wbuf_append_def
        sample_append_def init_pdu_def io_state_send_pending_wbufs_def destroy_pdu_wbuf_def on_env_def
        service_id_defs OPCODE_REGISTER_MODULE_RSP_SIZE_def TV_STATUS_SUCCESS_def Let_def ERROR_NONE_def)
  with out show ?thesis by (auto split: if_splits)
qed

text \<open>
  C25: When the vendor functions hand over at least one channel, the get-channels command does not get
  past appending the first one: the call of \<open>append_to_pdu\<close> has too few arguments for its format.
\<close>

theorem get_channels_mismatch:
  assumes "pdu_codec P enc" "append_total P" "4 \<le> PDU_MAX_DATA_LENGTH P"
    and "read_pdu_at P cmd 0 [Fmt0, FmtC] = Some [Arg0 i, ArgC t]"
    and "call_drv (api_get_channel_num A i t) s = Inr (num, s1)"
    and "sys_malloc P (to_size P (sizeof_tv_channel P * uint num))
        (replicate (to_size P (sizeof_tv_channel P * uint num) div nat (sizeof_tv_channel P))
           (uninit_channel P)) s1 = (p, s2)"
    and "call_drv2 (api_get_channels A i t num p) s2 = Inr (TV_STATUS_SUCCESS, Ptr a cs, s3)"
    and "a \<in> live (s_env s3)" "list_all (readable_channel (live (s_env s3))) cs"
      "unat num = length cs" "cs \<noteq> []"
    and "4 + sum_list (map channel_bytes cs) < 4294967296"
    and "sys_create_wbuf P (4 + sum_list (map channel_bytes cs)) 0 False s3 = (Some w, s4)"
    and "conn_ok (s_io s3, s_env s3)"
  shows "get_channels P A cmd s = Inl Bad_vararg"
  using assms by (rule get_channels_stuck)

definition vendor_sys :: "nat set \<Rightarrow> unit sys" where
  "vendor_sys addrs =
     dtv_sys\<lparr>s_env := conn_env\<lparr>live := insert 20 {1, 2, 4, 5, 6} \<union> addrs, next_addr := 21\<rparr>\<rparr>"

lemma vendor_sys_fields [simp]:
  "live (s_env (vendor_sys addrs)) = insert 20 {1, 2, 4, 5, 6} \<union> addrs"
  "next_addr (s_env (vendor_sys addrs)) = 21" "sent (s_env (vendor_sys addrs)) = []"
  "s_io (vendor_sys addrs) = sample_io" "dtv_send_pdu (vendor_sys addrs) = Some Io_send_pdu"
  by (simp_all add: vendor_sys_def)

lemma vendor_sys_out [simp]: "sys_out (vendor_sys addrs) = [wb_pdu (plain_wbuf 4 7)]"
  by (simp add: sys_out_def output_stream_def)

lemma vendor_sys_answers: "addrs \<subseteq> {10..14} \<Longrightarrow> can_answer (vendor_sys addrs)"
  by (auto simp: can_answer_def conn_ok_def env_wf_def queue_ok_def)

lemma vendor_sys_wbuf: "\<exists>w s. sys_create_wbuf sample_platform n 0 False (vendor_sys addrs) = (Some w, s)"
  by (simp add: sys_create_wbuf_def create_pdu_wbuf_def fresh_def)

lemma vendor_malloc: "sys_malloc sample_platform n x dtv_sys = (Ptr 20 x, vendor_sys {})"
  by (simp add: sys_malloc_def malloc_def fresh_def vendor_sys_def)

lemma vendor_fill:
  "call_drv2 (fill x addrs (Ptr 20 p)) (vendor_sys {}) = Inr (TV_STATUS_SUCCESS, Ptr 20 [x], vendor_sys addrs)"
  by (simp add: call_drv2_def fill_def vendor_sys_def dtv_sys_def sample_sys_def)

lemma vendor_channel_facts:
  "sound_channel vendor_channel" "readable_channel (live (s_env (vendor_sys {10..14}))) vendor_channel"
  "owned_channel vendor_channel = [10, 11, 12, 13, 14]" "channel_bytes vendor_channel = 16"
  by (simp_all add: sound_channel_def readable_channel_def owned_channel_def channel_bytes_def
      cstr_def cstring_def vendor_channel_def)

theorem get_channels_mismatch_witness:
  "get_channels sample_platform sample_vendor (list_cmd OPCODE_GET_CHANNEL) dtv_sys = Inl Bad_vararg"
proof -
  obtain w s4 where w: "sys_create_wbuf sample_platform 20 0 False (vendor_sys {10..14}) = (Some w, s4)"
    using vendor_sys_wbuf by blast
  have "conn_ok (s_io (vendor_sys {10..14}), s_env (vendor_sys {10..14}))"
    using vendor_sys_answers [of "{10..14}"] by (simp add: can_answer_def)
  from get_channels_mismatch [OF sample_codec sample_append_total _ list_cmd_args _ vendor_malloc _ _ _ _
      _ _ _ this, where A = sample_vendor and s = dtv_sys and num = 1 and w = w and ?s4.0 = s4
      and a = 20 and cs = "[vendor_channel]"] w
  show ?thesis
    using vendor_channel_facts
    by (simp add: call_drv_def vendor_fill to_size_def sizeof_tv_channel_def)
qed

text \<open>
  C19: When the vendor functions hand over initialised tuners, the get-tuners command sends their
  number, ids and source types in one response and then releases everything they handed over.
\<close>

theorem get_tuners_responds:
  assumes "pdu_codec P enc" "append_total P" "PDU_MAX_DATA_LENGTH P < 4294967296"
    and "call_drv (api_get_tuner_num A) s = Inr (num, s1)"
    and "sys_malloc P (to_size P (sizeof_tv_tuner P * uint num))
        (replicate (to_size P (sizeof_tv_tuner P * uint num) div nat (sizeof_tv_tuner P))
           (uninit_tuner P)) s1 = (p, s2)"
    and "call_drv2 (api_get_tuners A num p) s2 = Inr (TV_STATUS_SUCCESS, Ptr a ts, s3)"
    and "can_answer s3" "handed owned_tuner sound_tuner readable_tuner a ts s3"
    and "unat num = length ts"
    and "4 + sum_list (map (\<lambda>t. args_size (tuner_args t)) ts) \<le> PDU_MAX_DATA_LENGTH P"
    and "sys_create_wbuf P (4 + sum_list (map (\<lambda>t. args_size (tuner_args t)) ts)) 0 False s3 =
        (Some w, s4)"
  shows "\<exists>s'. get_tuners P A cmd s = Inr (ERROR_NONE, s') \<and>
           sys_out s' = sys_out s3 @ [\<lparr>pdu_service = pdu_service cmd, pdu_opcode = pdu_opcode cmd,
              pdu_data = encodes enc (ArgI num # concat (map tuner_args ts))\<rparr>] \<and>
           can_answer s' \<and> live (s_env s') \<inter> set (a # concat (map owned_tuner ts)) = {}"
  using assms by (rule get_tuners_sends)

lemma vendor_tuner_facts:
  "sound_tuner vendor_tuner" "readable_tuner (live (s_env (vendor_sys {10, 11}))) vendor_tuner"
  "owned_tuner vendor_tuner = [10, 11]" "args_size (tuner_args vendor_tuner) = 7"
  by (simp_all add: sound_tuner_def readable_tuner_def owned_tuner_def tuner_args_def tuner_types_def
      cstr_def cstring_def vendor_tuner_def)

theorem get_tuners_responds_witness:
  "\<exists>s'. get_tuners sample_platform sample_vendor (list_cmd OPCODE_GET_TUNERS) dtv_sys =
       Inr (ERROR_NONE, s') \<and> length (sys_out s') = 2"
proof -
  obtain w s4 where w: "sys_create_wbuf sample_platform 11 0 False (vendor_sys {10, 11}) = (Some w, s4)"
    using vendor_sys_wbuf by blast
  have "handed owned_tuner sound_tuner readable_tuner 20 [vendor_tuner] (vendor_sys {10, 11})"
    using vendor_tuner_facts by (simp add: handed_def apart_def)
  from get_tuners_responds [OF sample_codec sample_append_total _ _ vendor_malloc _
      vendor_sys_answers this, where A = sample_vendor and s = dtv_sys and num = 1 and w = w
      and ?s4.0 = s4 and cmd = "list_cmd OPCODE_GET_TUNERS"] w
  obtain s' where "get_tuners sample_platform sample_vendor (list_cmd OPCODE_GET_TUNERS) dtv_sys =
       Inr (ERROR_NONE, s')"
    "sys_out s' = sys_out (vendor_sys {10, 11}) @ [\<lparr>pdu_service = SERVICE_DTV,
       pdu_opcode = OPCODE_GET_TUNERS,
       pdu_data = encodes sample_enc (ArgI 1 # concat (map tuner_args [vendor_tuner]))\<rparr>]"
    by (auto simp: call_drv_def vendor_tuner_facts vendor_fill to_size_def sizeof_tv_tuner_def)
  then show ?thesis by simp
qed

text \<open>
  C39: With dtv.c, which does not support setting a channel, the handler releases a channel structure
  whose pointers were never assigned, unless the allocation of that structure fails.
\<close>

theorem set_channel_releases_garbage:
  assumes "read_pdu_at P cmd 0 [Fmt0, FmtC, Fmt0] = Some [Arg0 i, ArgC t, Arg0 c]"
  shows "set_channel P (dtv_impl P) cmd s =
    (if fst (malloc_ok P (nat (sizeof_tv_channel P)) (world (s_env s))) then Inl Bad_free
     else Inr (4, snd (sys_malloc P (nat (sizeof_tv_channel P)) [uninit_channel P] s)))"
  using assms by (rule set_channel_stub)

theorem set_channel_releases_garbage_witness:
  "set_channel sample_platform (dtv_impl sample_platform)
     \<lparr>pdu_service = SERVICE_DTV, pdu_opcode = OPCODE_SET_CHANNEL,
      pdu_data = [byte_of CHR ''7'', 0, 1, byte_of CHR ''3'', 0]\<rparr> dtv_sys = Inl Bad_free"
  using set_channel_releases_garbage [of sample_platform
      "\<lparr>pdu_service = SERVICE_DTV, pdu_opcode = OPCODE_SET_CHANNEL,
        pdu_data = [byte_of CHR ''7'', 0, 1, byte_of CHR ''3'', 0]\<rparr>" "''7''" 1 "''3''" dtv_sys]
  by simp

text \<open>
  C20: When the vendor functions hand over initialised programs, the get-programs command works for a
  single one: the fields \<open>append_program\<close> writes, all but the title, are sent in one response and everything
  handed over is released. With several, the command reads the array after it was freed.
\<close>

theorem get_programs_responds:
  assumes "pdu_codec P enc" "append_total P" "PDU_MAX_DATA_LENGTH P < 4294967296"
    and "read_pdu_at P cmd 0 [Fmt0, FmtC, Fmt0, FmtL, FmtL] =
        Some [Arg0 i, ArgC t, Arg0 c, ArgL t1, ArgL t2]"
    and "call_drv (api_get_prog_num A i t c t1 t2) s = Inr (num, s1)"
    and "sys_malloc P (to_size P (sizeof_tv_program P * uint num))
        (replicate (to_size P (sizeof_tv_program P * uint num) div nat (sizeof_tv_program P))
           (uninit_program P)) s1 = (p, s2)"
    and "call_drv2 (api_get_programs A i t c t1 t2 num p) s2 = Inr (TV_STATUS_SUCCESS, Ptr a ps, s3)"
    and "can_answer s3" "handed owned_program sound_program readable_program a ps s3"
    and "unat num = length ps" "ps \<noteq> []"
    and "4 + sum_list (map program_bytes ps) \<le> PDU_MAX_DATA_LENGTH P"
    and "sys_create_wbuf P (4 + sum_list (map program_bytes ps)) 0 False s3 = (Some w, s4)"
  shows "if num = 1
         then \<exists>s'. get_programs P A cmd s = Inr (ERROR_NONE, s') \<and>
                sys_out s' = sys_out s3 @ [\<lparr>pdu_service = pdu_service cmd, pdu_opcode = pdu_opcode cmd,
                  pdu_data = encodes enc (ArgI 1 # program_args (hd ps))\<rparr>] \<and>
                can_answer s' \<and> live (s_env s') \<inter> set (a # owned_program (hd ps)) = {}
         else get_programs P A cmd s = Inl Use_after_free"
  using assms by (rule get_programs_sends)

definition programs_cmd :: pdu where
  "programs_cmd = \<lparr>pdu_service = SERVICE_DTV, pdu_opcode = OPCODE_GET_PROGRAM,
     pdu_data = encodes sample_enc [Arg0 ''7'', ArgC 1, Arg0 ''12'', ArgL 0, ArgL 9]\<rparr>"

lemma programs_cmd_args: "read_pdu_at sample_platform programs_cmd 0 [Fmt0, FmtC, Fmt0, FmtL, FmtL] =
    Some [Arg0 ''7'', ArgC 1, Arg0 ''12'', ArgL 0, ArgL 9]"
  using codec_read [OF sample_codec, of "[Arg0 ''7'', ArgC 1, Arg0 ''12'', ArgL 0, ArgL 9]"
      programs_cmd "[]" "[]"]
  by (simp add: programs_cmd_def del: sample_platform_fields)

definition vendor_program :: "nat \<Rightarrow> tv_program" where
  "vendor_program b = \<lparr>evt_id = Ptr b ''e'', title = Ptr (b + 1) ''t'', start_time = 0, duration = 60,
     descpt = Ptr (b + 2) ''d'', rating = Ptr (b + 3) [], lang_num = 0, langs = Null,
     stl_lang_num = 0, stl_langs = Null\<rparr>"

definition program_vendor :: "unit drv dtv_api" where
  "program_vendor = sample_vendor\<lparr>api_get_prog_num := \<lambda>_ _ _ _ _ d. Inr (2, d),
     api_get_programs := \<lambda>_ _ _ _ _ _ p (h, e). Inr (TV_STATUS_SUCCESS,
       Ptr (ptr_addr p) [vendor_program 10, vendor_program 14], (h, e\<lparr>live := live e \<union> {10..17}\<rparr>))\<rparr>"

theorem get_programs_responds_witness:
  "get_programs sample_platform program_vendor programs_cmd dtv_sys = Inl Use_after_free"
proof -
  let ?ps = "[vendor_program 10, vendor_program 14]"
  obtain w s4 where w: "sys_create_wbuf sample_platform 66 0 False (vendor_sys {10..17}) = (Some w, s4)"
    using vendor_sys_wbuf by blast
  have h: "handed owned_program sound_program readable_program 20 ?ps (vendor_sys {10..17})"
    by (simp add: handed_def apart_def owned_program_def owned_langs_def sound_program_def
        sound_langs_def readable_program_def readable_langs_def cstring_def vendor_program_def)
  have c: "can_answer (vendor_sys {10..17})"
    by (simp add: can_answer_def conn_ok_def env_wf_def queue_ok_def)
  have b: "program_bytes (vendor_program k) = 31" for k
    by (simp add: program_bytes_def program_args_def cstr_def lang_strs_def vendor_program_def)
  have got: "call_drv2 (api_get_programs program_vendor i t n t1 t2 num (Ptr 20 x)) (vendor_sys {}) =
      Inr (TV_STATUS_SUCCESS, Ptr 20 ?ps, vendor_sys {10..17})" for i t n t1 t2 num x
    by (simp add: call_drv2_def program_vendor_def vendor_sys_def dtv_sys_def sample_sys_def)
  have num: "call_drv (api_get_prog_num program_vendor i t n t1 t2) dtv_sys = Inr (2, dtv_sys)" for i t n t1 t2
    by (simp add: call_drv_def program_vendor_def)
  from get_programs_responds [OF sample_codec sample_append_total _ programs_cmd_args num vendor_malloc got
      c h, where w = w and ?s4.0 = s4] w b
  show ?thesis by (simp add: to_size_def sizeof_tv_program_def)
qed

end
