(* ===== verification/Dtv_Outcomes.thy ===== *)
theory Dtv_Outcomes
  imports Sys_Total
begin

text \<open>
  The commands of the DTV service that depend on the devices: listing the tuners and choosing
  a source with the functions of dtv.c, and the response that carries a native handle with
  its descriptors for any vendor function.
\<close>

section \<open>Listing tuners with the functions of dtv.c\<close>

lemma listed_readable:
  assumes l: "listed ds lv k ts ts'" and k: "k = length ts"
  shows "list_all (readable_tuner lv) ts'"
  unfolding list_all_length
proof (intro allI impI)
  fix j
  assume j: "j < length ts'"
  then have "j < k" using l k by (simp add: listed_def)
  with l k obtain c where "c \<in> lv"
    "ts' ! j = (ts ! j)\<lparr>t_id := Ptr c (tuner_id_text (ds ! j)), num_types := 0\<rparr>"
    by (auto simp: listed_def)
  then show "readable_tuner lv (ts' ! j)" by (simp add: readable_tuner_def cstring_def)
qed

lemma length_tuner_id_text: "length (tuner_id_text d) \<le> 10"
  using int_length_u32 [of d] by (simp add: tuner_id_text_def snprintf_int_def unat_get_int_length)

lemma sum_list_bound: "list_all (\<lambda>x. f x \<le> (m :: nat)) xs \<Longrightarrow> sum_list (map f xs) \<le> m * length xs"
  by (induction xs) auto

lemma listed_bytes:
  assumes l: "listed ds lv k ts ts'" and k: "k = length ts"
  shows "list_all (\<lambda>t. args_size (tuner_args t) \<le> 15) ts'"
  unfolding list_all_length
proof (intro allI impI)
  fix j
  assume j: "j < length ts'"
  then have "j < k" using l k by (simp add: listed_def)
  with l k obtain c where
    t: "ts' ! j = (ts ! j)\<lparr>t_id := Ptr c (tuner_id_text (ds ! j)), num_types := 0\<rparr>"
    by (auto simp: listed_def)
  have "tuner_types (ts' ! j) = []" by (simp add: t tuner_types_def split: ptr.split)
  then show "args_size (tuner_args (ts' ! j)) \<le> 15"
    using length_tuner_id_text [of "ds ! j"] by (simp add: t tuner_args_def cstr_def)
qed

text \<open>
  Releasing an array whose first entry has an indeterminate \<open>supported_types\<close> faults, whether or
  not the id can be freed.
\<close>

lemma release_wild_types:
  assumes n: "0 < unat num" and t: "ts \<noteq> []" "t_id (hd ts) = Ptr c x" "supported_types (hd ts) = Wild"
    and a: "a \<in> live e" "c \<noteq> a"
  shows "release_tuners num (Ptr a ts) e = Inl Bad_free"
proof -
  obtain k where k: "unat num = Suc k" using n by (cases "unat num") auto
  have "ts ! 0 = hd ts" using t(1) by (simp add: hd_conv_nth)
  then have "release_tuner_fields (Ptr a ts) 0 e = Inl Bad_free"
    using t a by (auto simp: release_tuner_fields_def free_field_def)
  with k show ?thesis by (simp add: release_tuners_def)
qed

lemma append_all_total:
  assumes item: "sized_item (sound lv) (calc lv) bytes P enc (app lv) args"
    and codec: "pdu_codec P enc" and a: "a \<in> lv" and xs: "list_all (sound lv) xs" "unat num = length xs"
    and room: "4 + sum_list (map bytes xs) \<le> wb_size b" "wbuf_used b = 0"
  shows "\<exists>ok pre. andThen (wbuf_append P [ArgI num] b) (\<lambda>(ok, w).
           if \<not> ok then Inr (False, w) else append_all (app lv) lv (Ptr a xs) num w) =
         Inr (ok, wbuf_extend enc pre b)"
proof -
  have "writes P enc (\<lambda>w. andThen (wbuf_append P [ArgI num] w) (\<lambda>(ok, w).
      if \<not> ok then Inr (False, w) else append_all (app lv) lv (Ptr a xs) num w))
      ([ArgI num] @ concat (map args xs))"
    using writes_then [OF codec writes_append [OF codec]
        sized_item.append_all_writes [OF item codec a xs]] .
  moreover have "wbuf_used b + args_size ([ArgI num] @ concat (map args xs)) \<le> wb_size b"
    using sized_item.args_size_concat [OF item xs(1)] room by simp
  ultimately show ?thesis by (blast elim: writesE)
qed

definition buffers_never_fail :: "'w platform \<Rightarrow> bool" where
  "buffers_never_fail P \<longleftrightarrow> (\<forall>n t w. fst (create_pdu_wbuf_ok P n t w))"

lemma sys_create_succeeds:
  assumes "buffers_never_fail P" shows "\<exists>w s'. sys_create_wbuf P n t cb s = (Some w, s')"
proof (cases "create_pdu_wbuf_ok P n t (world (s_env s))")
  case (Pair ok v)
  then have ok using assms unfolding buffers_never_fail_def by (metis fst_conv)
  with Pair show ?thesis
    by (simp add: sys_create_wbuf_def create_pdu_wbuf_def ext_call_def fresh_def)
qed

lemma get_tuners_stub_faults:
  assumes s: "sys_ok P s" "dtv_send_pdu s \<noteq> None"
    and codec: "pdu_codec P enc" and mem: "malloc_never_fails P"
    and buf: "buffers_never_fail P"
    and ptr: "4 \<le> ptr_size P" "ptr_size P \<le> 8"
    and some: "ids_of_type (TV_INPUT_TYPE_TUNER P) (s_hal s) \<noteq> []"
  shows "get_tuners P (dtv_impl P) cmd s = Inl Bad_free"
proof -
  let ?ds = "ids_of_type (TV_INPUT_TYPE_TUNER P) (s_hal s)"
  let ?n = "of_nat (length ?ds) :: u32"
  have hal: "hal_wf P (s_hal s)" and conn: "conn_ok (s_io s, s_env s)"
    using s(1) by (simp_all add: sys_ok_def)
  have wf: "env_wf (s_env s)" using conn by (simp add: conn_ok_def)
  have few: "length ?ds \<le> 100"
    using length_ids_of_type [OF hal] by (simp add: MAX_DEVICE_NUM_def)
  then have n: "unat ?n = length ?ds" by (simp add: unat_of_nat)
  then have un: "uint ?n = int (length ?ds)" by (metis uint_nat)
  have num: "call_drv (api_get_tuner_num (dtv_impl P)) s = Inr (?n, s)"
    using get_input_num_eq [OF hal]
    by (simp add: call_drv_def dtv_impl_def dtv_get_tuner_num_def)
  have sz: "sizeof_tv_tuner P * uint ?n = int (3 * ptr_size P * length ?ds)"
    using un by (simp add: sizeof_tv_tuner_def)
  have "(2::nat) ^ 32 \<le> 2 ^ (8 * ptr_size P)" using ptr by (intro power_increasing) simp_all
  moreover have "3 * ptr_size P * length ?ds \<le> 24 * 100"
    using few ptr by (intro mult_mono) simp_all
  ultimately have "3 * ptr_size P * length ?ds < 2 ^ (8 * ptr_size P)" by simp
  then have bytes: "to_size P (sizeof_tv_tuner P * uint ?n) = 3 * ptr_size P * length ?ds"
    unfolding sz by (subst to_size_id) (simp_all del: of_nat_mult)
  have cnt: "3 * ptr_size P * length ?ds div nat (sizeof_tv_tuner P) = length ?ds"
    using ptr by (simp add: sizeof_tv_tuner_def nat_mult_distrib)
  let ?ts = "replicate (length ?ds) (uninit_tuner P)"
  let ?a = "next_addr (s_env s)"
  obtain w where m: "malloc P (3 * ptr_size P * length ?ds) ?ts (s_env s) =
      (Ptr ?a ?ts, (s_env s)\<lparr>live := insert ?a (live (s_env s)), next_addr := Suc ?a, world := w\<rparr>)"
    using malloc_succeeds [OF mem, of "3 * ptr_size P * length ?ds" ?ts "s_env s"] by blast
  let ?e = "(s_env s)\<lparr>live := insert ?a (live (s_env s)), next_addr := Suc ?a, world := w\<rparr>"
  have wfe: "env_wf ?e" using wf by (auto simp: env_wf_def less_Suc_eq)
  from dtv_get_tuners_lists [OF mem hal wfe ptr(1), of ?a ?n ?ts] n
  obtain ts2 e2 where l: "dtv_get_tuners P ?n (Ptr ?a ?ts) (s_hal s, ?e) =
      Inr (TV_STATUS_SUCCESS, Ptr ?a ts2, s_hal s, e2)"
    "live ?e \<subseteq> live e2" "listed ?ds (live e2 - {?a}) (length ?ds) ?ts ts2" "env_wf e2"
    by auto
  let ?s = "s\<lparr>s_env := e2\<rparr>"
  have got: "call_drv2 (api_get_tuners (dtv_impl P) ?n (Ptr ?a ?ts)) (s\<lparr>s_env := ?e\<rparr>) =
      Inr (TV_STATUS_SUCCESS, Ptr ?a ts2, ?s)"
    using l(1) by (simp add: call_drv2_def dtv_impl_def)
  have a: "?a \<in> live (s_env ?s)" using l(2) by auto
  have conn2: "conn_ok (s_io ?s, s_env ?s)"
    using conn l(2,4) by (auto simp: conn_ok_def queue_ok_def)
  have len: "length ts2 = length ?ds" using l(3) by (simp add: listed_def)
  have rd0: "list_all (readable_tuner (live e2 - {?a})) ts2"
    by (rule listed_readable [OF l(3)]) simp
  have rdl: "list_all (readable_tuner lv) ts2" if "live e2 \<subseteq> lv" for lv
  proof -
    have "live e2 - {?a} \<subseteq> lv" using that by auto
    then show ?thesis using rd0 readable_tuner_mono unfolding live_mono_def list_all_iff by blast
  qed
  have nts: "unat ?n = length ts2" using n len by simp
  let ?bytes = "sum_list (map (\<lambda>t. args_size (tuner_args t)) ts2)"
  have "?bytes \<le> 15 * length ts2" by (rule sum_list_bound [OF listed_bytes [OF l(3)]]) simp
  then have small: "4 + ?bytes < 4294967296" using few len by simp
  have size: "sum_sizes (calculate_tuner_size (live e2)) (live e2) (Ptr ?a ts2) ?n 4 =
      Inr (4 + of_nat ?bytes)"
    using a rdl nts by (intro tuner_item.sum_sizes_eq) simp_all
  have un4: "unat (4 + of_nat ?bytes :: u32) = 4 + ?bytes"
  proof -
    have "(4 + of_nat ?bytes :: u32) = of_nat (4 + ?bytes)" by simp
    then show ?thesis using small by (simp only: unat_of_nat) simp
  qed
  obtain w2 s3 where c: "sys_create_wbuf P (4 + ?bytes) 0 False ?s = (Some w2, s3)"
    using sys_create_succeeds [OF buf] by blast
  note c3 = conn_create_wbuf [OF c conn2]
  let ?lv = "live (s_env s3)"
  let ?b = "init_pdu (pdu_service cmd) (pdu_opcode cmd) w2"
  have b: "sendable w2 (s_io s3, s_env s3)" "wb_size w2 = 4 + ?bytes"
      "wb_addr w2 \<notin> live e2" using c3(7) by simp_all
  obtain ok pre where ap: "andThen (wbuf_append P [ArgI ?n] ?b) (\<lambda>(ok, w).
      if \<not> ok then Inr (False, w) else append_all (append_tuner P ?lv) ?lv (Ptr ?a ts2) ?n w) =
      Inr (ok, wbuf_extend enc pre ?b)"
    using append_all_total [where sound = readable_tuner and calc = calculate_tuner_size
        and app = "append_tuner P" and bytes = "\<lambda>t. args_size (tuner_args t)" and args = tuner_args
        and lv = ?lv, OF tuner_item.sized_item_axioms codec _ rdl nts, of ?a ?b] c3(6) a b(2) by auto
  have first: "ts2 \<noteq> []" "supported_types (hd ts2) = Wild" "\<exists>c x. t_id (hd ts2) = Ptr c x \<and> c \<noteq> ?a"
  proof -
    show ne: "ts2 \<noteq> []" using len some by auto
    have "0 < length ?ds" using some by simp
    with l(3) obtain c where "c \<in> live e2 - {?a}" "ts2 ! 0 =
        (?ts ! 0)\<lparr>t_id := Ptr c (tuner_id_text (?ds ! 0)), num_types := 0\<rparr>"
      by (auto simp: listed_def)
    then show "supported_types (hd ts2) = Wild" "\<exists>c x. t_id (hd ts2) = Ptr c x \<and> c \<noteq> ?a"
      using ne \<open>0 < length ?ds\<close> by (auto simp: hd_conv_nth uninit_tuner_def)
  qed
  have rel: "release_tuners ?n (Ptr ?a ts2) e = Inl Bad_free" if "?a \<in> live e" for e :: "'a env"
    using first that nts by (auto intro!: release_wild_types)
  have items: "reply_items P calculate_tuner_size (append_tuner P) release_tuners cmd ?n (Ptr ?a ts2) ?s =
      andThen (Inr (ok, wbuf_extend enc pre ?b))
        (\<lambda>(ok, w). if ok then andThen (call_send P (dtv_send_pdu s3) w s3)
            (\<lambda>s. andThen (on_env (release_tuners ?n (Ptr ?a ts2)) s) (\<lambda>s. Inr (ERROR_NONE, s)))
          else andThen (on_env (release_tuners ?n (Ptr ?a ts2)) s3) (\<lambda>s.
            andThen (on_env (destroy_pdu_wbuf w) s) (\<lambda>s. Inr (ERROR_NOMEM, s))))"
    unfolding ap [symmetric] reply_items_def
    using size un4 c by (simp add: andThen_pair)
  have "wb_addr ` set (sendq (s_io s)) \<subseteq> live (s_env s)"
    using conn by (simp add: conn_ok_def queue_ok_def)
  then have "?a \<notin> wb_addr ` set (sendq (s_io s))" using env_wf_fresh [OF wf] by blast
  then have a3: "?a \<in> ?lv" "?a \<notin> wb_addr ` set (sendq (s_io s3))" "?a \<noteq> wb_addr w2"
    using c3(3,6) a b(3) by auto
  have "reply_items P calculate_tuner_size (append_tuner P) release_tuners cmd ?n (Ptr ?a ts2) ?s =
      Inl Bad_free"
  proof (cases ok)
    case False
    then show ?thesis unfolding items using rel a3 by (simp add: on_env_def)
  next
    case True
    let ?w = "wbuf_extend enc pre ?b"
    have "sendable ?w (s_io s3, s_env s3)" using b(1) by (auto intro: sendable_addr)
    moreover have "dtv_send_pdu s3 \<noteq> None" using s(2) c3(2) by (simp add: services_def)
    ultimately obtain s4 where s4: "call_send P (dtv_send_pdu s3) ?w s3 = Inr s4"
      "live (s_env s3) - live (s_env s4) \<subseteq> wb_addr ` set (sendq (s_io s3) @ [?w])"
      using call_send_total [OF c3(1)] by blast
    then have "?a \<in> live (s_env s4)" using a3 by auto
    with True s4(1) show ?thesis unfolding items using rel by (simp add: on_env_def)
  qed
  then show ?thesis using num bytes cnt m got by (simp add: get_tuners_def Let_def sys_malloc_def)
qed

section \<open>Choosing a source twice\<close>

text \<open>
  A second \<open>set_source\<close> for the stream that is already active succeeds in tv_hal.c without a
  handle having been assigned, and dtv_io.c follows the indeterminate pointer.
\<close>

lemma set_source_again_faults:
  assumes rd: "read_pdu_at P cmd 0 [Fmt0, FmtC] = Some [Arg0 tid, ArgC t]"
    and dv: "dv = parse_device_id P 0 tid" "length tid < 4294967296"
    and wf: "hal_wf P (s_hal s)" and dev: "hal_device (s_hal s)"
    and cfg: "ext_call (get_stream_configurations P dv) (s_env s) = ((0, configs), e1)"
    and c: "List.find (\<lambda>c. sc_type c = TV_STREAM_TYPE_INDEPENDENT_VIDEO_SOURCE P) configs = Some c"
    and i: "find_device (s_hal s) dv = Inr i" "i < unat (device_num (s_hal s))"
    and active: "acting_stream_id (devices (s_hal s) ! i) = sc_stream_id c" "sc_stream_id c \<noteq> -1"
  shows "set_source P (dtv_impl P) cmd s = Inl Uninit_use"
proof -
  have "take (unat (of_nat (length tid) :: u32)) tid = tid"
    using dv(2) by (simp add: unat_of_nat)
  then have "dtv_set_source P tid t (uninit_stream P) (s_hal s, s_env s) =
      Inr (TV_STATUS_SUCCESS, select_config P c (uninit_stream P), s_hal s, e1)"
    using get_stream_again [OF wf dev cfg c i active, of "uninit_stream P"] dv(1)
    by (simp add: dtv_set_source_def Let_def)
  then have "call_drv2 (api_set_source (dtv_impl P) tid t (uninit_stream P)) s =
      Inr (TV_STATUS_SUCCESS, select_config P c (uninit_stream P), s\<lparr>s_env := e1\<rparr>)"
    by (simp add: call_drv2_def dtv_impl_def)
  then show ?thesis using rd by (simp add: set_source_def uninit_stream_def)
qed

section \<open>The response with a handle\<close>

text \<open>Where the tail area lies does not depend on what the buffer holds.\<close>

definition tail_stable :: "'w platform \<Rightarrow> bool" where
  "tail_stable P \<longleftrightarrow>
     (\<forall>w t q. pdu_wbuf_tail P (w\<lparr>wb_tail := t, wb_pdu := q\<rparr>) = pdu_wbuf_tail P w)"

lemma store_fds_eq:
  assumes ptr: "0 < ptr_size P" and base: "ceil_align P (pdu_wbuf_tail P w) (ptr_size P) = Inr base"
    and n: "sint (nh_numFds nh) = int n" "n \<le> length (nh_data nh)"
    and small: "pdu_wbuf_tail P w + ptr_size P < address_space P"
    and size: "tail_area_size P n \<le> wb_tail_size w"
  shows "store_fds P nh w = Inr (w\<lparr>wb_tail := Some \<lparr>anc_base = base,
           anc_fd_num = nh_numFds nh, anc_fds = take n (nh_data nh)\<rparr>\<rparr>)"
proof -
  let ?limit = "pdu_wbuf_tail P w + wb_tail_size w"
  have room: "base + 4 + 4 * n \<le> ?limit"
    using ceil_align_range(2) [OF ptr small base] size by (simp add: tail_area_size_def)
  have "\<exists>fds. for_loop (\<lambda>idx fds. andThen (handle_data nh (int idx)) (\<lambda>fd.
          if ?limit < base + 4 + 4 * (idx + 1) then Inl Out_of_bounds else Inr (fds @ [fd]))) 0 n [] =
        Inr fds \<and> fds = take (0 + n) (nh_data nh)"
  proof (rule for_loop_total)
    fix k fds
    assume k: "0 \<le> k" "k < 0 + n" "fds = take k (nh_data nh)"
    with n room show "\<exists>t'. andThen (handle_data nh (int k)) (\<lambda>fd.
          if ?limit < base + 4 + 4 * (k + 1) then Inl Out_of_bounds else Inr (fds @ [fd])) = Inr t' \<and>
        t' = take (Suc k) (nh_data nh)"
      by (simp add: handle_data_def take_Suc_conv_app_nth)
  qed simp
  then show ?thesis using base room n by (simp add: store_fds_def Let_def)
qed

text \<open>
  The buffer \<open>set_source\<close> makes for a handle with descriptors: \<open>build_ancillary_data\<close> finds
  exactly these descriptors in it and builds the control message inside the tail area.
\<close>

lemma handle_wbuf_control:
  assumes ptr: "0 < ptr_size P" and stable: "tail_stable P"
    and n: "sint (nh_numFds nh) = int n" "0 < n" "n \<le> length (nh_data nh)"
    and sizes: "int (tail_area_size P n) < 2 ^ (8 * ptr_size P)"
    and cmsg: "cmsg_hdr P \<le> cmsg_space P (4 * n)" "cmsg_len P (4 * n) \<le> cmsg_space P (4 * n)"
    and w: "sys_create_wbuf P (to_size P (12 + 4 * sint (nh_numInts nh))) (tail_area_size P n) True s =
        (Some w, s')"
    and small: "pdu_wbuf_tail P w + ptr_size P < address_space P"
  shows "\<exists>w2 c. handle_wbuf P nh s = Inr (Some w2, s') \<and>
           wb_addr w2 = wb_addr w \<and> wb_size w2 = to_size P (12 + 4 * sint (nh_numInts nh)) \<and>
           wb_pdu w2 = wb_pdu w \<and>
           build_ancillary_data P (init_pdu sv oc w2) =
             Inr \<lparr>msg_control = c, msg_controllen = cmsg_len P (4 * n),
                  msg_rights = take n (nh_data nh)\<rparr> \<and>
           c + cmsg_len P (4 * n) \<le> pdu_wbuf_tail P w + wb_tail_size w"
proof -
  have nz: "nh_numFds nh \<noteq> 0" using n(1,2) by auto
  have four: "4 * int n < 2 ^ (8 * ptr_size P)" using sizes by (simp add: tail_area_size_def)
  have fdb: "to_size P (4 * sint (nh_numFds nh)) = 4 * n"
    using n(1) four by (subst to_size_id) simp_all
  have tail: "to_size P (int (ptr_size P) + 4 + int (4 * n) + int (cmsg_space P (4 * n))) =
      tail_area_size P n"
  proof -
    have "int (ptr_size P) + 4 + int (4 * n) + int (cmsg_space P (4 * n)) = int (tail_area_size P n)"
      by (simp add: tail_area_size_def)
    then show ?thesis using sizes by (metis to_size_id of_nat_0_le_iff nat_int)
  qed
  have ws: "wb_size w = to_size P (12 + 4 * sint (nh_numInts nh))" "wb_tail_size w = tail_area_size P n"
    using w create_pdu_wbuf_Some [where P = P] by (auto simp: sys_create_wbuf_def split: prod.splits)
  obtain base where base: "ceil_align P (pdu_wbuf_tail P w) (ptr_size P) = Inr base"
    using ptr by (simp add: ceil_align_def)
  let ?a = "\<lparr>anc_base = base, anc_fd_num = nh_numFds nh, anc_fds = take n (nh_data nh)\<rparr>"
  let ?w = "w\<lparr>wb_tail := Some ?a\<rparr>"
  have "store_fds P nh w = Inr ?w"
    using ws by (intro store_fds_eq [OF ptr base n(1,3) small]) simp
  then have run: "handle_wbuf P nh s = Inr (Some ?w, s')"
    using nz fdb tail w by (simp add: handle_wbuf_def Let_def)
  let ?i = "init_pdu sv oc ?w"
  have "?i = w\<lparr>wb_tail := Some ?a, wb_pdu := wb_pdu ?i\<rparr>" by (simp add: init_pdu_def)
  then have addr: "pdu_wbuf_tail P ?i = pdu_wbuf_tail P w"
    using stable unfolding tail_stable_def by metis
  have len: "length (take n (nh_data nh)) = n" using n(3) by simp
  have asp: "4 * n < address_space P"
  proof -
    have "int (4 * n) < int (2 ^ (8 * ptr_size P))" using four by simp
    then show ?thesis unfolding address_space_def by (subst (asm) of_nat_less_iff)
  qed
  have "build_ancillary_data P ?i = Inr \<lparr>msg_control = base + 4 + 4 * n,
      msg_controllen = cmsg_len P (4 * n), msg_rights = take n (nh_data nh)\<rparr>"
    using build_ancillary_data_eq [OF ptr, of ?i base "nh_numFds nh" "take n (nh_data nh)"]
      base addr n(1) len small asp cmsg ws by simp
  moreover have "base + 4 + 4 * n + cmsg_len P (4 * n) \<le> pdu_wbuf_tail P w + wb_tail_size w"
    using ceil_align_range(2) [OF ptr small base] ws(2) cmsg(2) by (simp add: tail_area_size_def)
  ultimately show ?thesis using run ws by auto
qed

text \<open>
  What is written of a handle: the three numbers, and the integers from index \<open>numFds\<close> up to
  index \<open>numInts\<close>, which are \<open>numFds\<close> fewer than announced.
\<close>

definition handle_args :: "native_handle \<Rightarrow> nat \<Rightarrow> nat \<Rightarrow> pdu_arg list" where
  "handle_args nh n m =
     [ArgI (nh_version nh), ArgI (nh_numFds nh), ArgI (nh_numInts nh)] @
     map ArgI (take (m - n) (drop n (nh_data nh)))"

lemma append_handle_writes:
  assumes codec: "pdu_codec P enc"
    and n: "sint (nh_numFds nh) = int n" and m: "sint (nh_numInts nh) = int m" "m \<le> length (nh_data nh)"
  shows "writes P enc (append_handle P nh) (handle_args nh n m)"
proof -
  let ?head = "[ArgI (nh_version nh), ArgI (nh_numFds nh), ArgI (nh_numInts nh)]"
  let ?body = "\<lambda>k w. andThen (handle_data nh (int n + int k)) (\<lambda>d. wbuf_append P [ArgI d] w)"
  let ?xs = "take (m - n) (drop n (nh_data nh))"
  have len: "length ?xs = m - n" using m(2) by simp
  have "writes P enc (for_until ?body 0 (m - n)) (concat (map (\<lambda>k. [ArgI (?xs ! k)]) [0..<0 + (m - n)]))"
  proof (rule writes_loop [OF codec])
    fix k
    assume k: "0 \<le> k" "k < 0 + (m - n)"
    then have "n + k < length (nh_data nh)" using m(2) by simp
    then have "?body k = wbuf_append P [ArgI (?xs ! k)]"
      using k by (intro ext) (simp add: handle_data_def nat_add_distrib)
    then show "writes P enc (?body k) [ArgI (?xs ! k)]" using writes_append [OF codec] by simp
  qed
  then have "writes P enc (for_until ?body 0 (m - n)) (map ArgI ?xs)"
    using concat_nth_upt [of "m - n" ?xs ArgI] len by simp
  from writes_then [OF codec writes_append [OF codec, of ?head] this]
  have "writes P enc (\<lambda>w. andThen (wbuf_append P ?head w) (\<lambda>(ok, w).
      if \<not> ok then Inr (False, w) else for_until ?body 0 (m - n) w)) (handle_args nh n m)"
    by (simp add: handle_args_def)
  moreover have cnt: "nat (int m - int n) = m - n" by simp
  have "append_handle P nh = (\<lambda>w. andThen (wbuf_append P ?head w) (\<lambda>(ok, w).
      if \<not> ok then Inr (False, w) else for_until ?body 0 (m - n) w))"
    by (intro ext) (simp only: append_handle_def n m(1) cnt)
  ultimately show ?thesis by simp
qed

lemma handle_args_size:
  assumes "m \<le> length (nh_data nh)"
  shows "args_size (handle_args nh n m) = 12 + 4 * (m - n)"
proof -
  have "args_size (map ArgI ws) = 4 * length ws" for ws by (induction ws) auto
  with assms show ?thesis by (simp add: handle_args_def)
qed

section \<open>Scan notifications\<close>

text \<open>
  A finished or stopped scan: the buffer is posted with the tuner's id and the source type, or
  destroyed when the task cannot be posted.
\<close>

lemma post_ntf_outcome:
  assumes "wb_addr w \<in> live (s_env s)"
  shows "\<exists>s'. post_ntf P (True, w) s = Inr s' \<and> sys_out s' = sys_out s \<and>
           (tasks s' = tasks s @ [w] \<and> live (s_env s') = live (s_env s) \<or>
            tasks s' = tasks s \<and> live (s_env s') = live (s_env s) - {wb_addr w})"
proof -
  obtain r e where c: "ext_call (run_task P w) (s_env s) = (r, e)" by (metis surj_pair)
  note e = ext_call_env [OF c]
  show ?thesis
    using assms c e
    by (cases "r < 0") (auto simp: post_ntf_def on_env_def destroy_pdu_wbuf_def sys_out_same_env)
qed

lemma scan_status_posts:
  assumes codec: "pdu_codec P enc" "append_total P" and conn: "conn_ok (s_io s, s_env s)"
    and tid: "cstring (live (s_env s)) tid"
    and st: "st = DTV_SCAN_COMPLETE \<and> opc = OPCODE_SCANNED_COMPLETE \<or>
             st = DTV_SCAN_STOPPED \<and> opc = OPCODE_SCAN_STOPPED"
    and size: "int (length (cstr tid)) + 2 < 2 ^ (8 * ptr_size P)"
      "length (cstr tid) + 2 \<le> PDU_MAX_DATA_LENGTH P"
    and mem: "sys_create_wbuf P (length (cstr tid) + 2) 0 False s = (Some w, s1)"
    and n_def: "n = wbuf_extend enc [Arg0 (cstr tid), ArgC ty] (init_pdu SERVICE_DTV opc w)"
  shows "\<exists>s'. scan_status_nfy_cb P st tid ty s = Inr s' \<and> sys_out s' = sys_out s \<and>
           (tasks s' = tasks s @ [n] \<and> live (s_env s') = insert (wb_addr n) (live (s_env s)) \<or>
            tasks s' = tasks s \<and> live (s_env s') = live (s_env s))"
proof -
  note c = conn_create_wbuf [OF mem conn]
  have sz: "ntf_size P (cstr tid) 0 = length (cstr tid) + 2"
  proof -
    have "to_size P (int (length (cstr tid)) + 2) = length (cstr tid) + 2"
      using size(1) by (subst to_size_id) simp_all
    then show ?thesis by (simp add: ntf_size_def add.commute)
  qed
  have ap: "wbuf_append P [Arg0 (cstr tid), ArgC ty] (init_pdu SERVICE_DTV opc w) = Inr (True, n)"
    using wbuf_append_succeeds [OF codec, of "init_pdu SERVICE_DTV opc w" "[Arg0 (cstr tid), ArgC ty]"]
      c(7) size(2) by (simp add: n_def wbuf_extend_def)
  have w: "tid \<noteq> Null" "wb_addr n = wb_addr w" using tid by (auto simp: cstring_def n_def)
  have run: "scan_status_nfy_cb P st tid ty s = post_ntf P (True, n) s1"
    using st w(1) cstring_load [OF tid] sz mem ap
    by (auto simp: scan_status_nfy_cb_def scanned_complete_cb_def scanned_stopped_cb_def
        DTV_SCAN_COMPLETE_def DTV_SCAN_STOPPED_def)
  have s1: "sys_out s1 = sys_out s" "tasks s1 = tasks s" "live (s_env s1) = insert (wb_addr w) (live (s_env s))"
    "wb_addr w \<notin> live (s_env s)"
    using c by (simp_all add: services_def)
  with post_ntf_outcome [of n s1 P] w(2) show ?thesis unfolding run by auto
qed

section \<open>Properties\<close>

text \<open>
  C21: For a handle with descriptors the handler's buffer carries, in its tail area, exactly the
  descriptors of the handle: the control message that libpdu builds from it stays inside the
  area, and neither \<open>init_pdu\<close> nor the address of the buffer matters.
\<close>

theorem handle_control_message:
  assumes "0 < ptr_size P" and "tail_stable P"
    and "sint (nh_numFds nh) = int n" "0 < n" "n \<le> length (nh_data nh)"
    and "int (tail_area_size P n) < 2 ^ (8 * ptr_size P)"
    and "cmsg_hdr P \<le> cmsg_space P (4 * n)" "cmsg_len P (4 * n) \<le> cmsg_space P (4 * n)"
    and "sys_create_wbuf P (to_size P (12 + 4 * sint (nh_numInts nh))) (tail_area_size P n) True s =
        (Some w, s')"
    and "pdu_wbuf_tail P w + ptr_size P < address_space P"
  shows "\<exists>w2 c. handle_wbuf P nh s = Inr (Some w2, s') \<and>
           wb_addr w2 = wb_addr w \<and> wb_size w2 = to_size P (12 + 4 * sint (nh_numInts nh)) \<and>
           wb_pdu w2 = wb_pdu w \<and>
           build_ancillary_data P (init_pdu sv oc w2) =
             Inr \<lparr>msg_control = c, msg_controllen = cmsg_len P (4 * n),
                  msg_rights = take n (nh_data nh)\<rparr> \<and>
           c + cmsg_len P (4 * n) \<le> pdu_wbuf_tail P w + wb_tail_size w"
  using assms by (rule handle_wbuf_control)

definition sample_handle :: native_handle where
  "sample_handle = \<lparr>nh_version = 12, nh_numFds = 1, nh_numInts = 2, nh_data = [5, 100, 200]\<rparr>"

lemma sample_handle_fields [simp]:
  "nh_version sample_handle = 12" "nh_numFds sample_handle = 1" "nh_numInts sample_handle = 2"
  "nh_data sample_handle = [5, 100, 200]"
  by (simp_all add: sample_handle_def)

theorem handle_control_message_witness:
  "\<exists>w2 c s'. handle_wbuf sample_platform sample_handle dtv_sys = Inr (Some w2, s') \<and>
     build_ancillary_data sample_platform (init_pdu 1 2 w2) =
       Inr \<lparr>msg_control = c, msg_controllen = 20, msg_rights = [5]\<rparr>"
proof -
  have sz: "tail_area_size sample_platform 1 = 40"
    by (simp add: tail_area_size_def)
  obtain w s' where w: "sys_create_wbuf sample_platform 20 40 True dtv_sys = (Some w, s')"
    by (simp add: sys_create_wbuf_def create_pdu_wbuf_def fresh_def)
  then have ws: "wb_size w = 20"
    by (auto simp: sys_create_wbuf_def create_pdu_wbuf_def fresh_def)
  have "tail_stable sample_platform" by (simp add: tail_stable_def)
  from handle_control_message [OF _ this, of sample_handle 1 dtv_sys w s' 1 2] w ws sz show ?thesis
    by (auto simp: to_size_def address_space_def)
qed

text \<open>
  C35: What the response to set source carries of a handle is its three counts and the integers from
  index \<open>numFds\<close> up to index \<open>numInts\<close>: the loop counts to the number of integers although it
  starts behind the descriptors, so the last \<open>numFds\<close> integers are missing and, with at least
  as many descriptors as integers, all of them.
\<close>

theorem handle_response_data:
  assumes "pdu_codec P enc" and "sint (nh_numFds nh) = int n" and "sint (nh_numInts nh) = int m"
    and "m \<le> length (nh_data nh)" and "wbuf_used w + 12 + 4 * m \<le> wb_size w"
    and "append_handle P nh w = Inr (True, w')"
  shows "pdu_data (wb_pdu w') = pdu_data (wb_pdu w) @
           encodes enc ([ArgI (nh_version nh), ArgI (nh_numFds nh), ArgI (nh_numInts nh)] @
             map ArgI (take (m - n) (drop n (nh_data nh))))"
proof -
  have "wbuf_used w + args_size (handle_args nh n m) \<le> wb_size w"
    using assms(4,5) handle_args_size [of m nh n] by simp
  from writesE [OF append_handle_writes [OF assms(1-4)] this] obtain ok pre
    where "append_handle P nh w = Inr (ok, wbuf_extend enc pre w)" "ok \<longrightarrow> pre = handle_args nh n m"
    by blast
  with assms(6) show ?thesis by (auto simp: handle_args_def)
qed

theorem handle_response_data_witness:
  "\<exists>w'. append_handle sample_platform sample_handle (plain_wbuf 4 2 \<lparr>wb_size := 20\<rparr>) = Inr (True, w') \<and>
     pdu_data (wb_pdu w') = encodes sample_enc [ArgI 12, ArgI 1, ArgI 2, ArgI 100]"
proof -
  have r: "wbuf_used (plain_wbuf 4 2 \<lparr>wb_size := 20\<rparr>) + args_size (handle_args sample_handle 1 2) \<le>
      wb_size (plain_wbuf 4 2 \<lparr>wb_size := 20\<rparr>)"
    by (simp add: wbuf_used_def handle_args_def)
  have "writes sample_platform sample_enc (append_handle sample_platform sample_handle)
      (handle_args sample_handle 1 2)"
    by (rule append_handle_writes [OF sample_codec]) simp_all
  from writesE [OF this r] obtain w' where
    w': "append_handle sample_platform sample_handle (plain_wbuf 4 2 \<lparr>wb_size := 20\<rparr>) = Inr (True, w')"
    using sample_append_total by (auto simp: wbuf_used_def handle_args_def)
  from handle_response_data [OF sample_codec _ _ _ _ w', of 1 2] w' show ?thesis
    by (simp add: wbuf_used_def)
qed

text \<open>
  C37: With dtv.c and at least one tuner, a get-tuners command ends in the release of a pointer that
  was never assigned: \<open>dtv_get_tuners\<close> does not set \<open>supported_types\<close>, and the handler frees it.
\<close>

theorem get_tuners_releases_garbage:
  assumes "sys_ok P s" "dtv_send_pdu s \<noteq> None" and "pdu_codec P enc" and "malloc_never_fails P"
    and "buffers_never_fail P" and "4 \<le> ptr_size P" "ptr_size P \<le> 8"
    and "ids_of_type (TV_INPUT_TYPE_TUNER P) (s_hal s) \<noteq> []"
  shows "get_tuners P (dtv_impl P) cmd s = Inl Bad_free"
  using assms by (rule get_tuners_stub_faults)

theorem get_tuners_releases_garbage_witness:
  "get_tuners sample_platform (dtv_impl sample_platform) (list_cmd OPCODE_GET_TUNERS) dtv_sys = Inl Bad_free"
  using get_tuners_releases_garbage [OF sample_sys_ok(2) _ sample_codec]
  by (simp add: malloc_never_fails_def buffers_never_fail_def)

text \<open>
  C38: Setting the source to the device whose stream is already active uses a stream handle that was
  never assigned: \<open>tv_input_hal_get_stream\<close> reports success without opening the stream.
\<close>

theorem set_source_again_uses_garbage:
  assumes "read_pdu_at P cmd 0 [Fmt0, FmtC] = Some [Arg0 tid, ArgC t]"
    and "dv = parse_device_id P 0 tid" "length tid < 4294967296"
    and "hal_wf P (s_hal s)" and "hal_device (s_hal s)"
    and "ext_call (get_stream_configurations P dv) (s_env s) = ((0, configs), e1)"
    and "List.find (\<lambda>c. sc_type c = TV_STREAM_TYPE_INDEPENDENT_VIDEO_SOURCE P) configs = Some c"
    and "find_device (s_hal s) dv = Inr i" "i < unat (device_num (s_hal s))"
    and "acting_stream_id (devices (s_hal s) ! i) = sc_stream_id c" "sc_stream_id c \<noteq> -1"
  shows "set_source P (dtv_impl P) cmd s = Inl Uninit_use"
  using assms by (rule set_source_again_faults)

definition active_platform :: "unit platform" where
  "active_platform = sample_platform\<lparr>get_stream_configurations :=
     \<lambda>_ w. ((0, [sample_config\<lparr>sc_stream_id := 5\<rparr>]), w)\<rparr>"

lemma active_platform_fields [simp]:
  "get_stream_configurations active_platform dv w = ((0, [sample_config\<lparr>sc_stream_id := 5\<rparr>]), w)"
  "TV_STREAM_TYPE_INDEPENDENT_VIDEO_SOURCE active_platform = 1"
  "read_pdu_at active_platform = read_pdu_at sample_platform" "hal_wf active_platform sample_hal"
  "char_is_signed active_platform"
  using sample_hal_wf(1) by (simp_all add: active_platform_def hal_wf_def)

theorem set_source_again_uses_garbage_witness:
  "set_source active_platform (dtv_impl active_platform) (list_cmd OPCODE_SET_SOURCE) dtv_sys = Inl Uninit_use"
  using set_source_again_uses_garbage [of active_platform "list_cmd OPCODE_SET_SOURCE" "''7''" 1 7 dtv_sys
      "[sample_config\<lparr>sc_stream_id := 5\<rparr>]" conn_env "sample_config\<lparr>sc_stream_id := 5\<rparr>" 0]
    find_device_eq [OF sample_hal_wf(1), of 7] list_cmd_args
  by (simp add: char_value_def)

text \<open>
  C36: A vendor notification that a scan is complete or stopped posts one buffer with the tuner's id
  and the source type under the notification's opcode, or, when the task cannot be posted,
  leaves no buffer behind; nothing is sent from the notifying thread.
\<close>

theorem scan_status_notified:
  assumes "pdu_codec P enc" "append_total P" and "conn_ok (s_io s, s_env s)"
    and "cstring (live (s_env s)) tid"
    and "st = DTV_SCAN_COMPLETE \<and> opc = OPCODE_SCANNED_COMPLETE \<or>
         st = DTV_SCAN_STOPPED \<and> opc = OPCODE_SCAN_STOPPED"
    and "int (length (cstr tid)) + 2 < 2 ^ (8 * ptr_size P)"
      "length (cstr tid) + 2 \<le> PDU_MAX_DATA_LENGTH P"
    and "sys_create_wbuf P (length (cstr tid) + 2) 0 False s = (Some w, s1)"
    and "n = wbuf_extend enc [Arg0 (cstr tid), ArgC ty] (init_pdu SERVICE_DTV opc w)"
  shows "\<exists>s'. scan_status_nfy_cb P st tid ty s = Inr s' \<and> sys_out s' = sys_out s \<and>
           (tasks s' = tasks s @ [n] \<and> live (s_env s') = insert (wb_addr n) (live (s_env s)) \<or>
            tasks s' = tasks s \<and> live (s_env s') = live (s_env s))"
  using assms by (rule scan_status_posts)

theorem scan_status_notified_witness:
  "\<exists>s'. scan_status_nfy_cb sample_platform DTV_SCAN_COMPLETE (Ptr 5 ''7'') 1 dtv_sys = Inr s' \<and>
     sys_out s' = sys_out dtv_sys"
proof -
  obtain w s1 where
    w: "sys_create_wbuf sample_platform (length (cstr (Ptr 5 ''7'')) + 2) 0 False dtv_sys = (Some w, s1)"
    by (simp add: sys_create_wbuf_def create_pdu_wbuf_def fresh_def)
  have "cstring (live (s_env dtv_sys)) (Ptr 5 ''7'')" by (simp add: cstring_def)
  from scan_status_notified [OF sample_codec sample_append_total _ this _ _ _ w refl,
      of DTV_SCAN_COMPLETE OPCODE_SCANNED_COMPLETE 1]
  show ?thesis by (auto simp: cstr_def)
qed

end
