(* ===== verification/Tvd_Main.thy ===== *)
theory Tvd_Main
  imports Io_Loop
begin

text \<open>
  main.c: the command line, the callbacks \<open>init\<close> and \<open>uninit\<close> of the epoll loop, and \<open>main\<close>. The
  results of \<open>getopt\<close> are a list of option characters with their arguments, and \<open>epoll_loop\<close> of
  libfdio is an argument of the model of \<open>main\<close>.
\<close>

section \<open>Options\<close>

record options =
  socket_name :: string

definition DEFAULT_SOCKET_NAME :: string where "DEFAULT_SOCKET_NAME = ''tvd''"

definition parse_opt_question_mark :: int where "parse_opt_question_mark = -1"

definition parse_opt_a :: "string option \<Rightarrow> options \<Rightarrow> int \<times> options" where
  "parse_opt_a arg opt =
     (case arg of
        None \<Rightarrow> (-1, opt)
      | Some a \<Rightarrow> if a = [] then (-1, opt) else (0, opt\<lparr>socket_name := a\<rparr>))"

definition parse_opt_h :: int where "parse_opt_h = 1"

definition parse_opt :: "char \<Rightarrow> string option \<Rightarrow> options \<Rightarrow> int \<times> options" where
  "parse_opt c arg opts =
     (if c = CHR ''?'' then (parse_opt_question_mark, opts)
      else if c = CHR ''a'' then parse_opt_a arg opts
      else if c = CHR ''h'' then (parse_opt_h, opts)
      else (-1, opts))"

text \<open>The loop ends with the options, or at the first one whose result is not 0.\<close>

fun parse_opts :: "(char \<times> string option) list \<Rightarrow> options \<Rightarrow> int \<times> options" where
  "parse_opts [] opts = (0, opts)"
| "parse_opts ((c, arg) # rest) opts =
     (case parse_opt c arg opts of
        (res, opts) \<Rightarrow> if res = 0 then parse_opts rest opts else (res, opts))"

section \<open>Start and end\<close>

definition tvd_init :: "'w platform \<Rightarrow> options \<Rightarrow> 'w sys \<Rightarrow> (ioresult \<times> 'w sys) res" where
  "tvd_init P opts s =
     (let (r, e) = ext_call (init_task_queue P) (s_env s);
          s = s\<lparr>s_env := e\<rparr>
      in if r < 0 then Inr (Io_other (-1), s)
         else andThen (init_io P (socket_name opts) s) (\<lambda>(r, s).
           if r < 0
           then Inr (IO_ABORT,
                  s\<lparr>s_env := (s_env s)\<lparr>world := uninit_task_queue P (world (s_env s))\<rparr>\<rparr>)
           else Inr (IO_OK, wake False s)))"

definition tvd_uninit :: "'w platform \<Rightarrow> 'w sys \<Rightarrow> 'w sys res" where
  "tvd_uninit P s =
     andThen (uninit_io P s) (\<lambda>s.
       Inr (s\<lparr>s_env := (s_env s)\<lparr>world := uninit_task_queue P (world (s_env s))\<rparr>\<rparr>))"

definition EXIT_SUCCESS :: int where "EXIT_SUCCESS = 0"
definition EXIT_FAILURE :: int where "EXIT_FAILURE = 1"

text \<open>
  A new session, no file mask, the root directory. A failure of \<open>setsid\<close> or \<open>chdir\<close> is only logged.
\<close>

definition make_daemon :: "'w platform \<Rightarrow> 'w env \<Rightarrow> 'w env" where
  "make_daemon P e =
     (let (_, e) = ext_call (setsid P) e;
          (_, e) = ext_call (umask P 0) e;
          (_, e) = ext_call (chdir P ''/'') e
      in e)"

definition tvd_main ::
  "'w platform \<Rightarrow>
     (('w sys \<Rightarrow> (ioresult \<times> 'w sys) res) \<Rightarrow> ('w sys \<Rightarrow> 'w sys res) \<Rightarrow> 'w sys \<Rightarrow> (int \<times> 'w sys) res) \<Rightarrow>
     (char \<times> string option) list \<Rightarrow> 'w sys \<Rightarrow> (int \<times> 'w sys) res" where
  "tvd_main P epoll_loop args s =
     (let s = wake True s in
      case parse_opts args \<lparr>socket_name = DEFAULT_SOCKET_NAME\<rparr> of
        (res, opts) \<Rightarrow>
          if res > 0 then Inr (EXIT_SUCCESS, wake False s)
          else if res < 0 then Inr (EXIT_FAILURE, wake False s)
          else
            let s = s\<lparr>s_env := make_daemon P (s_env s)\<rparr>
            in andThen (epoll_loop (tvd_init P opts) (tvd_uninit P) s) (\<lambda>(r, s).
                 Inr (if r < 0 then EXIT_FAILURE else EXIT_SUCCESS, s)))"

section \<open>The command line\<close>

text \<open>
  All options are accepted exactly when each is \<open>-a\<close> with a non-empty argument, and then the last
  one names the socket.
\<close>

definition address_option :: "char \<times> string option \<Rightarrow> bool" where
  "address_option = (\<lambda>(c, arg). c = CHR ''a'' \<and> arg \<noteq> None \<and> arg \<noteq> Some [])"

lemma parse_opt_cases:
  "parse_opt c arg opts =
     (if address_option (c, arg) then (0, opts\<lparr>socket_name := the arg\<rparr>)
      else if c = CHR ''h'' then (1, opts) else (-1, opts))"
  by (auto simp: parse_opt_def parse_opt_question_mark_def parse_opt_a_def parse_opt_h_def
      address_option_def split: option.splits)

lemma parse_opts_result:
  "parse_opts args opts =
     (case dropWhile address_option args of
        [] \<Rightarrow> 0 | (c, _) # _ \<Rightarrow> if c = CHR ''h'' then 1 else -1,
      case takeWhile address_option args of
        [] \<Rightarrow> opts | as \<Rightarrow> opts\<lparr>socket_name := the (snd (last as))\<rparr>)"
proof (induction args arbitrary: opts)
  case Nil
  then show ?case by simp
next
  case (Cons a args)
  obtain c arg where a: "a = (c, arg)" by (cases a)
  show ?case
  proof (cases "address_option a")
    case True
    with a Cons.IH [of "opts\<lparr>socket_name := the arg\<rparr>"] show ?thesis
      by (cases "takeWhile address_option args")
        (simp_all add: parse_opt_cases split: list.splits)
  next
    case False
    with a show ?thesis by (simp add: parse_opt_cases)
  qed
qed

lemma make_daemon_env [simp]:
  "live (make_daemon P e) = live e" "next_addr (make_daemon P e) = next_addr e"
  "awake (make_daemon P e) = awake e" "sent (make_daemon P e) = sent e"
  "watched (make_daemon P e) = watched e"
  by (auto simp: make_daemon_def dest!: ext_call_env split: prod.splits)

text \<open>The options of an accepted command line.\<close>

definition given_options :: "(char \<times> string option) list \<Rightarrow> options" where
  "given_options args =
     \<lparr>socket_name = (case args of [] \<Rightarrow> DEFAULT_SOCKET_NAME | _ \<Rightarrow> the (snd (last args)))\<rparr>"

lemma parse_opts_given:
  "list_all address_option args \<Longrightarrow>
     parse_opts args \<lparr>socket_name = DEFAULT_SOCKET_NAME\<rparr> = (0, given_options args)"
  by (cases args) (simp_all add: parse_opts_result given_options_def list_all_iff takeWhile_eq_all_conv
      [THEN iffD2] dropWhile_eq_Nil_conv [THEN iffD2])

end
