(* ===== verification/Tvd_System.thy ===== *)
theory Tvd_System
  imports Dtv_Outcomes Tvd_Main "HOL-Library.Sublist"
begin

text \<open>
  The daemon as a transition system: one step per callback of the epoll loop, per event of
  the HAL, per notification of the vendor functions and per posted task, in any order. What
  holds in every state that can be reached is shown by rule induction.
\<close>

section \<open>Steps\<close>

inductive tvd_step :: "'w platform \<Rightarrow> 'w sys \<Rightarrow> 'w sys \<Rightarrow> bool" for P where
  readable: "fd_io_in P (dtv_impl P) s = Inr (r, s') \<Longrightarrow> tvd_step P s s'"
| writable: "fd_io_out P s = Inr (r, s') \<Longrightarrow> tvd_step P s s'"
| failed: "fd_io_err P s = Inr (r, s') \<Longrightarrow> tvd_step P s s'"
| hung_up: "fd_io_hup P s = Inr (r, s') \<Longrightarrow> tvd_step P s s'"
| connected: "fd_con_out P fd s = Inr (r, s') \<Longrightarrow> sendq (s_io s) = [] \<Longrightarrow> tvd_step P s s'"
| device: "device_init_notify P ev (s_hal s) (s_env s) = Inr (h, e) \<Longrightarrow>
    tvd_step P s (s\<lparr>s_hal := h, s_env := e\<rparr>)"
| task: "tasks s = w # ts \<Longrightarrow> send_ntf_pdu P w (s\<lparr>tasks := ts\<rparr>) = Inr s' \<Longrightarrow> tvd_step P s s'"
| channel: "channel_update_nfy (dtv_callbacks s) = Some Channel_update_nfy_cb \<Longrightarrow>
    channel_update_nfy_cb P st tid ty ch s = Inr s' \<Longrightarrow> tvd_step P s s'"
| scan: "scan_status_nfy (dtv_callbacks s) = Some Scan_status_nfy_cb \<Longrightarrow>
    scan_status_nfy_cb P st tid ty s = Inr s' \<Longrightarrow> tvd_step P s s'"
| event: "event_nfy (dtv_callbacks s) = Some Event_nfy_cb \<Longrightarrow>
    event_nfy_cb P tid ty ch num ps s = Inr s' \<Longrightarrow> tvd_step P s s'"

inductive_cases tvd_stepE: "tvd_step P s s'"

inductive tvd_reach :: "'w platform \<Rightarrow> 'w sys \<Rightarrow> 'w sys \<Rightarrow> bool" for P s where
  here: "tvd_reach P s s"
| more: "tvd_reach P s s1 \<Longrightarrow> tvd_step P s1 s2 \<Longrightarrow> tvd_reach P s s2"

lemma reach_invariant:
  "tvd_reach P s s' \<Longrightarrow> I s \<Longrightarrow> (\<And>a b. tvd_step P a b \<Longrightarrow> I a \<Longrightarrow> I b) \<Longrightarrow> I s'"
  by (induction rule: tvd_reach.induct) blast+

section \<open>What the steps do to the output\<close>

lemma post_ntf_output: "post_ntf P (ok, w) s = Inr s' \<Longrightarrow> sys_out s' = sys_out s"
  by (auto simp: post_ntf_def split: if_splits prod.splits dest!: destroy_wbuf_output ext_call_sent
      simp: sys_out_same_env)

lemma post_ntf_services:
  assumes "post_ntf P r s = Inr s'"
  shows "g_service_handler s' = g_service_handler s" "g_send_pdu s' = g_send_pdu s"
    "dtv_send_pdu s' = dtv_send_pdu s" "dtv_callbacks s' = dtv_callbacks s"
  using assms
  by (auto simp: post_ntf_def services_def split: if_splits prod.splits dest!: on_env_services)

lemma services_ok_post: "post_ntf P r s = Inr s' \<Longrightarrow> services_ok s \<Longrightarrow> services_ok s'"
  using post_ntf_services [of P r s s'] by (auto simp: services_ok_def dtv_callbacks_set_def)

text \<open>A notification ends with the buffer posted or destroyed, or without a buffer.\<close>

definition ntf_result :: "'w platform \<Rightarrow> 'w sys \<Rightarrow> 'w sys \<Rightarrow> bool" where
  "ntf_result P s s' \<longleftrightarrow>
     (\<exists>s1. services s1 = services s \<and> sys_out s1 = sys_out s \<and>
        (s' = s1 \<or> (\<exists>r. post_ntf P r s1 = Inr s')))"

lemma ntf_result_refl [simp]: "ntf_result P s s"
  unfolding ntf_result_def by blast

lemma sys_create_wbuf_out [simp]: "sys_out (snd (sys_create_wbuf P n t c s)) = sys_out s"
  by (rule sys_create_wbuf_output [OF surjective_pairing])

lemma ntf_result_created [simp]: "ntf_result P s (snd (sys_create_wbuf P n t c s))"
  unfolding ntf_result_def
  by (intro exI [of _ "snd (sys_create_wbuf P n t c s)"]) simp

lemma ntf_result_posted:
  assumes "post_ntf P r (snd (sys_create_wbuf P n t c s)) = Inr s'"
  shows "ntf_result P s s'"
  using assms unfolding ntf_result_def
  by (intro exI [of _ "snd (sys_create_wbuf P n t c s)"] conjI disjI2 exI [of _ r]) simp_all

lemma channel_scanned_result: "channel_scanned_cb P tid ty ch s = Inr s' \<Longrightarrow> ntf_result P s s'"
  by (auto simp: channel_scanned_cb_def andThen_Inr_iff case_prod_beta
      split: if_splits option.splits intro: ntf_result_posted)

lemma scanned_complete_result: "scanned_complete_cb P tid ty s = Inr s' \<Longrightarrow> ntf_result P s s'"
  by (auto simp: scanned_complete_cb_def andThen_Inr_iff case_prod_beta
      split: if_splits option.splits intro: ntf_result_posted)

lemma scanned_stopped_result: "scanned_stopped_cb P tid ty s = Inr s' \<Longrightarrow> ntf_result P s s'"
  by (auto simp: scanned_stopped_cb_def andThen_Inr_iff case_prod_beta
      split: if_splits option.splits intro: ntf_result_posted)

lemma eit_broadcasted_result:
  "eit_broadcasted_cb P tid ty ch num ps s = Inr s' \<Longrightarrow> ntf_result P s s'"
  by (auto simp: eit_broadcasted_cb_def andThen_Inr_iff case_prod_beta
      split: if_splits option.splits intro: ntf_result_posted)

lemma ntf_result_output: "ntf_result P s s' \<Longrightarrow> sys_out s' = sys_out s"
  by (auto simp: ntf_result_def dest: post_ntf_output)

lemma ntf_result_ok: "ntf_result P s s' \<Longrightarrow> services_ok s \<Longrightarrow> services_ok s'"
  by (auto simp: ntf_result_def dest: services_ok_same services_ok_post)

lemma notification_result:
  "channel_update_nfy_cb P st tid ty ch s = Inr s' \<Longrightarrow> ntf_result P s s'"
  "scan_status_nfy_cb P st tid ty s = Inr s' \<Longrightarrow> ntf_result P s s'"
  "event_nfy_cb P tid ty ch num ps s = Inr s' \<Longrightarrow> ntf_result P s s'"
  by (auto simp: channel_update_nfy_cb_def scan_status_nfy_cb_def event_nfy_cb_def split: if_splits
      dest: channel_scanned_result scanned_complete_result scanned_stopped_result
        eit_broadcasted_result)

section \<open>Receiving\<close>

lemma wake_out [simp]: "sys_out (wake b s) = sys_out s" "services (wake b s) = services s"
  by (simp_all add: wake_def sys_out_def output_stream_def acquire_wake_lock_def
      release_wake_lock_def)

lemma set_rbuf_out [simp]: "sys_out (set_rbuf b s) = sys_out s" "services (set_rbuf b s) = services s"
  by (simp_all add: set_rbuf_def sys_out_def output_stream_def)

lemma stop_watching_out:
  "stop_watching_input P s = (r, s') \<Longrightarrow> sys_out s' = sys_out s \<and> services s' = services s"
  by (auto simp: stop_watching_input_def Let_def sys_out_def output_stream_def
      split: if_splits prod.splits dest!: add_fd_events_env(4))

text \<open>
  What the receive buffer may hold when \<open>io_state_in\<close> looks for a PDU in it: the octets of one
  \<open>recvmsg\<close> over what was there, and as its length the result of \<open>recvmsg\<close>, or, when that is 0, the
  result of changing the watched events.
\<close>

definition received :: "'w platform \<Rightarrow> rbuf \<Rightarrow> bool" where
  "received P c \<longleftrightarrow>
     (\<exists>fd len w n octets w' b k. recvmsg P fd len w = ((n, octets), w') \<and>
        (if n = 0 then k = 0 \<or> (\<exists>fd ev w w'. add_fd_events_to_epoll_loop P fd ev w = (int k, w'))
         else k = nat n) \<and>
        c = b\<lparr>rb_raw := octets @ drop (length octets) (rb_raw b), rb_len := k\<rparr>)"

text \<open>A received PDU is handled at most once, in a state with the same output and services.\<close>

lemma handle_rbuf_result:
  assumes "handle_rbuf P handle n s = Inr (r, s')"
  shows "(sys_out s' = sys_out s \<and> services s' = services s) \<or>
         (\<exists>s1 s2 b k. get_rbuf s = Inr b \<and> pdu_rbuf_has_pdu P (b\<lparr>rb_len := n\<rparr>) \<and>
            sys_out s1 = sys_out s \<and> services s1 = services s \<and>
            handle (rbuf_pdu P (b\<lparr>rb_len := n\<rparr>)) s1 = Inr (k, s2) \<and>
            sys_out s' = sys_out s2 \<and> services s' = services s2)"
proof -
  obtain b where b: "get_rbuf s = Inr b" using assms by (auto simp: handle_rbuf_def andThen_Inr_iff)
  let ?b = "b\<lparr>rb_len := n\<rparr>"
  show ?thesis
  proof (cases "pdu_rbuf_has_pdu P ?b")
    case True
    with assms b obtain k s2 where "handle (rbuf_pdu P ?b) (set_rbuf ?b s) = Inr (k, s2)"
      "sys_out s' = sys_out s2 \<and> services s' = services s2"
      by (auto simp: handle_rbuf_def andThen_Inr_iff Let_def split: if_splits)
    with True b show ?thesis
      by (intro disjI2 exI [of _ "set_rbuf ?b s"] exI [of _ s2] exI [of _ b]) auto
  next
    case False
    with assms b show ?thesis by (auto simp: handle_rbuf_def Let_def split: if_splits)
  qed
qed

lemma stop_watching_rbuf:
  "stop_watching_input P s = (r, s') \<Longrightarrow> io_rbuf (s_io s') = io_rbuf (s_io s)"
  by (auto simp: stop_watching_input_def Let_def split: if_splits prod.splits)

lemma get_rbuf_field: "get_rbuf s = Inr b \<Longrightarrow> io_rbuf (s_io s) = Some b"
  by (auto simp: get_rbuf_def split: option.splits if_splits)

lemma io_state_in_result:
  assumes "io_state_in P handle s = Inr (r, s')"
  shows "(sys_out s' = sys_out s \<and> services s' = services s) \<or>
         (\<exists>s1 s2 c k. received P c \<and> pdu_rbuf_has_pdu P c \<and>
            sys_out s1 = sys_out s \<and> services s1 = services s \<and>
            handle (rbuf_pdu P c) s1 = Inr (k, s2) \<and> sys_out s' = sys_out s2 \<and> services s' = services s2)"
proof -
  let ?s = "wake True s"
  obtain b where b: "get_rbuf ?s = Inr b"
    using assms by (auto simp: io_state_in_def Let_def andThen_Inr_iff)
  obtain res octets e where e: "ext_call (recvmsg P (io_fd (s_io ?s)) (rb_maxlen b)) (s_env ?s) =
      ((res, octets), e)" by (metis surj_pair)
  define c where "c = b\<lparr>rb_raw := octets @ drop (length octets) (rb_raw b)\<rparr>"
  define s1 where "s1 = set_rbuf c (?s\<lparr>s_env := e\<rparr>)"
  have s1: "sys_out s1 = sys_out s" "services s1 = services s" "io_rbuf (s_io s1) = Some c"
    using ext_call_sent [OF e] by (simp_all add: s1_def sys_out_same_env, simp add: set_rbuf_def)
  obtain res2 s2 where s2: "(if res = 0 then stop_watching_input P s1 else (res, s1)) = (res2, s2)"
    by (metis surj_pair)
  have s2': "sys_out s2 = sys_out s" "services s2 = services s" "io_rbuf (s_io s2) = Some c"
    using s2 s1 stop_watching_out [of P s1 res2 s2] stop_watching_rbuf [of P s1 res2 s2]
    by (auto split: if_splits)
  have run: "io_state_in P handle s =
      (if res < 0 then Inr (-1, wake False s1)
       else if res2 < 0 then Inr (-1, wake False s2)
       else andThen (handle_rbuf P handle (nat res2) s2) (\<lambda>(r, s). Inr (r, wake False s)))"
    unfolding io_state_in_def Let_def b andThen.simps e prod.case c_def [symmetric]
      s1_def [symmetric] s2 ..
  show ?thesis
  proof (cases "res < 0 \<or> res2 < 0")
    case True
    with assms run s1 s2' show ?thesis by (auto split: if_splits)
  next
    case False
    with assms run obtain s3 where 3: "handle_rbuf P handle (nat res2) s2 = Inr (r, s3)"
      "s' = wake False s3" by (auto simp: andThen_Inr_iff)
    have rv: "recvmsg P (io_fd (s_io ?s)) (rb_maxlen b) (world (s_env ?s)) = ((res, octets), world e)"
      using e by (auto simp: ext_call_def split: prod.splits)
    have "if res = 0 then nat res2 = 0 \<or>
        (\<exists>fd ev w w'. add_fd_events_to_epoll_loop P fd ev w = (int (nat res2), w')) else nat res2 = nat res"
      using s2 False
      by (auto simp: stop_watching_input_def add_fd_events_def ext_call_def Let_def
          split: if_splits prod.splits)
    then have rc: "received P (c\<lparr>rb_len := nat res2\<rparr>)"
      unfolding received_def c_def using rv by (intro exI conjI) (assumption, assumption, simp)
    from handle_rbuf_result [OF 3(1)] show ?thesis
    proof
      assume "\<exists>s1 s2a b k. get_rbuf s2 = Inr b \<and> pdu_rbuf_has_pdu P (b\<lparr>rb_len := nat res2\<rparr>) \<and>
            sys_out s1 = sys_out s2 \<and> services s1 = services s2 \<and>
            handle (rbuf_pdu P (b\<lparr>rb_len := nat res2\<rparr>)) s1 = Inr (k, s2a) \<and>
            sys_out s3 = sys_out s2a \<and> services s3 = services s2a"
      then obtain t1 t2 b' k where t: "get_rbuf s2 = Inr b'" "pdu_rbuf_has_pdu P (b'\<lparr>rb_len := nat res2\<rparr>)"
        "sys_out t1 = sys_out s2" "services t1 = services s2"
        "handle (rbuf_pdu P (b'\<lparr>rb_len := nat res2\<rparr>)) t1 = Inr (k, t2)"
        "sys_out s3 = sys_out t2" "services s3 = services t2" by blast
      have "b' = c" using get_rbuf_field [OF t(1)] s2'(3) by simp
      with t rc s2' 3(2) show ?thesis
        by (intro disjI2 exI [of _ t1] exI [of _ t2] exI [of _ "c\<lparr>rb_len := nat res2\<rparr>"] exI [of _ k])
          simp
    qed (use s2' 3(2) in simp)
  qed
qed

lemma send_error_reply_services:
  "send_error_reply P sv err s = Inr s' \<Longrightarrow> services s' = services s"
  by (auto simp: send_error_reply_def andThen_Inr_iff case_prod_beta
      split: option.splits if_splits)

lemma io_handle_pdu_ok:
  assumes "services_ok s" "io_handle_pdu P (dtv_impl P) cmd s = Inr (r, s')"
  shows "services_ok s'"
proof -
  obtain st s1 where 1: "handle_pdu_by_service P cmd
        (service_table P (dtv_impl P) (g_service_handler s)) s = Inr (st, s1)"
    "(if st \<noteq> 0 then andThen (send_error_reply P (pdu_service cmd) (word_of_int st) s1)
        (\<lambda>s. Inr (0, s)) else Inr (0, s1)) = Inr (r, s')"
    using assms(2) by (auto simp: io_handle_pdu_def andThen_Inr_iff)
  have "services_ok s1" using service_command_ok [OF assms(1) 1(1)] .
  with 1(2) show ?thesis
    by (auto simp: andThen_Inr_iff split: if_splits
        dest: send_error_reply_services intro: services_ok_same)
qed

section \<open>The remaining callbacks\<close>

lemma io_state_out_output:
  assumes "io_state_out P io e = Inr (r, io', e')"
  shows "output_stream (io', e') = output_stream (io, e)"
proof -
  obtain q e1 where p: "send_pending P (io_fd io) (sendq io) e = Inr (q, e1)"
    using assms by (auto simp: io_state_out_def io_state_send_pending_wbufs_def andThen_Inr_iff)
  let ?ev = "and (epoll_events io) (not EPOLLOUT)"
  obtain r2 e2 where a: "add_fd_events P (io_fd io) ?ev e1 = (r2, e2)" by (metis surj_pair)
  have "sendq io' = q \<and> sent e' = sent e1"
    using assms p a add_fd_events_env(4) [OF a]
    by (auto simp: io_state_out_def io_state_send_pending_wbufs_def Let_def split: if_splits)
  with send_pending_output [OF p] show ?thesis by (simp add: output_stream_def)
qed

lemma io_state_err_output:
  assumes "io_state_err P io e = Inr (io', e')"
  shows "output_stream (io', e') = output_stream (io, e)"
proof -
  obtain io1 e1 where d: "destroy_io_rbuf io e = Inr (io1, e1)"
    using assms by (auto simp: io_state_err_def andThen_Inr_iff)
  have 1: "sendq io1 = sendq io" "sent e1 = sent e"
    using d by (auto simp: destroy_io_rbuf_def destroy_pdu_rbuf_def res_simps
        split: option.splits if_splits dest: free_ptr_sent)
  obtain r e2 where c: "ext_call (close_fd P (io_fd io1)) (remove_fd P (io_fd io1) e1) = (r, e2)"
    by (metis surj_pair)
  with assms d 1 ext_call_sent [OF c] show ?thesis
    by (auto simp: io_state_err_def output_stream_def)
qed

lemma fd_con_out_output:
  assumes "fd_con_out P fd s = Inr (r, s')" "sendq (s_io s) = []"
  shows "sys_out s' = sys_out s"
proof -
  obtain r1 s1 where 1: "connected_socket P fd s = Inr (r1, s1)"
    using assms(1) by (auto simp: fd_con_out_def andThen_Inr_iff)
  have o1: "sys_out s1 = sys_out s"
    using 1 assms(2)
    by (auto simp: connected_socket_def Let_def create_pdu_rbuf_def fresh_def sys_out_def
        output_stream_def INIT_IO_STATE_def andThen_Inr_iff split: if_splits prod.splits option.splits
        dest!: ext_call_sent)
  obtain r2 s2 where 2: "start_main_loop P s1 = (r2, s2)" by (metis surj_pair)
  have "sys_out s2 = sys_out s1"
    using 2
    by (auto simp: start_main_loop_def Let_def init_registry_def uninit_registry_def sys_out_def
        output_stream_def split: if_splits prod.splits dest!: add_fd_events_env(4))
  with assms(1) 1 2 o1 show ?thesis by (auto simp: fd_con_out_def split: if_splits)
qed

lemma init_registry_ok: "services_ok s \<Longrightarrow> services_ok (snd (init_registry (Some f) s))"
  by (auto simp: services_ok_def init_registry_def)

lemma uninit_registry_ok: "services_ok s \<Longrightarrow> services_ok (uninit_registry s)"
  by (auto simp: services_ok_def uninit_registry_def)

lemma fd_con_out_ok:
  assumes "fd_con_out P fd s = Inr (r, s')" "services_ok s"
  shows "services_ok s'"
proof -
  obtain r1 s1 where 1: "connected_socket P fd s = Inr (r1, s1)"
    using assms(1) by (auto simp: fd_con_out_def andThen_Inr_iff)
  have o1: "services s1 = services s"
    using 1 by (auto simp: connected_socket_def Let_def andThen_Inr_iff
        split: if_splits prod.splits option.splits)
  then have ok1: "services_ok s1" using assms(2) by (rule services_ok_same)
  obtain r2 s2 where 2: "start_main_loop P s1 = (r2, s2)" by (metis surj_pair)
  let ?s = "snd (init_registry (Some Io_send_pdu) s1)"
  obtain r3 e where 3: "add_fd_events P (io_fd (s_io ?s)) (epoll_events (s_io ?s)) (s_env ?s) = (r3, e)"
    by (metis surj_pair)
  have ok3: "services_ok (?s\<lparr>s_env := e\<rparr>)"
    using init_registry_ok [OF ok1] by (rule services_ok_same [rotated]) simp
  have "s2 = ?s\<lparr>s_env := e\<rparr> \<or> s2 = uninit_registry (?s\<lparr>s_env := e\<rparr>)"
    using 2 3 by (auto simp: start_main_loop_def Let_def init_registry_def split: if_splits)
  then have "services_ok s2" using ok3 uninit_registry_ok [OF ok3] by blast
  with assms(1) 1 2 ok1 show ?thesis by (auto simp: fd_con_out_def split: if_splits)
qed

section \<open>Invariants of the daemon\<close>

lemma step_output:
  assumes codec: "pdu_codec P enc" and step: "tvd_step P s s'"
  shows "prefix (sys_out s) (sys_out s')"
  using step
proof (rule tvd_stepE)
  fix r
  assume "fd_io_in P (dtv_impl P) s = Inr (r, s')"
  then obtain k where "io_state_in P (io_handle_pdu P (dtv_impl P)) s = Inr (k, s')"
    by (auto simp: fd_io_in_def andThen_Inr_iff)
  from io_state_in_result [OF this] show ?thesis
  proof
    assume "\<exists>s1 s2 c k. received P c \<and> pdu_rbuf_has_pdu P c \<and>
      sys_out s1 = sys_out s \<and> services s1 = services s \<and>
      io_handle_pdu P (dtv_impl P) (rbuf_pdu P c) s1 = Inr (k, s2) \<and> sys_out s' = sys_out s2 \<and>
      services s' = services s2"
    then show ?thesis
      using dtv_impl_quiet.io_handle_pdu_answers [OF codec] by fastforce
  qed simp
next
  fix r
  assume "fd_io_out P s = Inr (r, s')"
  then show ?thesis
    by (auto simp: fd_io_out_def andThen_Inr_iff sys_out_def dest: io_state_out_output)
next
  fix r
  assume "fd_io_err P s = Inr (r, s')"
  then show ?thesis
    by (auto simp: fd_io_err_def andThen_Inr_iff sys_out_def dest: io_state_err_output)
next
  fix r
  assume "fd_io_hup P s = Inr (r, s')"
  then show ?thesis
    by (auto simp: fd_io_hup_def io_state_hup_err andThen_Inr_iff sys_out_def
        dest: io_state_err_output)
next
  fix fd r
  assume "fd_con_out P fd s = Inr (r, s')" "sendq (s_io s) = []"
  then show ?thesis by (simp add: fd_con_out_output)
next
  fix ev h e
  assume "s' = s\<lparr>s_hal := h, s_env := e\<rparr>" "device_init_notify P ev (s_hal s) (s_env s) = Inr (h, e)"
  then show ?thesis by (auto simp: sys_out_same_env dest: notify_sent)
next
  fix w ts
  assume "tasks s = w # ts" "send_ntf_pdu P w (s\<lparr>tasks := ts\<rparr>) = Inr s'"
  then show ?thesis
    by (auto simp: send_ntf_pdu_def split: option.splits dest: call_send_output)
qed (auto dest!: notification_result ntf_result_output)

lemma step_services_ok:
  assumes step: "tvd_step P s s'" and ok: "services_ok s"
  shows "services_ok s'"
  using step
proof (rule tvd_stepE)
  fix r
  assume "fd_io_in P (dtv_impl P) s = Inr (r, s')"
  then obtain k where "io_state_in P (io_handle_pdu P (dtv_impl P)) s = Inr (k, s')"
    by (auto simp: fd_io_in_def andThen_Inr_iff)
  from io_state_in_result [OF this] ok show ?thesis
    by (auto intro: services_ok_same dest: services_ok_same io_handle_pdu_ok)
next
  fix r
  assume "fd_io_out P s = Inr (r, s')"
  then have "services s' = services s" by (auto simp: fd_io_out_def andThen_Inr_iff)
  then show ?thesis using ok by (rule services_ok_same)
next
  fix r
  assume "fd_io_err P s = Inr (r, s')"
  then have "services s' = services s" by (auto simp: fd_io_err_def andThen_Inr_iff)
  then show ?thesis using ok by (rule services_ok_same)
next
  fix r
  assume "fd_io_hup P s = Inr (r, s')"
  then have "services s' = services s" by (auto simp: fd_io_hup_def andThen_Inr_iff)
  then show ?thesis using ok by (rule services_ok_same)
next
  fix fd r
  assume "fd_con_out P fd s = Inr (r, s')"
  then show ?thesis using ok by (rule fd_con_out_ok)
next
  fix h e
  assume "s' = s\<lparr>s_hal := h, s_env := e\<rparr>"
  then show ?thesis using ok by (auto intro: services_ok_same)
next
  fix w ts
  assume t: "tasks s = w # ts" "send_ntf_pdu P w (s\<lparr>tasks := ts\<rparr>) = Inr s'"
  have "services_ok (s\<lparr>tasks := ts\<rparr>)" using ok by (simp add: services_ok_def)
  with t(2) show ?thesis
    by (auto simp: send_ntf_pdu_def split: option.splits dest: call_send_services
        intro: services_ok_same)
qed (use ok in \<open>auto dest!: notification_result intro: ntf_result_ok\<close>)

lemma reach_invariants:
  assumes "tvd_reach P s s'" and codec: "pdu_codec P enc" and ok: "services_ok s"
  shows "services_ok s' \<and> prefix (sys_out s) (sys_out s')"
  using assms(1)
proof (induction rule: tvd_reach.induct)
  case here
  with ok show ?case by simp
next
  case (more s1 s2)
  then show ?case
    using step_services_ok step_output [OF codec] by (blast intro: prefix_order.trans)
qed

section \<open>Properties\<close>

text \<open>
  C2: In every state the daemon can reach, through any interleaving of commands, socket events, HAL
  events, notifications and posted tasks, the services are consistent (each handler is
  installed under its own id and has a send function behind it), and the output is an
  extension of the output at the start: a PDU once queued is never withdrawn, changed or
  reordered.
\<close>

theorem reachable_states_consistent:
  assumes "tvd_reach P s s'" and "pdu_codec P enc" and "services_ok s"
  shows "services_ok s' \<and> prefix (sys_out s) (sys_out s')"
  using assms by (rule reach_invariants)

theorem reachable_states_consistent_witness:
  "\<exists>s'. tvd_reach sample_platform dtv_sys s' \<and> s_io s' \<noteq> s_io dtv_sys \<and> services_ok s' \<and>
     prefix (sys_out dtv_sys) (sys_out s')"
proof -
  obtain r s' where s': "fd_io_out sample_platform dtv_sys = Inr (r, s')" "sendq (s_io s') = []"
    by (simp add: fd_io_out_def io_state_out_def io_state_send_pending_wbufs_def destroy_pdu_wbuf_def
        add_fd_events_def EPOLLOUT_def)
  then have r: "tvd_reach sample_platform dtv_sys s'"
    by (blast intro: tvd_reach.intros tvd_step.writable)
  have "services_ok dtv_sys" by (simp add: services_ok_def service_id_defs)
  from reachable_states_consistent [OF r sample_codec this] r s'(2) show ?thesis by auto
qed

end
