(* ===== verification/Tvd_Run.thy ===== *)
theory Tvd_Run
  imports Tvd_System
begin

text \<open>
  Whole runs of the daemon, from its start through any sequence of events. The callbacks are
  called as the epoll loop calls them, through the table of function pointers that io.c keeps
  for the connection; the result is that no run faults, and that the invariant of the state
  and the order of the output survive every event.
\<close>

section \<open>The start\<close>

text \<open>The static variables before \<open>main\<close>; a \<open>static\<close> array starts out as zeros.\<close>

definition hal_start :: hal_state where
  "hal_start = \<lparr>hal_module = False, hal_device = False, device_num = 0,
     device_list = replicate MAX_DEVICE_NUM \<lparr>device_id = 0, device_type = 0, acting_stream_id = 0\<rparr>\<rparr>"

definition tvd_start :: "'w \<Rightarrow> 'w sys" where
  "tvd_start w =
     \<lparr>s_env = \<lparr>live = {}, next_addr = 1, awake = False, sent = [], watched = \<lambda>_. None, world = w\<rparr>,
      s_hal = hal_start, s_io = IO_STATE_INITIALIZER, dtv_callbacks = no_callbacks,
      dtv_send_pdu = None, g_send_pdu = None, g_service_handler = \<lambda>_. None, tasks = []\<rparr>"

section \<open>Events\<close>

text \<open>
  \<open>Socket ev fd\<close> is an event of libfdio's loop for the connection's descriptor \<open>fd\<close>; the others
  come from the HAL, from the vendor's scanner and from the task queue. The vendor's notifications of a
  channel and of programs are not among them: each appends a channel, which succeeds nowhere, so that
  it posts nothing, and ends in the mismatched call of \<open>append_to_pdu\<close> once its buffer holds the id.
\<close>

datatype fd_event = Ev_in | Ev_out | Ev_err | Ev_hup

fun fd_func :: "fd_event \<Rightarrow> fd_events \<Rightarrow> fd_callback option" where
  "fd_func Ev_in f = epollin f"
| "fd_func Ev_out f = epollout f"
| "fd_func Ev_err f = epollerr f"
| "fd_func Ev_hup f = epollhup f"

fun call_fd_func ::
  "'w platform \<Rightarrow> fd_callback \<Rightarrow> int \<Rightarrow> 'w sys \<Rightarrow> (ioresult \<times> 'w sys) res" where
  "call_fd_func P Fd_con_out fd s = fd_con_out P fd s"
| "call_fd_func P Fd_con_err fd s = fd_con_err s"
| "call_fd_func P Fd_io_in fd s = fd_io_in P (dtv_impl P) s"
| "call_fd_func P Fd_io_out fd s = fd_io_out P s"
| "call_fd_func P Fd_io_err fd s = fd_io_err P s"
| "call_fd_func P Fd_io_hup fd s = fd_io_hup P s"

text \<open>
  A descriptor that is not in the loop has no events: input needs the receive buffer, which is
  there from before the descriptor is watched until it is removed, and the connection is
  established once, while nothing is queued.
\<close>

fun fd_enabled :: "fd_callback \<Rightarrow> 'w sys \<Rightarrow> bool" where
  "fd_enabled Fd_io_in s = (io_rbuf (s_io s) \<noteq> None)"
| "fd_enabled Fd_con_out s = (sendq (s_io s) = [])"
| "fd_enabled _ s = True"

datatype event =
    Socket fd_event int
  | Device tv_event
  | Scan u8 "string ptr" u8
  | Task

definition scan_source :: "string ptr \<Rightarrow> 'w sys \<Rightarrow> bool" where
  "scan_source tid s \<longleftrightarrow> scan_status_nfy (dtv_callbacks s) = Some Scan_status_nfy_cb \<and>
      (tid = Null \<or> cstring (live (s_env s)) tid)"

fun daemon_step :: "'w platform \<Rightarrow> event \<Rightarrow> 'w sys \<Rightarrow> 'w sys res" where
  "daemon_step P (Socket ev fd) s =
     (case epoll_funcs (s_io s) of
        Ptr _ funcs \<Rightarrow>
          (case fd_func ev funcs of
             None \<Rightarrow> Inr s
           | Some f \<Rightarrow> if fd_enabled f s then andThen (call_fd_func P f fd s) (\<lambda>(_, s). Inr s)
                       else Inr s)
      | _ \<Rightarrow> Inr s)"
| "daemon_step P (Device ev) s =
     (if hal_device (s_hal s)
      then andThen (device_init_notify P ev (s_hal s) (s_env s))
             (\<lambda>(h, e). Inr (s\<lparr>s_hal := h, s_env := e\<rparr>))
      else Inr s)"
| "daemon_step P (Scan st tid ty) s =
     (if scan_source tid s then scan_status_nfy_cb P st tid ty s else Inr s)"
| "daemon_step P Task s =
     (case tasks s of [] \<Rightarrow> Inr s | w # ts \<Rightarrow> send_ntf_pdu P w (s\<lparr>tasks := ts\<rparr>))"

text \<open>The size of a notification does not wrap around for a string that fits into memory.\<close>

fun legal_event :: "'w platform \<Rightarrow> event \<Rightarrow> bool" where
  "legal_event P (Scan st tid ty) = (int (length (cstr tid)) + 2 < 2 ^ (8 * ptr_size P))"
| "legal_event P _ = True"

text \<open>
  The client avoids the three commands of the DTV service that fault with the functions of
  dtv.c.
\<close>

definition benign_client :: "'w platform \<Rightarrow> bool" where
  "benign_client P \<longleftrightarrow>
     (\<forall>c. received P c \<longrightarrow> pdu_rbuf_has_pdu P c \<longrightarrow> pdu_service (rbuf_pdu P c) = SERVICE_DTV \<longrightarrow>
        rejected_opcode (pdu_opcode (rbuf_pdu P c)))"

section \<open>Runs are runs of the transition system\<close>

lemma daemon_step_reach:
  assumes "daemon_step P ev s = Inr s'" and "tvd_reach P s0 s"
  shows "tvd_reach P s0 s'"
proof -
  have "s' = s \<or> tvd_step P s s'"
  proof (cases ev)
    case (Socket e fd)
    show ?thesis
    proof (cases "epoll_funcs (s_io s)")
      case (Ptr a funcs)
      show ?thesis
      proof (cases "fd_func e funcs")
        case (Some f)
        with assms(1) Socket Ptr show ?thesis
          by (cases f) (auto simp: fd_con_err_def andThen_Inr_iff split: if_splits intro: tvd_step.intros)
      qed (use assms(1) Socket Ptr in simp)
    qed (use assms(1) Socket in simp_all)
  next
    case (Device e)
    with assms(1) show ?thesis
      by (auto simp: andThen_Inr_iff split: if_splits intro: tvd_step.device)
  next
    case (Scan st tid ty)
    with assms(1) show ?thesis
      by (auto simp: scan_source_def split: if_splits intro: tvd_step.scan)
  next
    case Task
    with assms(1) show ?thesis by (auto split: list.splits intro: tvd_step.task)
  qed
  with assms(2) show ?thesis by (auto intro: tvd_reach.more)
qed

lemma daemon_run_reach:
  "run_steps (daemon_step P) evs s = Inr s' \<Longrightarrow> tvd_reach P s0 s \<Longrightarrow> tvd_reach P s0 s'"
proof (induction evs arbitrary: s)
  case (Cons ev evs)
  then show ?case by (auto simp: andThen_Inr_iff dest: daemon_step_reach)
qed simp

section \<open>No event faults\<close>

text \<open>
  An event leaves the invariant, unless it ends in the deliberate abort of \<open>send_error_reply\<close>.
\<close>

definition survives :: "'w platform \<Rightarrow> 'w sys res \<Rightarrow> bool" where
  "survives P r \<longleftrightarrow> r = Inl Abort_call \<or> (\<exists>s'. r = Inr s' \<and> sys_ok P s')"

lemma survives_simps [simp]:
  "survives P (Inr s) = sys_ok P s" "survives P (Inl f) = (f = Abort_call)"
  by (simp_all add: survives_def)

text \<open>Changes of the state that concern neither memory nor services.\<close>

lemma sys_ok_frame:
  assumes "sys_ok P s" "s_hal s' = s_hal s" "services s' = services s"
    "live (s_env s') = live (s_env s)" "next_addr (s_env s') = next_addr (s_env s)"
    "sendq (s_io s') = sendq (s_io s)" "epoll_funcs (s_io s') = epoll_funcs (s_io s)"
    "map_option rb_addr (io_rbuf (s_io s')) = map_option rb_addr (io_rbuf (s_io s))"
  shows "sys_ok P s'"
proof -
  have rb: "\<exists>c. io_rbuf (s_io s) = Some c \<and> rb_addr c = rb_addr b" if "io_rbuf (s_io s') = Some b" for b
    using assms(8) that by (cases "io_rbuf (s_io s)") auto
  have held: "held s' = held s"
    using assms(7) services_tasks [OF assms(3)] by (simp add: held_def)
  have parts: "conn_ok (s_io s, s_env s)" "held_ok s" "services_ok s'"
    using assms(1) services_ok_same [OF assms(3)] by (simp_all add: sys_ok_def)
  have "conn_ok (s_io s', s_env s')"
    using parts(1) assms(4-6) by (auto simp: conn_ok_def env_wf_def dest!: rb)
  moreover have "held_ok s'"
    using parts(2) assms(4,6,7) held by (auto simp: held_ok_def apart_def dest!: rb)
  ultimately show ?thesis using parts(3) assms(1,2) by (simp add: sys_ok_def)
qed

lemma wake_ok [simp]: "sys_ok P s \<Longrightarrow> sys_ok P (wake b s)"
  by (rule sys_ok_frame) (simp_all add: wake_def acquire_wake_lock_def release_wake_lock_def)

lemma set_rbuf_ok:
  "sys_ok P s \<Longrightarrow> io_rbuf (s_io s) = Some b \<Longrightarrow> rb_addr c = rb_addr b \<Longrightarrow> sys_ok P (set_rbuf c s)"
  by (erule sys_ok_frame) (simp_all add: set_rbuf_def)

lemma get_rbuf_ok:
  assumes "sys_ok P s" "io_rbuf (s_io s) = Some b" shows "get_rbuf s = Inr b"
  using assms by (simp add: get_rbuf_def sys_ok_def conn_ok_def)

lemma ext_call_ok:
  assumes "sys_ok P s" "ext_call f (s_env s) = (r, e)"
  shows "sys_ok P (s\<lparr>s_env := e\<rparr>)"
  using assms(1) ext_call_env [OF assms(2)] by (auto intro: sys_ok_frame)

lemma add_fd_events_ok:
  assumes "sys_ok P s" "add_fd_events P fd ev (s_env s) = (r, e)"
  shows "sys_ok P (s\<lparr>s_io := (s_io s)\<lparr>epoll_events := v\<rparr>, s_env := e\<rparr>)" "sys_ok P (s\<lparr>s_env := e\<rparr>)"
  using assms(1) add_fd_events_env [OF assms(2)] by (auto intro: sys_ok_frame)

lemma stop_watching_ok:
  assumes ok: "sys_ok P s" and run: "stop_watching_input P s = (r, s')"
  shows "sys_ok P s'" "io_rbuf (s_io s') = io_rbuf (s_io s)"
proof -
  let ?ev = "and (epoll_events (s_io s)) (not EPOLLIN)"
  obtain r1 e where a: "add_fd_events P (io_fd (s_io s)) ?ev (s_env s) = (r1, e)" by (metis surj_pair)
  have "sys_ok P (s\<lparr>s_io := (s_io s)\<lparr>epoll_events := 0\<rparr>, s_env := remove_fd P (io_fd (s_io s)) (s_env s)\<rparr>)"
    using ok by (auto intro: sys_ok_frame)
  with run a add_fd_events_ok(1) [OF ok a] show "sys_ok P s'" "io_rbuf (s_io s') = io_rbuf (s_io s)"
    by (auto simp: stop_watching_input_def Let_def split: if_splits)
qed

subsection \<open>Input\<close>

lemma handle_rbuf_survives:
  assumes ok: "sys_ok P s" and b: "io_rbuf (s_io s) = Some b"
    and rc: "received P (b\<lparr>rb_len := n\<rparr>)"
    and handle: "\<And>s c. sys_ok P s \<Longrightarrow> received P c \<Longrightarrow> pdu_rbuf_has_pdu P c \<Longrightarrow>
        handle (rbuf_pdu P c) s = Inl Abort_call \<or>
        (\<exists>s'. handle (rbuf_pdu P c) s = Inr (0, s') \<and> sys_ok P s' \<and>
           io_rbuf (s_io s') = io_rbuf (s_io s))"
  shows "handle_rbuf P handle n s = Inl Abort_call \<or>
         (\<exists>r s'. handle_rbuf P handle n s = Inr (r, s') \<and> sys_ok P s')"
proof -
  let ?b = "b\<lparr>rb_len := n\<rparr>"
  let ?s = "set_rbuf ?b s"
  have ok1: "sys_ok P ?s" using set_rbuf_ok [OF ok b] by simp
  have rb1: "io_rbuf (s_io ?s) = Some ?b" by (simp add: set_rbuf_def)
  note g = get_rbuf_ok [OF ok b]
  show ?thesis
  proof (cases "pdu_rbuf_has_pdu P ?b")
    case False
    with g ok1 show ?thesis by (simp add: handle_rbuf_def Let_def)
  next
    case True
    from handle [OF ok1 rc True] show ?thesis
    proof
      assume "handle (rbuf_pdu P ?b) ?s = Inl Abort_call"
      with True g show ?thesis by (simp add: handle_rbuf_def Let_def)
    next
      assume "\<exists>s'. handle (rbuf_pdu P ?b) ?s = Inr (0, s') \<and> sys_ok P s' \<and>
          io_rbuf (s_io s') = io_rbuf (s_io ?s)"
      then obtain s2 where s2: "handle (rbuf_pdu P ?b) ?s = Inr (0, s2)" "sys_ok P s2"
        "io_rbuf (s_io s2) = Some ?b" using rb1 by auto
      with True g get_rbuf_ok [OF s2(2,3)] set_rbuf_ok [OF s2(2,3), of "?b\<lparr>rb_len := 0\<rparr>"]
      show ?thesis by (simp add: handle_rbuf_def Let_def)
    qed
  qed
qed

lemma io_state_in_survives:
  assumes ok: "sys_ok P s" and b: "io_rbuf (s_io s) = Some b"
    and handle: "\<And>s c. sys_ok P s \<Longrightarrow> received P c \<Longrightarrow> pdu_rbuf_has_pdu P c \<Longrightarrow>
        handle (rbuf_pdu P c) s = Inl Abort_call \<or>
        (\<exists>s'. handle (rbuf_pdu P c) s = Inr (0, s') \<and> sys_ok P s' \<and>
           io_rbuf (s_io s') = io_rbuf (s_io s))"
  shows "io_state_in P handle s = Inl Abort_call \<or>
         (\<exists>r s'. io_state_in P handle s = Inr (r, s') \<and> sys_ok P s')"
proof -
  let ?s = "wake True s"
  have ok0: "sys_ok P ?s" using ok by simp
  have b0: "io_rbuf (s_io ?s) = Some b" using b by (simp add: wake_def)
  note g = get_rbuf_ok [OF ok0 b0]
  obtain res octets e where e: "ext_call (recvmsg P (io_fd (s_io ?s)) (rb_maxlen b)) (s_env ?s) =
      ((res, octets), e)" by (metis surj_pair)
  define c where "c = b\<lparr>rb_raw := octets @ drop (length octets) (rb_raw b)\<rparr>"
  define s1 where "s1 = set_rbuf c (?s\<lparr>s_env := e\<rparr>)"
  have ok1: "sys_ok P s1"
    unfolding s1_def c_def using b0 by (intro set_rbuf_ok [OF ext_call_ok [OF ok0 e]]) simp_all
  have b1: "io_rbuf (s_io s1) = Some c" by (simp add: s1_def set_rbuf_def)
  obtain res2 s2 where s2: "(if res = 0 then stop_watching_input P s1 else (res, s1)) = (res2, s2)"
    by (metis surj_pair)
  have ok2: "sys_ok P s2 \<and> io_rbuf (s_io s2) = Some c"
    using s2 ok1 b1 stop_watching_ok [OF ok1, of res2 s2] by (auto split: if_splits)
  then have ok2: "sys_ok P s2" and b2: "io_rbuf (s_io s2) = Some c" by simp_all
  have run: "io_state_in P handle s =
      (if res < 0 then Inr (-1, wake False s1)
       else if res2 < 0 then Inr (-1, wake False s2)
       else andThen (handle_rbuf P handle (nat res2) s2) (\<lambda>(r, s). Inr (r, wake False s)))"
    unfolding io_state_in_def Let_def g andThen.simps e prod.case c_def [symmetric]
      s1_def [symmetric] s2 ..
  show ?thesis
  proof (cases "res < 0 \<or> res2 < 0")
    case True
    with run ok1 ok2 show ?thesis by auto
  next
    case False
    have rv: "recvmsg P (io_fd (s_io ?s)) (rb_maxlen b) (world (s_env ?s)) = ((res, octets), world e)"
      using e by (auto simp: ext_call_def split: prod.splits)
    have "if res = 0 then nat res2 = 0 \<or>
        (\<exists>fd ev w w'. add_fd_events_to_epoll_loop P fd ev w = (int (nat res2), w')) else nat res2 = nat res"
      using s2 False
      by (auto simp: stop_watching_input_def add_fd_events_def ext_call_def Let_def
          split: if_splits prod.splits)
    then have "received P (c\<lparr>rb_len := nat res2\<rparr>)"
      unfolding received_def c_def using rv by (intro exI conjI) (assumption, assumption, simp)
    from handle_rbuf_survives [of P s2 c "nat res2" handle, OF ok2 b2 this handle] run False
    show ?thesis by auto
  qed
qed

lemma fd_io_in_survives:
  assumes ok: "sys_ok P s" and codec: "pdu_codec P enc" and tabs: "PDU_MAX_NUM_SERVICES P = 256"
    and client: "benign_client P" and b: "io_rbuf (s_io s) \<noteq> None"
  shows "survives P (andThen (fd_io_in P (dtv_impl P) s) (\<lambda>(_, s). Inr s))"
proof -
  have handle: "io_handle_pdu P (dtv_impl P) (rbuf_pdu P c) s = Inl Abort_call \<or>
      (\<exists>s'. io_handle_pdu P (dtv_impl P) (rbuf_pdu P c) s = Inr (0, s') \<and> sys_ok P s' \<and>
         io_rbuf (s_io s') = io_rbuf (s_io s))"
    if ok: "sys_ok P s" and c: "received P c" "pdu_rbuf_has_pdu P c" for s c
  proof (rule io_handle_pdu_total [OF ok codec tabs])
    have "services_ok s" using ok by (simp add: sys_ok_def)
    then show "benign s (rbuf_pdu P c)"
      using client c by (auto simp: benign_def benign_client_def services_ok_def)
  qed
  obtain c where "io_rbuf (s_io s) = Some c" using b by auto
  from io_state_in_survives [of P s c "io_handle_pdu P (dtv_impl P)", OF ok this handle] show ?thesis by (auto simp: fd_io_in_def)
qed

subsection \<open>Output, errors and hang-ups\<close>

lemma fd_io_out_survives:
  assumes ok: "sys_ok P s"
  shows "survives P (andThen (fd_io_out P s) (\<lambda>(_, s). Inr s))"
proof -
  have conn: "conn_ok (s_io s, s_env s)" and held: "held_ok s" using ok by (simp_all add: sys_ok_def)
  obtain r io e where r: "io_state_out P (s_io s) (s_env s) = Inr (r, io, e)" "conn_ok (io, e)"
    "same_conn (s_io s, s_env s) (io, e)" using io_state_out_total [OF conn, of P] by blast
  let ?s = "s\<lparr>s_io := io, s_env := e\<rparr>"
  have "held_ok ?s"
  proof (rule held_ok_shrunk [OF held])
    show "held ?s = held s" "io_rbuf (s_io ?s) = io_rbuf (s_io s)"
      "epoll_funcs (s_io ?s) = epoll_funcs (s_io s)"
      "wb_addr ` set (sendq (s_io ?s)) \<subseteq> wb_addr ` set (sendq (s_io s))"
      "live (s_env s) - live (s_env ?s) \<subseteq> wb_addr ` set (sendq (s_io s))"
      using r(3) by (auto simp: same_conn_def held_def)
    show "set (held s) \<inter> wb_addr ` set (sendq (s_io s)) = {}"
      using held by (simp add: held_ok_def apart_def)
  qed
  then have "sys_ok P ?s" using ok r(2) services_ok_same [of ?s s] by (simp add: sys_ok_def)
  with r(1) show ?thesis by (simp add: fd_io_out_def)
qed

lemma io_state_err_ok:
  assumes ok: "sys_ok P s"
  shows "\<exists>io e. io_state_err P (s_io s) (s_env s) = Inr (io, e) \<and> sys_ok P (s\<lparr>s_io := io, s_env := e\<rparr>)"
proof -
  let ?io = "(s_io s)\<lparr>io_rbuf := None\<rparr>"
  have conn: "conn_ok (s_io s, s_env s)" and held: "held_ok s" using ok by (simp_all add: sys_ok_def)
  define e1 where "e1 = (s_env s)\<lparr>live := live (s_env s) - set_option (map_option rb_addr (io_rbuf (s_io s)))\<rparr>"
  have d: "destroy_io_rbuf (s_io s) (s_env s) = Inr (?io, e1)"
    using conn by (cases "io_rbuf (s_io s)")
      (auto simp: destroy_io_rbuf_def destroy_pdu_rbuf_def conn_ok_def e1_def)
  have "conn_ok (?io, e1)"
    using conn by (auto simp: conn_ok_def queue_ok_def env_wf_def e1_def)
  moreover have "held_ok (s\<lparr>s_io := ?io, s_env := e1\<rparr>)"
    using held by (auto simp: held_ok_def held_def apart_def e1_def)
  ultimately have ok1: "sys_ok P (s\<lparr>s_io := ?io, s_env := e1\<rparr>)"
    using ok services_ok_same [of "s\<lparr>s_io := ?io, s_env := e1\<rparr>" s] by (simp add: sys_ok_def)
  obtain r e2 where c: "ext_call (close_fd P (io_fd ?io)) (remove_fd P (io_fd ?io) e1) = (r, e2)"
    by (metis surj_pair)
  have "sys_ok P (s\<lparr>s_io := ?io\<lparr>epoll_events := 0, io_fd := -1\<rparr>, s_env := e2\<rparr>)"
    using ok1 ext_call_env [OF c] by (auto intro: sys_ok_frame)
  then show ?thesis using d c by (simp add: io_state_err_def)
qed

lemma fd_io_err_survives:
  assumes "sys_ok P s"
  shows "survives P (andThen (fd_io_err P s) (\<lambda>(_, s). Inr s))"
    "survives P (andThen (fd_io_hup P s) (\<lambda>(_, s). Inr s))"
  using io_state_err_ok [OF assms]
  by (auto simp: fd_io_err_def fd_io_hup_def io_state_hup_err)

subsection \<open>Devices, tasks and notifications\<close>

lemma device_survives:
  assumes ok: "sys_ok P s"
  shows "survives P (daemon_step P (Device ev) s)"
proof (cases "hal_device (s_hal s)")
  case True
  have wf: "hal_wf P (s_hal s)" using ok by (simp add: sys_ok_def)
  obtain h e where r: "device_init_notify P ev (s_hal s) (s_env s) = Inr (h, e)" "hal_wf P h"
    using notify_refines [OF wf True, of ev "s_env s"] by (auto simp: notify_refined_def)
  have "sys_ok P (s\<lparr>s_env := e\<rparr>)" using sys_ok_world [OF ok notify_world [OF wf True r(1)]] .
  then have "sys_ok P (s\<lparr>s_hal := h, s_env := e\<rparr>)"
    using r(2) by (simp add: sys_ok_def services_ok_def held_ok_def held_def apart_def)
  with r(1) True show ?thesis by simp
qed (use ok in simp)

lemma task_survives:
  assumes ok: "sys_ok P s"
  shows "survives P (daemon_step P Task s)"
proof (cases "tasks s")
  case (Cons w ts)
  let ?s = "s\<lparr>tasks := ts\<rparr>"
  have parts: "conn_ok (s_io s, s_env s)" "hal_wf P (s_hal s)" "services_ok s" "held_ok s"
    using ok by (simp_all add: sys_ok_def)
  have h: "held s = ptr_addrs (epoll_funcs (s_io s)) @ wb_addr w # map wb_addr ts"
    using Cons by (simp add: held_def)
  have h': "held ?s = ptr_addrs (epoll_funcs (s_io s)) @ map wb_addr ts" by (simp add: held_def)
  have "held_ok ?s" using parts(4) by (auto simp: held_ok_def h h' apart_def)
  then have ok': "sys_ok P ?s" using parts by (simp add: sys_ok_def services_ok_def)
  have "postable w ?s" using parts(4) by (auto simp: held_ok_def h h' apart_def postable_def sendable_def)
  from send_total [OF ok' this, of "dtv_send_pdu s"] ok' Cons show ?thesis
    by (cases "dtv_send_pdu s") (auto simp: send_ntf_pdu_def)
qed (use ok in simp)

lemma post_ntf_survives:
  assumes ok: "sys_ok P s" and w: "postable w s"
  shows "survives P (post_ntf P (k, w) s)"
proof -
  obtain r e where c: "ext_call (run_task P w) (s_env s) = (r, e)" by (metis surj_pair)
  let ?s = "s\<lparr>s_env := e\<rparr>"
  have ok1: "sys_ok P ?s" using ext_call_ok [OF ok c] .
  have w1: "postable w ?s" using ext_call_world [OF c] by (intro postable_world [OF w]) simp_all
  have held: "held (?s\<lparr>tasks := tasks s @ [w]\<rparr>) = held ?s @ [wb_addr w]" by (simp add: held_def)
  have "held_ok ?s" using ok1 by (simp add: sys_ok_def)
  then have "held_ok (?s\<lparr>tasks := tasks s @ [w]\<rparr>)"
    using w1 by (auto simp: held_ok_def held apart_def postable_def sendable_def)
  then have "sys_ok P (?s\<lparr>tasks := tasks s @ [w]\<rparr>)" using ok1 by (simp add: sys_ok_def services_ok_def)
  then show ?thesis
    using destroy_postable [OF w ok] destroy_postable [OF w1 ok1] c
    by (auto simp: post_ntf_def)
qed

lemma scan_survives:
  assumes ok: "sys_ok P s" and codec: "pdu_codec P enc" and legal: "legal_event P (Scan st tid ty)"
  shows "survives P (daemon_step P (Scan st tid ty) s)"
proof (cases "scan_source tid s \<and> tid \<noteq> Null")
  case True
  then have tid: "cstring (live (s_env s)) tid" by (auto simp: scan_source_def)
  have size: "ntf_size P (cstr tid) 0 = length (cstr tid) + 2"
  proof -
    have "to_size P (int (length (cstr tid)) + 2) = length (cstr tid) + 2"
      using legal by (subst to_size_id) simp_all
    then show ?thesis by (simp add: ntf_size_def add.commute)
  qed
  obtain w s1 where c: "sys_create_wbuf P (length (cstr tid) + 2) 0 False s = (w, s1)"
    by (metis surj_pair)
  have conn: "conn_ok (s_io s, s_env s)" using ok by (simp add: sys_ok_def)
  note c1 = conn_create_wbuf [OF c conn] sys_create_wbuf_ok [OF c ok]
  have posted: "survives P (case w of None \<Rightarrow> Inr s1 | Some w \<Rightarrow>
      andThen (wbuf_append P [Arg0 (cstr tid), ArgC ty] (init_pdu SERVICE_DTV opc w)) (\<lambda>r. post_ntf P r s1))"
    for opc
  proof (cases w)
    case (Some b)
    let ?b = "init_pdu SERVICE_DTV opc b"
    have "wbuf_used ?b + args_size [Arg0 (cstr tid), ArgC ty] \<le> wb_size ?b"
      using c1(7) [OF Some] by simp
    from writesE [OF writes_append [OF codec] this] obtain k pre where
      ap: "wbuf_append P [Arg0 (cstr tid), ArgC ty] ?b = Inr (k, wbuf_extend enc pre ?b)" by blast
    have "postable (wbuf_extend enc pre ?b) s1" using c1(9) [OF Some] by (rule postable_addr) simp
    from post_ntf_survives [OF c1(8) this] Some ap show ?thesis by simp
  qed (use c1(8) in simp)
  show ?thesis
    using True posted cstring_load [OF tid] size c ok
    by (simp add: scan_status_nfy_cb_def scanned_complete_cb_def scanned_stopped_cb_def)
next
  case False
  then show ?thesis
    using ok by (auto simp: scan_status_nfy_cb_def scanned_complete_cb_def scanned_stopped_cb_def)
qed

subsection \<open>Connecting\<close>

lemma connected_socket_ok:
  assumes ok: "sys_ok P s" and funcs: "epoll_funcs (s_io s) = Ptr a f"
  shows "\<exists>r s'. connected_socket P fd s = Inr (r, s') \<and> sys_ok P s'"
proof -
  let ?s = "s\<lparr>s_env := remove_fd P fd (s_env s)\<rparr>"
  have ok1: "sys_ok P ?s" using ok by (auto intro: sys_ok_frame)
  obtain b e where c: "create_pdu_rbuf P (PDU_MAX_DATA_LENGTH P) (s_env ?s) = (b, e)" by (metis surj_pair)
  obtain k e1 where x: "ext_call (create_pdu_rbuf_ok P (PDU_MAX_DATA_LENGTH P)) (s_env ?s) = (k, e1)"
    by (metis surj_pair)
  note e1 = ext_call_env [OF x]
  consider "io_rbuf (s_io s) \<noteq> None" | "io_rbuf (s_io s) = None" "b = None"
    | rb where "io_rbuf (s_io s) = None" "b = Some rb" by (cases b) auto
  then show ?thesis
  proof cases
    case 1
    with ok1 show ?thesis by (auto simp: connected_socket_def)
  next
    case 2
    then have "e = e1" using c x by (auto simp: create_pdu_rbuf_def fresh_def split: if_splits)
    then have "sys_ok P (?s\<lparr>s_env := e\<rparr>)" using ext_call_ok [OF ok1 x] by simp
    with 2 c show ?thesis by (auto simp: connected_socket_def)
  next
    case 3
    let ?f = "\<lparr>epollin = Some Fd_io_in, epollout = Some Fd_io_out,
               epollerr = Some Fd_io_err, epollhup = Some Fd_io_hup\<rparr>"
    let ?io = "INIT_IO_STATE fd (or EPOLLERR EPOLLIN) (Ptr a ?f) (Some rb)"
    let ?t = "s\<lparr>s_env := e, s_io := ?io\<rparr>"
    have e: "rb_addr rb = next_addr (s_env s)" "live e = insert (next_addr (s_env s)) (live (s_env s))"
      "next_addr e = Suc (next_addr (s_env s))"
      using c x e1 3 by (auto simp: create_pdu_rbuf_def fresh_def split: if_splits)
    have parts: "conn_ok (s_io s, s_env s)" "hal_wf P (s_hal s)" "services_ok s" "held_ok s"
      using ok by (simp_all add: sys_ok_def)
    have new: "next_addr (s_env s) \<notin> live (s_env s)"
      using parts(1) by (auto simp: conn_ok_def env_wf_def)
    have held: "held ?t = held s" by (simp add: held_def INIT_IO_STATE_def funcs)
    have "conn_ok (?io, e)"
      using parts(1) e by (auto simp: conn_ok_def env_wf_def queue_ok_def INIT_IO_STATE_def less_Suc_eq)
    moreover have "held_ok ?t"
      using parts(4) e new unfolding held_ok_def held apart_def by (auto simp: INIT_IO_STATE_def)
    moreover have "services_ok ?t" using parts(3) by (simp add: services_ok_def)
    ultimately have "sys_ok P ?t" using parts(2) by (simp add: sys_ok_def)
    moreover have "a \<in> live e" using parts(4) e by (auto simp: held_ok_def held_def apart_def funcs)
    ultimately show ?thesis using 3 c funcs by (auto simp: connected_socket_def)
  qed
qed

lemma registry_ok:
  assumes "sys_ok P s"
  shows "sys_ok P (snd (init_registry (Some f) s))" "sys_ok P (uninit_registry s)"
  using assms init_registry_ok [of s f] uninit_registry_ok [of s]
  by (simp_all add: sys_ok_def init_registry_def uninit_registry_def held_ok_def held_def apart_def)

lemma start_main_loop_ok:
  assumes ok: "sys_ok P s" and run: "start_main_loop P s = (r, s')"
  shows "sys_ok P s'"
proof -
  let ?s = "snd (init_registry (Some Io_send_pdu) s)"
  obtain r1 e where a: "add_fd_events P (io_fd (s_io ?s)) (epoll_events (s_io ?s)) (s_env ?s) = (r1, e)"
    by (metis surj_pair)
  have "sys_ok P (?s\<lparr>s_env := e\<rparr>)" using add_fd_events_ok(2) [OF registry_ok(1) [OF ok] a] .
  with run a registry_ok(2) [OF this] show ?thesis
    by (auto simp: start_main_loop_def Let_def init_registry_def split: if_splits)
qed

lemma fd_con_out_survives:
  assumes ok: "sys_ok P s" and funcs: "epoll_funcs (s_io s) = Ptr a f"
  shows "survives P (andThen (fd_con_out P fd s) (\<lambda>(_, s). Inr s))"
proof -
  obtain r s1 where 1: "connected_socket P fd s = Inr (r, s1)" "sys_ok P s1"
    using connected_socket_ok [OF ok funcs] by blast
  obtain r2 s2 where 2: "start_main_loop P s1 = (r2, s2)" by (metis surj_pair)
  with 1 start_main_loop_ok [OF 1(2) 2] show ?thesis by (simp add: fd_con_out_def)
qed

section \<open>Runs\<close>

text \<open>
  Steps that keep an invariant or end in an abort, under assumptions on the event alone, and
  what follows for runs of any length.
\<close>

locale surviving_steps =
  fixes step :: "'e \<Rightarrow> 's \<Rightarrow> 's res"
    and inv :: "'s \<Rightarrow> bool"
    and legal :: "'e \<Rightarrow> bool"
  assumes step_survives:
    "inv s \<Longrightarrow> legal e \<Longrightarrow> step e s = Inl Abort_call \<or> (\<exists>s'. step e s = Inr s' \<and> inv s')"
begin

lemma run_survives:
  "inv s \<Longrightarrow> list_all legal es \<Longrightarrow>
     run_steps step es s = Inl Abort_call \<or> (\<exists>s'. run_steps step es s = Inr s' \<and> inv s')"
proof (induction es arbitrary: s)
  case Nil
  then show ?case by simp
next
  case (Cons e es)
  from Cons.prems step_survives [of s e] consider "step e s = Inl Abort_call"
    | t where "step e s = Inr t" "inv t" by auto
  then show ?case
  proof cases
    case 2
    with Cons.IH [of t] Cons.prems(2) show ?thesis by simp
  qed simp
qed

text \<open>Of a run that got to its end, every part did.\<close>

lemma run_prefix:
  assumes "inv s" "list_all legal (xs @ ys)" "run_steps step (xs @ ys) s = Inr s'"
  shows "\<exists>t. run_steps step xs s = Inr t \<and> inv t \<and> run_steps step ys t = Inr s'"
  using run_survives [of s xs] assms by (auto simp: run_steps_append)

end

text \<open>Steps that never abort are a special case.\<close>

sublocale invariant_steps \<subseteq> surviving_steps step inv legal
proof
  fix s e
  assume "inv s" "legal e"
  then show "step e s = Inl Abort_call \<or> (\<exists>s'. step e s = Inr s' \<and> inv s')"
    using step_keeps by blast
qed

text \<open>What the daemon relies on: libpdu, and a client that avoids the defective commands.\<close>

definition dependable :: "'w platform \<Rightarrow> (pdu_arg \<Rightarrow> u8 list) \<Rightarrow> bool" where
  "dependable P enc \<longleftrightarrow> pdu_codec P enc \<and> PDU_MAX_NUM_SERVICES P = 256 \<and> benign_client P"

lemma socket_survives:
  assumes P: "dependable P enc" and ok: "sys_ok P s"
  shows "survives P (daemon_step P (Socket ev fd) s)"
proof (cases "epoll_funcs (s_io s)")
  case funcs: (Ptr a f)
  show ?thesis
  proof (cases "fd_func ev f")
    case (Some cb)
    show ?thesis
    proof (cases "fd_enabled cb s")
      case True
      then show ?thesis
        using P ok funcs Some fd_io_in_survives [OF ok, of enc] fd_io_out_survives [OF ok]
          fd_io_err_survives [OF ok] fd_con_out_survives [OF ok funcs]
        by (cases cb) (auto simp: dependable_def fd_con_err_def)
    qed (use ok funcs Some in simp)
  qed (use ok funcs in simp)
qed (use ok in simp_all)

interpretation daemon: surviving_steps "daemon_step P" "\<lambda>s. sys_ok P s \<and> dependable P enc"
  "legal_event P" for P enc
proof
  fix s ev
  assume inv: "sys_ok P s \<and> dependable P enc" and legal: "legal_event P ev"
  then have "survives P (daemon_step P ev s)"
    using socket_survives [of P enc s] device_survives task_survives scan_survives [of P s enc]
    by (cases ev) (auto simp: dependable_def simp del: daemon_step.simps)
  with inv show "daemon_step P ev s = Inl Abort_call \<or>
      (\<exists>s'. daemon_step P ev s = Inr s' \<and> sys_ok P s' \<and> dependable P enc)"
    by (auto simp: survives_def)
qed

section \<open>Initialisation\<close>

lemma tvd_start_ok: "sys_ok P (tvd_start w)"
  by (simp add: sys_ok_def tvd_start_def conn_ok_def env_wf_def queue_ok_def IO_STATE_INITIALIZER_def
      hal_wf_def hal_start_def devices_def services_ok_def held_ok_def held_def apart_def)

text \<open>A state before \<open>init\<close>: there is no connection yet.\<close>

definition unconnected :: "'w sys \<Rightarrow> bool" where
  "unconnected s \<longleftrightarrow> sendq (s_io s) = [] \<and> io_rbuf (s_io s) = None \<and> tasks s = []"

definition awaits_connection :: "'w sys \<Rightarrow> bool" where
  "awaits_connection s \<longleftrightarrow> (\<exists>a f. epoll_funcs (s_io s) = Ptr a f \<and> epollout f = Some Fd_con_out)"

lemma init_io_total:
  assumes ok: "sys_ok P s" and idle: "unconnected s" and ptr: "4 \<le> ptr_size P"
  shows "\<exists>r s'. init_io P name s = Inr (r, s') \<and> sys_out s' = sys_out s \<and>
           awake (s_env s') = awake (s_env s) \<and>
           (if r < 0 then live (s_env s') = live (s_env s) else sys_ok P s' \<and> awaits_connection s')"
proof -
  let ?f = "\<lparr>epollin = None, epollout = Some Fd_con_out, epollerr = Some Fd_con_err, epollhup = None\<rparr>"
  obtain k e1 where x: "ext_call (malloc_ok P (sizeof_fd_events P)) (s_env s) = (k, e1)"
    by (metis surj_pair)
  note e1 = ext_call_env [OF x]
  have parts: "conn_ok (s_io s, s_env s)" "hal_wf P (s_hal s)" "services_ok s"
    using ok by (simp_all add: sys_ok_def)
  show ?thesis
  proof (cases k)
    case False
    with x e1 show ?thesis
      by (intro exI [of _ "-1"] exI [of _ "s\<lparr>s_env := e1\<rparr>"])
        (simp add: init_io_def malloc_def Let_def sys_out_same_env)
  next
    case True
    let ?a = "next_addr (s_env s)"
    let ?e = "e1\<lparr>live := insert ?a (live e1), next_addr := Suc ?a\<rparr>"
    let ?io = "INIT_IO_STATE (-1) 0 (Ptr ?a ?f) None"
    have m: "malloc P (sizeof_fd_events P) ?f (s_env s) = (Ptr ?a ?f, ?e)"
      using True x e1 by (simp add: malloc_def fresh_def)
    obtain fd e2 where c: "connect_socket P name ?e = Inr (fd, e2)" "connect_outcome ?e (fd, e2)"
      using connect_socket_result [OF ptr, of name ?e] by auto
    then have e2: "live e2 = live ?e" "next_addr e2 = next_addr ?e" "sent e2 = sent ?e" "awake e2 = awake ?e"
      by (simp_all add: connect_outcome_def)
    let ?s = "s\<lparr>s_env := e2, s_io := ?io\<rparr>"
    have out: "sys_out ?s = sys_out s"
      using idle e1 e2 by (simp add: sys_out_def output_stream_def INIT_IO_STATE_def unconnected_def)
    have new: "?a \<notin> live (s_env s)" using parts(1) by (auto simp: conn_ok_def env_wf_def)
    have "conn_ok (?io, e2)"
      using parts(1) e1 e2 by (auto simp: conn_ok_def env_wf_def queue_ok_def INIT_IO_STATE_def less_Suc_eq)
    moreover have "held ?s = [?a]" using idle by (simp add: held_def INIT_IO_STATE_def unconnected_def)
    then have "held_ok ?s" using e2 by (simp add: held_ok_def apart_def INIT_IO_STATE_def)
    moreover have "services_ok ?s" using parts(3) by (simp add: services_ok_def)
    ultimately have ok2: "sys_ok P ?s" using parts(2) by (simp add: sys_ok_def)
    have aw: "awaits_connection ?s" by (simp add: awaits_connection_def INIT_IO_STATE_def)
    show ?thesis
    proof (cases "fd < 0")
      case False
      then have "init_io P name s = Inr (0, ?s)" using m c(1) by (simp add: init_io_def Let_def)
      with ok2 aw out e1 e2 show ?thesis by auto
    next
      case neg: True
      let ?t = "?s\<lparr>s_env := e2\<lparr>live := live e2 - {?a}\<rparr>\<rparr>"
      have "init_io P name s = Inr (-1, ?t)"
        using neg m c(1) e2 by (simp add: init_io_def Let_def on_env_def)
      moreover have "sys_out ?t = sys_out s"
        using out by (simp add: sys_out_def output_stream_def)
      moreover have "live (s_env ?t) = live (s_env s)" using e1 e2 new by simp
      ultimately show ?thesis using e1 e2 by auto
    qed
  qed
qed

lemma tvd_init_total:
  assumes ok: "sys_ok P s" and idle: "unconnected s" and ptr: "4 \<le> ptr_size P"
  shows "\<exists>r s'. tvd_init P opts s = Inr (r, s') \<and> sys_out s' = sys_out s \<and>
           (if r = IO_OK then sys_ok P s' \<and> awaits_connection s' \<and> \<not> awake (s_env s')
            else live (s_env s') = live (s_env s) \<and> awake (s_env s') = awake (s_env s))"
proof -
  obtain r e where x: "ext_call (init_task_queue P) (s_env s) = (r, e)" by (metis surj_pair)
  note e = ext_call_env [OF x]
  let ?s = "s\<lparr>s_env := e\<rparr>"
  have out: "sys_out ?s = sys_out s" using e by (intro sys_out_same_env) simp
  have ok1: "sys_ok P ?s" and idle1: "unconnected ?s"
    using ext_call_ok [OF ok x] idle by (simp_all add: unconnected_def)
  obtain r2 s2 where i: "init_io P (socket_name opts) ?s = Inr (r2, s2)" "sys_out s2 = sys_out ?s"
    "awake (s_env s2) = awake e"
    "if r2 < 0 then live (s_env s2) = live e else sys_ok P s2 \<and> awaits_connection s2"
    using init_io_total [OF ok1 idle1 ptr, of "socket_name opts"] by auto
  consider "r < 0" | "\<not> r < 0" "r2 < 0" | "\<not> r < 0" "\<not> r2 < 0" by blast
  then show ?thesis
  proof cases
    case 1
    with x e out show ?thesis by (simp add: tvd_init_def)
  next
    case 2
    with x e out i show ?thesis
      by (simp add: tvd_init_def sys_out_def output_stream_def)
  next
    case 3
    with x e out i show ?thesis
      by (simp add: tvd_init_def awaits_connection_def wake_def release_wake_lock_def sys_out_def
          output_stream_def) (use wake_ok [of P s2 False] 3 i(4) in \<open>simp add: wake_def release_wake_lock_def\<close>)
  qed
qed

section \<open>The end\<close>

text \<open>
  \<open>uninit\<close> gives back the receive buffer and the callback table of a connection; when there is no
  descriptor it gives back nothing.
\<close>

lemma tvd_uninit_total:
  assumes ok: "sys_ok P s"
  shows "\<exists>s'. tvd_uninit P s = Inr s' \<and> sys_out s' = sys_out s \<and>
           g_service_handler s' SERVICE_REGISTRY = None \<and>
           live (s_env s') = (if io_fd (s_io s) = -1 then live (s_env s)
             else live (s_env s) - set_option (map_option rb_addr (io_rbuf (s_io s))) -
                    set (ptr_addrs (epoll_funcs (s_io s))))"
proof (cases "io_fd (s_io s) = -1")
  case True
  then show ?thesis
    by (simp add: tvd_uninit_def uninit_io_def uninit_registry_def sys_out_def output_stream_def)
next
  case False
  let ?fd = "io_fd (s_io s)"
  obtain r e where c: "ext_call (close_fd P ?fd) (remove_fd P ?fd (s_env s)) = (r, e)" by (metis surj_pair)
  note e = ext_call_env [OF c]
  have conn: "conn_ok (s_io s, s_env s)" and held: "held_ok s" using ok by (simp_all add: sys_ok_def)
  let ?l1 = "live (s_env s) - set_option (map_option rb_addr (io_rbuf (s_io s)))"
  let ?s1 = "s\<lparr>s_env := e\<lparr>live := ?l1\<rparr>\<rparr>"
  have 1: "(case io_rbuf (s_io s) of None \<Rightarrow> Inr (s\<lparr>s_env := e\<rparr>)
        | Some b \<Rightarrow> on_env (destroy_pdu_rbuf b) (s\<lparr>s_env := e\<rparr>)) = Inr ?s1"
    using conn e by (cases "io_rbuf (s_io s)")
      (auto simp: on_env_def destroy_pdu_rbuf_def conn_ok_def)
  have 2: "on_env (free_ptr (epoll_funcs (s_io s))) ?s1 =
      Inr (s\<lparr>s_env := e\<lparr>live := ?l1 - set (ptr_addrs (epoll_funcs (s_io s)))\<rparr>\<rparr>)"
    using held by (cases "epoll_funcs (s_io s)")
      (auto simp: on_env_def held_ok_def held_def apart_def)
  show ?thesis
    using False c e 1 2
    by (simp add: tvd_uninit_def uninit_io_def uninit_registry_def sys_out_def output_stream_def)
qed

section \<open>Establishing the connection\<close>

definition io_funcs :: fd_events where
  "io_funcs = \<lparr>epollin = Some Fd_io_in, epollout = Some Fd_io_out,
     epollerr = Some Fd_io_err, epollhup = Some Fd_io_hup\<rparr>"

text \<open>The daemon serves the connection \<open>fd\<close>: the registry answers, and input is watched for.\<close>

definition serving :: "int \<Rightarrow> 'w sys \<Rightarrow> bool" where
  "serving fd s \<longleftrightarrow> g_service_handler s SERVICE_REGISTRY = Some Registry_handler \<and>
     g_send_pdu s = Some Io_send_pdu \<and> io_fd (s_io s) = fd \<and> sendq (s_io s) = [] \<and>
     io_rbuf (s_io s) \<noteq> None \<and> (\<exists>a. epoll_funcs (s_io s) = Ptr a io_funcs) \<and>
     epoll_events (s_io s) = or EPOLLERR EPOLLIN \<and> polled (s_io s, s_env s)"

lemma EPOLLERR_EPOLLIN: "or EPOLLERR EPOLLIN \<noteq> 0"
  by (simp add: epoll_defs)

lemma fd_con_out_outcome:
  assumes ok: "sys_ok P s" and funcs: "epoll_funcs (s_io s) = Ptr a f" and free: "io_rbuf (s_io s) = None"
  shows "\<exists>r s'. fd_con_out P fd s = Inr (r, s') \<and> sys_ok P s' \<and>
           (if r = IO_OK then serving fd s'
            else r = IO_ABORT \<and> watched (s_env s') fd = None \<and>
              (g_service_handler s' = g_service_handler s \<or> g_service_handler s' SERVICE_REGISTRY = None))"
proof -
  obtain r1 s1 where 1: "connected_socket P fd s = Inr (r1, s1)" "sys_ok P s1"
    using connected_socket_ok [OF ok funcs] by blast
  obtain k e1 where x: "ext_call (create_pdu_rbuf_ok P (PDU_MAX_DATA_LENGTH P)) (remove_fd P fd (s_env s)) =
      (k, e1)" by (metis surj_pair)
  note e1 = ext_call_env [OF x]
  have c1: "watched (s_env s1) fd = None" "g_service_handler s1 = g_service_handler s"
    using 1(1) x e1 free funcs
    by (auto simp: connected_socket_def create_pdu_rbuf_def fresh_def Let_def andThen_Inr_iff
        split: if_splits)
  have conn: "r1 < 0 \<or> r1 = 0 \<and> io_fd (s_io s1) = fd \<and> sendq (s_io s1) = [] \<and> io_rbuf (s_io s1) \<noteq> None \<and>
      (\<exists>a. epoll_funcs (s_io s1) = Ptr a io_funcs) \<and> epoll_events (s_io s1) = or EPOLLERR EPOLLIN"
    using 1(1) x free funcs
    by (auto simp: connected_socket_def create_pdu_rbuf_def fresh_def Let_def andThen_Inr_iff
        INIT_IO_STATE_def io_funcs_def split: if_splits)
  show ?thesis
  proof (cases "r1 < 0")
    case True
    with 1 c1 show ?thesis
      by (intro exI [of _ IO_ABORT] exI [of _ s1]) (simp add: fd_con_out_def)
  next
    case False
    let ?s = "snd (init_registry (Some Io_send_pdu) s1)"
    obtain r2 e where a: "add_fd_events P (io_fd (s_io s1)) (epoll_events (s_io s1)) (s_env s1) = (r2, e)"
      by (metis surj_pair)
    note e = add_fd_events_env [OF a]
    have m: "start_main_loop P s1 =
        (if r2 < 0 then (-1, uninit_registry (?s\<lparr>s_env := e\<rparr>)) else (0, ?s\<lparr>s_env := e\<rparr>))"
      using a by (simp add: start_main_loop_def Let_def init_registry_def)
    have ok2: "sys_ok P (snd (start_main_loop P s1))"
      using start_main_loop_ok [OF 1(2), of "fst (start_main_loop P s1)"] by simp
    show ?thesis
    proof (cases "r2 < 0")
      case True
      with False 1(1) m ok2 c1(1) e(5) show ?thesis
        by (intro exI [of _ IO_ABORT] exI [of _ "snd (start_main_loop P s1)"])
          (simp add: fd_con_out_def uninit_registry_def init_registry_def)
    next
      case up: False
      have "serving fd (snd (start_main_loop P s1))"
        using up m conn False e(5) EPOLLERR_EPOLLIN
        by (auto simp: serving_def init_registry_def polled_def)
      with up False 1(1) m ok2 show ?thesis
        by (intro exI [of _ IO_OK] exI [of _ "snd (start_main_loop P s1)"]) (simp add: fd_con_out_def)
    qed
  qed
qed

section \<open>Properties\<close>

text \<open>
  C1: From its start the daemon never touches memory it may not touch and never calls a null pointer:
  \<open>init\<close> returns, and after it any sequence of socket events, HAL events, scan notifications and posted
  tasks ends either in the deliberate abort of a failing error reply or in a well-formed state, from
  which \<open>uninit\<close> returns, too. The client is one that avoids the three commands shown to be defective.
\<close>

theorem daemon_never_faults:
  assumes "4 \<le> ptr_size P" and "dependable P enc" and "list_all (legal_event P) evs"
  shows "\<exists>r s. tvd_init P opts (tvd_start w) = Inr (r, s) \<and>
           (r = IO_OK \<longrightarrow>
              run_steps (daemon_step P) evs s = Inl Abort_call \<or>
              (\<exists>s1 s2. run_steps (daemon_step P) evs s = Inr s1 \<and> sys_ok P s1 \<and> tvd_uninit P s1 = Inr s2))"
proof -
  have "unconnected (tvd_start w)"
    by (simp add: unconnected_def tvd_start_def IO_STATE_INITIALIZER_def)
  from tvd_init_total [OF tvd_start_ok this assms(1), of opts] obtain r s where
    i: "tvd_init P opts (tvd_start w) = Inr (r, s)" "r = IO_OK \<longrightarrow> sys_ok P s" by auto
  show ?thesis
  proof (cases "r = IO_OK")
    case True
    with i assms(2) have "sys_ok P s \<and> dependable P enc" by simp
    from daemon.run_survives [OF this assms(3)] i(1) show ?thesis using tvd_uninit_total by blast
  qed (use i in simp)
qed

definition client_platform :: "unit platform" where
  "client_platform = sample_platform\<lparr>recvmsg := \<lambda>_ _ w. ((5, [0, 1, 1, 0, 1]), w)\<rparr>"

lemma client_dependable: "4 \<le> ptr_size client_platform" "dependable client_platform sample_enc"
proof -
  have "pdu_codec client_platform sample_enc"
    by (rule sample_append_codec) (simp_all add: client_platform_def sample_platform_def)
  moreover have "benign_client client_platform"
    unfolding benign_client_def received_def
    by (auto simp: client_platform_def sample_platform_def SERVICE_DTV_def)
  ultimately show "4 \<le> ptr_size client_platform" "dependable client_platform sample_enc"
    by (simp_all add: dependable_def client_platform_def)
qed

theorem daemon_never_faults_witness:
  "\<exists>s. tvd_init client_platform \<lparr>socket_name = ''tvd''\<rparr> (tvd_start ()) = Inr (IO_OK, s) \<and>
     (run_steps (daemon_step client_platform)
        [Socket Ev_out 3, Socket Ev_in 3, Socket Ev_in 3, Scan DTV_SCAN_COMPLETE Null 1, Task,
         Socket Ev_hup 3] s = Inl Abort_call \<or>
      (\<exists>s1 s2. run_steps (daemon_step client_platform)
        [Socket Ev_out 3, Socket Ev_in 3, Socket Ev_in 3, Scan DTV_SCAN_COMPLETE Null 1, Task,
         Socket Ev_hup 3] s = Inr s1 \<and>
       sys_ok client_platform s1 \<and> tvd_uninit client_platform s1 = Inr s2))"
proof -
  have "\<exists>s. tvd_init client_platform \<lparr>socket_name = ''tvd''\<rparr> (tvd_start ()) = Inr (IO_OK, s)"
    using create_sockaddr_un_eq [of client_platform "''tvd''"]
    by (simp add: tvd_init_def init_io_def Let_def malloc_def fresh_def connect_socket_def
        client_platform_def add_fd_events_def sizeof_sun_path_def)
  then show ?thesis
    using daemon_never_faults [OF client_dependable, of "[Socket Ev_out 3, Socket Ev_in 3, Socket Ev_in 3,
        Scan DTV_SCAN_COMPLETE Null 1, Task, Socket Ev_hup 3]" "\<lparr>socket_name = ''tvd''\<rparr>" "()"]
    by (auto simp: cstr_def client_platform_def simp del: run_steps.simps)
qed

text \<open>
  C11: \<open>init\<close> always returns. When it reports success the daemon waits for its connection in a well-formed
  state and the wake lock is released; otherwise every allocation has been undone, but the
  wake lock is left as it was.
\<close>

theorem init_outcome:
  assumes "sys_ok P s" and "unconnected s" and "4 \<le> ptr_size P"
  shows "\<exists>r s'. tvd_init P opts s = Inr (r, s') \<and> sys_out s' = sys_out s \<and>
           (if r = IO_OK then sys_ok P s' \<and> awaits_connection s' \<and> \<not> awake (s_env s')
            else live (s_env s') = live (s_env s) \<and> awake (s_env s') = awake (s_env s))"
  using assms by (rule tvd_init_total)

theorem init_outcome_witness:
  "\<exists>r s'. tvd_init sample_platform \<lparr>socket_name = replicate 200 CHR ''a''\<rparr> (wake True (tvd_start ())) = Inr (r, s') \<and>
     r \<noteq> IO_OK \<and> awake (s_env s') \<and> live (s_env s') = {}"
proof -
  let ?s = "wake True (tvd_start ())" and ?o = "\<lparr>socket_name = replicate 200 CHR ''a''\<rparr>"
  have ok: "sys_ok sample_platform ?s" by (rule wake_ok [OF tvd_start_ok])
  have s: "unconnected ?s" "awake (s_env ?s)" "live (s_env ?s) = {}"
    by (simp_all add: unconnected_def tvd_start_def IO_STATE_INITIALIZER_def wake_def acquire_wake_lock_def)
  have "fst (the_res) \<noteq> IO_OK" if "tvd_init sample_platform ?o ?s = Inr the_res" for the_res
    using that create_sockaddr_un_eq [of sample_platform "socket_name ?o"]
    by (auto simp: tvd_init_def init_io_def Let_def malloc_def fresh_def connect_socket_def
        sizeof_sun_path_def on_env_def andThen_Inr_iff split: if_splits)
  with init_outcome [OF ok s(1), of ?o] s(2,3) show ?thesis by (auto split: if_splits)
qed

text \<open>
  C10: When the socket has become writable for the first time, the daemon either serves the connection,
  with the registry installed, the receive buffer allocated, the callbacks of the connection in
  the table and input watched for, or it asks the loop to end and watches the descriptor no more.
\<close>

theorem connection_outcome:
  assumes "sys_ok P s" and "epoll_funcs (s_io s) = Ptr a f" and "io_rbuf (s_io s) = None"
  shows "\<exists>r s'. fd_con_out P fd s = Inr (r, s') \<and> sys_ok P s' \<and>
           (if r = IO_OK then serving fd s'
            else r = IO_ABORT \<and> watched (s_env s') fd = None \<and>
              (g_service_handler s' = g_service_handler s \<or> g_service_handler s' SERVICE_REGISTRY = None))"
  using assms by (rule fd_con_out_outcome)

definition waiting_sys :: "unit sys" where
  "waiting_sys = sample_sys\<lparr>s_io := INIT_IO_STATE (-1) 0 (epoll_funcs sample_io) None\<rparr>"

theorem connection_outcome_witness:
  "\<exists>s'. fd_con_out sample_platform 3 waiting_sys = Inr (IO_OK, s') \<and> serving 3 s'"
proof -
  have f: "\<exists>f. epoll_funcs sample_io = Ptr 2 f" by (simp add: sample_io_def)
  then obtain f where f: "epoll_funcs sample_io = Ptr 2 f" by blast
  have w: "sys_ok sample_platform waiting_sys" "epoll_funcs (s_io waiting_sys) = Ptr 2 f"
    "io_rbuf (s_io waiting_sys) = None"
    using sample_sys_ok(1) f
    by (simp_all add: waiting_sys_def INIT_IO_STATE_def sys_ok_def conn_ok_def queue_ok_def
        services_ok_def held_ok_def held_def apart_def)
  have "\<exists>s'. fd_con_out sample_platform 3 waiting_sys = Inr (IO_OK, s')"
    using w(2,3) by (simp add: fd_con_out_def connected_socket_def create_pdu_rbuf_def fresh_def Let_def
        start_main_loop_def init_registry_def add_fd_events_def) (simp add: waiting_sys_def)
  with connection_outcome [OF w, of 3] show ?thesis by auto
qed

end
