(* ===== verification/Tvd_Typed.thy ===== *)
theory Tvd_Typed
  imports Tvd_Run
begin

text \<open>
  The wire protocol as a type system for what leaves the daemon: every PDU that is sent, queued or
  posted carries the payload doc/ipc.txt gives for its service and opcode, in every state that can be
  reached, except the handle of a source that comes with file descriptors.
\<close>

section \<open>The forms of doc/ipc.txt\<close>

definition channel_doc :: form where
  "channel_doc = (\<lambda>as. \<exists>net ts sid ty num nm em fr.
     as = [Arg0 net, Arg0 ts, Arg0 sid, ArgC ty, Arg0 num, Arg0 nm, ArgC em, ArgC fr])"

definition program_doc :: form where
  "program_doc =
     followed_by (\<lambda>as. \<exists>evt ttl start dur des rat.
         as = [Arg0 evt, Arg0 ttl, ArgL start, ArgL dur, Arg0 des, Arg0 rat])
       (followed_by (counted is_string) (counted is_string))"

text \<open>
  A \<open>native_handle_t\<close> is its version and two counts, then its data. The file descriptors do not travel
  in the payload, so the data are the integers, as many as the second count says.
\<close>

definition handle_doc :: form where
  "handle_doc = (\<lambda>as. \<exists>v nf ni ds. as = [ArgI v, ArgI nf, ArgI ni] @ ds \<and> repeated (nat (sint ni)) is_word ds)"

text \<open>The document prints the content of the response to get-tuners next to the command.\<close>

definition dtv_response_doc :: "u8 \<Rightarrow> form" where
  "dtv_response_doc oc =
     (if oc = OPCODE_GET_TUNERS then counted tuner_form
      else if oc = OPCODE_SET_SOURCE then handle_doc
      else if oc \<in> {OPCODE_START_SCAN, OPCODE_STOP_SCAN, OPCODE_CLEAR_CACHE, OPCODE_SET_CHANNEL} then just []
      else if oc = OPCODE_GET_CHANNEL then counted channel_doc
      else if oc = OPCODE_GET_PROGRAM then counted program_doc
      else never)"

definition dtv_notification_doc :: "u8 \<Rightarrow> form" where
  "dtv_notification_doc oc =
     (if oc = 0x80 then is_octet
      else if oc = OPCODE_CHANNEL_SCANNED then followed_by tuner_and_source channel_doc
      else if oc \<in> {OPCODE_SCANNED_COMPLETE, OPCODE_SCAN_STOPPED} then tuner_and_source
      else if oc = OPCODE_EIT_BROADCASTED
        then followed_by tuner_and_source (followed_by channel_doc (counted program_doc))
      else never)"

text \<open>
  The opcodes of notifications have the highest bit set; opcode 0 is an error response of any service,
  also of one that does not exist.
\<close>

definition documented_form :: "u8 \<Rightarrow> u8 \<Rightarrow> form" where
  "documented_form sv oc =
     (if oc = OPCODE_ERROR then is_octet
      else if sv = SERVICE_REGISTRY then registry_response_form oc
      else if sv = SERVICE_DTV then (if oc < 0x80 then dtv_response_doc oc else dtv_notification_doc oc)
      else never)"

text \<open>
  The exception: a handle with descriptors is sent with fewer integers than its count says, \<open>numFds\<close> of
  them being left out.
\<close>

definition truncated_handle :: form where
  "truncated_handle = (\<lambda>as. \<exists>v nf ni ds. as = [ArgI v, ArgI nf, ArgI ni] @ ds \<and> nf \<noteq> 0 \<and>
     repeated (nat (sint ni - sint nf)) is_word ds)"

definition truncated_source :: "(pdu_arg \<Rightarrow> u8 list) \<Rightarrow> pdu \<Rightarrow> bool" where
  "truncated_source enc p \<longleftrightarrow>
     pdu_service p = SERVICE_DTV \<and> pdu_opcode p = OPCODE_SET_SOURCE \<and> payload enc truncated_handle p"

section \<open>Typed PDUs\<close>

definition pdu_typed :: "(pdu_arg \<Rightarrow> u8 list) \<Rightarrow> pdu \<Rightarrow> bool" where
  "pdu_typed enc p \<longleftrightarrow>
     payload enc (documented_form (pdu_service p) (pdu_opcode p)) p \<or> truncated_source enc p"

lemma dtv_response_documented:
  assumes "payload enc (dtv_response_form oc) p" "oc \<noteq> OPCODE_GET_PROGRAM"
  shows "payload enc (dtv_response_doc oc) p \<or> oc = OPCODE_SET_SOURCE \<and> payload enc truncated_handle p"
proof -
  obtain args where a: "dtv_response_form oc args" "pdu_data p = encodes enc args"
    using assms(1) by (auto simp: payload_def)
  have "dtv_response_doc oc args \<or> oc = OPCODE_SET_SOURCE \<and> truncated_handle args"
  proof (cases "oc = OPCODE_SET_SOURCE")
    case True
    then have "handle_form args" using a(1) by (simp add: dtv_response_form_def dtv_opcode_defs)
    then have "handle_doc args \<or> truncated_handle args"
      unfolding handle_form_def handle_doc_def truncated_handle_def by (metis diff_zero signed_0)
    with True show ?thesis by (auto simp: dtv_response_doc_def dtv_opcode_defs)
  next
    case source: False
    show ?thesis
    proof (cases "oc = OPCODE_GET_CHANNEL")
      case True
      then have "args = [ArgI 0]" using a(1) by (simp add: dtv_response_form_def dtv_opcode_defs just_def)
      then have "counted channel_doc args" by (simp add: counted_def repeated_def)
      with True show ?thesis by (simp add: dtv_response_doc_def dtv_opcode_defs)
    next
      case False
      with source assms(2) a(1) show ?thesis
        by (simp add: dtv_response_form_def dtv_response_doc_def never_def split: if_splits) blast
    qed
  qed
  with a(2) show ?thesis by (auto simp: payload_def)
qed

lemma dtv_response_opcode:
  "payload enc (dtv_response_form oc) p \<Longrightarrow> oc < 0x80 \<and> oc \<noteq> OPCODE_ERROR"
  by (auto simp: payload_def dtv_response_form_def dtv_opcode_defs OPCODE_ERROR_def never_def split: if_splits)

text \<open>All that leaves the daemon: what is sent or queued, and the notifications still posted.\<close>

definition outgoing :: "'w sys \<Rightarrow> pdu list" where
  "outgoing s = sys_out s @ map wb_pdu (tasks s)"

definition notification :: "(pdu_arg \<Rightarrow> u8 list) \<Rightarrow> pdu \<Rightarrow> bool" where
  "notification enc p \<longleftrightarrow>
     pdu_service p = SERVICE_DTV \<and> payload enc (dtv_notification_form (pdu_opcode p)) p"

definition well_typed :: "(pdu_arg \<Rightarrow> u8 list) \<Rightarrow> 'w sys \<Rightarrow> bool" where
  "well_typed enc s \<longleftrightarrow>
     list_all (pdu_typed enc) (sys_out s) \<and> list_all (\<lambda>w. notification enc (wb_pdu w)) (tasks s)"

lemma notification_documented:
  "dtv_notification_form oc args \<Longrightarrow> documented_form SERVICE_DTV oc args"
proof -
  assume "dtv_notification_form oc args"
  then have "oc = OPCODE_SCANNED_COMPLETE \<or> oc = OPCODE_SCAN_STOPPED" "tuner_and_source args"
    by (simp_all add: dtv_notification_form_def never_def split: if_splits)
  then show ?thesis
    by (elim disjE) (simp_all add: documented_form_def dtv_notification_doc_def OPCODE_ERROR_def
        OPCODE_SCANNED_COMPLETE_def OPCODE_SCAN_STOPPED_def OPCODE_CHANNEL_SCANNED_def
        SERVICE_DTV_def SERVICE_REGISTRY_def)
qed

lemma notification_pdu_typed: "notification enc p \<Longrightarrow> pdu_typed enc p"
  unfolding notification_def pdu_typed_def by (auto elim: payload_mono intro: notification_documented)

lemma well_typed_outgoing: "well_typed enc s \<Longrightarrow> list_all (pdu_typed enc) (outgoing s)"
  by (auto simp: well_typed_def outgoing_def list_all_iff notification_pdu_typed)

lemma well_typed_same:
  "sys_out s' = sys_out s \<Longrightarrow> tasks s' = tasks s \<Longrightarrow> well_typed enc s' = well_typed enc s"
  by (simp add: well_typed_def)

lemma well_typed_sent:
  "sys_out s' = sys_out s @ [p] \<Longrightarrow> tasks s' = tasks s \<Longrightarrow> pdu_typed enc p \<Longrightarrow>
     well_typed enc s \<Longrightarrow> well_typed enc s'"
  by (simp add: well_typed_def)

lemma handler_form_typed:
  assumes "services_ok s" "g_service_handler s (pdu_service p) = Some f"
    and "payload enc (handler_form f (pdu_opcode p)) p"
    and "f = Dtv_handler \<Longrightarrow> pdu_opcode p \<noteq> OPCODE_GET_PROGRAM"
  shows "pdu_typed enc p"
proof -
  from assms(1,2) consider "f = Registry_handler" "pdu_service p = SERVICE_REGISTRY"
    | "f = Dtv_handler" "pdu_service p = SERVICE_DTV" unfolding services_ok_def by blast
  then show ?thesis
  proof cases
    case 1
    then show ?thesis
      using assms(3) by (auto simp: pdu_typed_def documented_form_def payload_def registry_response_form_def
          never_def OPCODE_ERROR_def OPCODE_REGISTER_MODULE_def OPCODE_UNREGISTER_MODULE_def split: if_splits)
  next
    case 2
    with assms(3) have "payload enc (dtv_response_form (pdu_opcode p)) p" by simp
    from dtv_response_documented [OF this] dtv_response_opcode [OF this] assms(4) 2 show ?thesis
      by (auto simp: pdu_typed_def documented_form_def truncated_source_def SERVICE_DTV_def SERVICE_REGISTRY_def)
  qed
qed

section \<open>Commands\<close>

lemma register_module_tasks: "register_module P A cmd s = Inr x \<Longrightarrow> tasks (snd x) = tasks s"
  by (auto simp: register_module_def g_register_service_def andThen_Inr_iff Let_def case_prod_beta
      registry_send_pdu_def split: option.splits list.splits pdu_arg.splits if_splits
      dest!: services_keep [THEN services_tasks] register_dtv_services(3)
      simp: sys_create_wbuf_services [THEN services_tasks])

lemma unregister_module_tasks: "unregister_module P A cmd s = Inr x \<Longrightarrow> tasks (snd x) = tasks s"
  by (auto simp: unregister_module_def g_unregister_service_def andThen_Inr_iff Let_def case_prod_beta
      registry_send_pdu_def split: option.splits list.splits pdu_arg.splits if_splits
      dest!: services_keep [THEN services_tasks] unregister_dtv_services(3)
      simp: sys_create_wbuf_services [THEN services_tasks])

lemma io_handle_pdu_tasks:
  assumes "io_handle_pdu P A cmd s = Inr (r, s')" shows "tasks s' = tasks s"
proof -
  obtain st s1 where 1: "handle_pdu_by_service P cmd (service_table P A (g_service_handler s)) s = Inr (st, s1)"
    "(if st \<noteq> 0 then andThen (send_error_reply P (pdu_service cmd) (word_of_int st) s1)
        (\<lambda>s. Inr (0, s)) else Inr (0, s1)) = Inr (r, s')"
    using assms by (auto simp: io_handle_pdu_def andThen_Inr_iff)
  have "tasks s1 = tasks s"
  proof (cases "g_service_handler s (pdu_service cmd)")
    case None
    with 1(1) show ?thesis
      by (auto simp: handle_pdu_by_service_def handle_pdu_def service_table_def split: if_splits)
  next
    case (Some f)
    with 1(1) show ?thesis
      by (cases f) (auto simp: handle_pdu_by_service_def handle_pdu_def service_table_def
          registry_handler_def handle_pdu_by_opcode_def registry_table_def split: if_splits option.splits
          dest: dtv_handler_services [THEN services_tasks] register_module_tasks unregister_module_tasks)
  qed
  with 1(2) show ?thesis
    by (auto simp: andThen_Inr_iff split: if_splits dest!: send_error_reply_services [THEN services_tasks])
qed

text \<open>With the functions of dtv.c a program is never sent.\<close>

lemma dtv_handler_no_programs:
  assumes run: "dtv_handler P (dtv_impl P) cmd s = Inr (st, s')" and oc: "pdu_opcode cmd = OPCODE_GET_PROGRAM"
  shows "st \<noteq> 0 \<and> sys_out s' = sys_out s"
proof (cases "PDU_MAX_NUM_OPCODES P \<le> unat (pdu_opcode cmd)")
  case True
  with run show ?thesis
    by (auto simp: dtv_handler_def handle_pdu_by_opcode_def handle_pdu_def dtv_table_def oc dtv_opcode_defs
        error_code_defs split: if_splits)
next
  case False
  then have "dtv_handler P (dtv_impl P) cmd s = get_programs P (dtv_impl P) cmd s"
    by (simp add: dtv_handler_def handle_pdu_by_opcode_def handle_pdu_def dtv_table_def oc dtv_opcode_defs)
  with run get_programs_stub [of P cmd s] show ?thesis by (auto simp: sys_malloc_out error_code_defs)
qed

lemma no_program_response:
  assumes codec: "pdu_codec P enc" and f: "g_service_handler s (pdu_service cmd) = Some Dtv_handler"
    and oc: "pdu_opcode cmd = OPCODE_GET_PROGRAM"
    and run: "io_handle_pdu P (dtv_impl P) cmd s = Inr (r, s')" and out: "sys_out s' = sys_out s @ [p]"
  shows "pdu_opcode p = OPCODE_ERROR"
proof -
  obtain st s1 where 1: "handle_pdu_by_service P cmd (service_table P (dtv_impl P) (g_service_handler s)) s =
      Inr (st, s1)"
    "(if st \<noteq> 0 then andThen (send_error_reply P (pdu_service cmd) (word_of_int st) s1)
        (\<lambda>s. Inr (0, s)) else Inr (0, s1)) = Inr (r, s')"
    using run by (auto simp: io_handle_pdu_def andThen_Inr_iff)
  from 1(1) have "st \<noteq> 0 \<and> sys_out s1 = sys_out s"
    using dtv_handler_no_programs [OF _ oc]
    by (auto simp: handle_pdu_by_service_def handle_pdu_def service_table_def f error_code_defs split: if_splits)
  with 1(2) dtv_impl_quiet.send_error_reply_output [OF codec] out show ?thesis by (fastforce simp: res_simps)
qed

lemma command_typed:
  assumes lib: "pdu_codec P enc" "octet_fits P" and ok: "services_ok s" "well_typed enc s"
    and run: "io_handle_pdu P (dtv_impl P) cmd s = Inr (r, s')"
  shows "well_typed enc s'"
proof -
  obtain p where p: "sys_out s' = sys_out s @ [p]" "pdu_service p = pdu_service cmd"
    and kind: "pdu_opcode p = pdu_opcode cmd \<and> (\<exists>f. g_service_handler s (pdu_service cmd) = Some f \<and>
                payload enc (handler_form f (pdu_opcode cmd)) p) \<or>
              pdu_opcode p = OPCODE_ERROR \<and> (octet_fits P \<longrightarrow> payload enc is_octet p)"
    using dtv_impl_quiet.io_handle_pdu_answers [OF lib(1) run] by blast
  from kind have "pdu_typed enc p"
  proof
    assume k: "pdu_opcode p = pdu_opcode cmd \<and> (\<exists>f. g_service_handler s (pdu_service cmd) = Some f \<and>
        payload enc (handler_form f (pdu_opcode cmd)) p)"
    then obtain f where f: "g_service_handler s (pdu_service p) = Some f"
      "payload enc (handler_form f (pdu_opcode p)) p" using p(2) by auto
    have "pdu_opcode p \<noteq> OPCODE_GET_PROGRAM" if "f = Dtv_handler"
      using no_program_response [OF lib(1) _ _ run p(1)] f(1) that k p(2)
      by (auto simp: OPCODE_ERROR_def OPCODE_GET_PROGRAM_def)
    from handler_form_typed [OF ok(1) f this] show ?thesis .
  next
    assume "pdu_opcode p = OPCODE_ERROR \<and> (octet_fits P \<longrightarrow> payload enc is_octet p)"
    then show ?thesis using lib(2) by (simp add: pdu_typed_def documented_form_def)
  qed
  from well_typed_sent [OF p(1) io_handle_pdu_tasks [OF run] this ok(2)] show ?thesis .
qed

section \<open>Notifications\<close>

lemma post_ntf_typed:
  assumes "post_ntf P (ok, w) s = Inr s'" and "ok \<Longrightarrow> notification enc (wb_pdu w)" and "well_typed enc s"
  shows "well_typed enc s'"
proof -
  have "tasks s' = tasks s \<or> ok \<and> tasks s' = tasks s @ [w]"
    using assms(1) by (auto simp: post_ntf_def split: if_splits prod.splits
        dest!: on_env_services [THEN services_tasks])
  with assms post_ntf_output [OF assms(1)] show ?thesis
    by (auto simp: well_typed_def)
qed

lemma created_typed [simp]:
  "well_typed enc (snd (sys_create_wbuf P n t c s)) = well_typed enc s"
  by (intro well_typed_same) (simp_all add: sys_create_wbuf_services [THEN services_tasks])

lemma scan_ntf_typed:
  assumes "pdu_codec P enc" "oc \<in> {OPCODE_SCANNED_COMPLETE, OPCODE_SCAN_STOPPED}"
    and "wbuf_append P [Arg0 tid, ArgC ty] (init_pdu SERVICE_DTV oc w) = Inr (True, w')"
  shows "notification enc (wb_pdu w')"
proof -
  have "emits enc (wbuf_append P [Arg0 tid, ArgC ty]) tuner_and_source"
    by (rule emits_just [OF assms(1)]) simp
  from emits_payload [OF this assms(3)] assms(2) show ?thesis
    by (auto simp: notification_def dtv_notification_form_def)
qed

lemma no_channel_appended:
  "append_channel P lv c w \<noteq> Inr (True, w')"
  using emitsD [OF append_channel_emits] by (fastforce simp: never_def)

lemma scanned_typed:
  assumes codec: "pdu_codec P enc" and ok: "well_typed enc s"
  shows "scanned_complete_cb P tid ty s = Inr s' \<Longrightarrow> well_typed enc s'"
    and "scanned_stopped_cb P tid ty s = Inr s' \<Longrightarrow> well_typed enc s'"
  using ok scan_ntf_typed [OF codec, of OPCODE_SCANNED_COMPLETE] scan_ntf_typed [OF codec, of OPCODE_SCAN_STOPPED]
  by (auto simp: scanned_complete_cb_def scanned_stopped_cb_def andThen_Inr_iff case_prod_beta
      split: if_splits option.splits elim!: post_ntf_typed simp del: insert_iff simp: insertI1 insertI2)

lemma channel_scanned_typed:
  "well_typed enc s \<Longrightarrow> channel_scanned_cb P tid ty ch s = Inr s' \<Longrightarrow> well_typed enc s'"
  by (auto simp: channel_scanned_cb_def andThen_Inr_iff case_prod_beta no_channel_appended
      split: if_splits option.splits elim!: post_ntf_typed)

lemma eit_broadcasted_typed:
  "well_typed enc s \<Longrightarrow> eit_broadcasted_cb P tid ty ch n ps s = Inr s' \<Longrightarrow> well_typed enc s'"
  by (auto simp: eit_broadcasted_cb_def andThen_Inr_iff case_prod_beta no_channel_appended
      split: if_splits option.splits elim!: post_ntf_typed)

lemma notification_typed:
  assumes codec: "pdu_codec P enc" and ok: "well_typed enc s"
  shows "channel_update_nfy_cb P st tid ty ch s = Inr s' \<Longrightarrow> well_typed enc s'"
    and "scan_status_nfy_cb P st tid ty s = Inr s' \<Longrightarrow> well_typed enc s'"
    and "event_nfy_cb P tid ty ch n ps s = Inr s' \<Longrightarrow> well_typed enc s'"
  using channel_scanned_typed [OF ok] scanned_typed [OF codec ok] eit_broadcasted_typed [OF ok] ok
  by (auto simp: channel_update_nfy_cb_def scan_status_nfy_cb_def event_nfy_cb_def split: if_splits)

section \<open>Steps and runs\<close>

lemma step_typed:
  assumes lib: "pdu_codec P enc" "octet_fits P" and step: "tvd_step P s s'"
    and ok: "services_ok s" "well_typed enc s"
  shows "well_typed enc s'"
  using step
proof (rule tvd_stepE)
  fix r
  assume "fd_io_in P (dtv_impl P) s = Inr (r, s')"
  then obtain k where "io_state_in P (io_handle_pdu P (dtv_impl P)) s = Inr (k, s')"
    by (auto simp: fd_io_in_def andThen_Inr_iff)
  from io_state_in_result [OF this] show ?thesis
  proof
    assume "\<exists>s1 s2 c k. received P c \<and> pdu_rbuf_has_pdu P c \<and>
      sys_out s1 = sys_out s \<and> services s1 = services s \<and>
      io_handle_pdu P (dtv_impl P) (rbuf_pdu P c) s1 = Inr (k, s2) \<and> sys_out s' = sys_out s2 \<and>
      services s' = services s2"
    then obtain s1 s2 cmd k where
      1: "sys_out s1 = sys_out s" "services s1 = services s" and
      2: "io_handle_pdu P (dtv_impl P) cmd s1 = Inr (k, s2)" and
      3: "sys_out s' = sys_out s2" "services s' = services s2" by blast
    have "well_typed enc s1" using ok(2) well_typed_same [OF 1(1) services_tasks [OF 1(2)]] by simp
    from command_typed [OF lib services_ok_same [OF 1(2) ok(1)] this 2]
    show ?thesis using well_typed_same [OF 3(1) services_tasks [OF 3(2)]] by simp
  next
    assume "sys_out s' = sys_out s \<and> services s' = services s"
    then show ?thesis using ok(2) well_typed_same [of s' s] services_tasks [of s' s] by blast
  qed
next
  fix w ts
  assume t: "tasks s = w # ts" "send_ntf_pdu P w (s\<lparr>tasks := ts\<rparr>) = Inr s'"
  then have "tasks s' = ts"
    by (auto simp: send_ntf_pdu_def split: option.splits dest!: call_send_services [THEN services_tasks])
  moreover have "sys_out s' = sys_out s \<or> sys_out s' = sys_out s @ [wb_pdu w]"
    using t(2) by (auto simp: send_ntf_pdu_def split: option.splits dest: call_send_output)
  ultimately show ?thesis using t(1) ok(2) by (auto simp: well_typed_def notification_pdu_typed)
next
  fix fd r
  assume c: "fd_con_out P fd s = Inr (r, s')" "sendq (s_io s) = []"
  have "tasks s' = tasks s"
    using c(1) by (auto simp: fd_con_out_def connected_socket_def start_main_loop_def init_registry_def
        uninit_registry_def Let_def andThen_Inr_iff split: if_splits prod.splits option.splits)
  then show ?thesis using fd_con_out_output [OF c] ok(2) well_typed_same by metis
next
  fix r
  assume r: "fd_io_out P s = Inr (r, s')"
  then have "sys_out s' = sys_out s" "tasks s' = tasks s"
    by (auto simp: fd_io_out_def andThen_Inr_iff sys_out_def dest: io_state_out_output)
  then show ?thesis using ok(2) well_typed_same by metis
next
  fix r
  assume r: "fd_io_err P s = Inr (r, s')"
  then have "sys_out s' = sys_out s" "tasks s' = tasks s"
    by (auto simp: fd_io_err_def andThen_Inr_iff sys_out_def dest: io_state_err_output)
  then show ?thesis using ok(2) well_typed_same by metis
next
  fix r
  assume r: "fd_io_hup P s = Inr (r, s')"
  then have "sys_out s' = sys_out s" "tasks s' = tasks s"
    by (auto simp: fd_io_hup_def io_state_hup_err andThen_Inr_iff sys_out_def dest: io_state_err_output)
  then show ?thesis using ok(2) well_typed_same by metis
next
  fix ev h e
  assume "s' = s\<lparr>s_hal := h, s_env := e\<rparr>" "device_init_notify P ev (s_hal s) (s_env s) = Inr (h, e)"
  then have "sys_out s' = sys_out s" "tasks s' = tasks s"
    by (auto simp: sys_out_same_env dest: notify_sent)
  then show ?thesis using ok(2) well_typed_same by metis
qed (use notification_typed [OF lib(1) ok(2)] in blast)+

lemma reach_typed:
  assumes "tvd_reach P s s'" and lib: "pdu_codec P enc" "octet_fits P"
    and ok: "services_ok s" "well_typed enc s"
  shows "services_ok s' \<and> well_typed enc s'"
  using assms(1)
  by (rule reach_invariant) (use ok step_services_ok step_typed [OF lib] in blast)+

lemma tvd_init_services:
  "tvd_init P opts s = Inr (IO_OK, s') \<Longrightarrow> services s' = services s"
  by (auto simp: tvd_init_def init_io_def Let_def andThen_Inr_iff split: if_splits prod.splits)

text \<open>What holds when \<open>init\<close> is called: nothing is registered, posted, queued or sent.\<close>

definition pristine :: "'w platform \<Rightarrow> 'w sys \<Rightarrow> bool" where
  "pristine P s \<longleftrightarrow> sys_ok P s \<and> unconnected s \<and> sys_out s = [] \<and>
     dtv_send_pdu s = None \<and> g_service_handler s = (\<lambda>_. None)"

lemma tvd_start_pristine: "pristine P (tvd_start w)"
  using tvd_start_ok [of P w]
  by (simp add: pristine_def unconnected_def tvd_start_def sys_out_def output_stream_def IO_STATE_INITIALIZER_def)

lemma started_typed:
  assumes "tvd_init P opts s0 = Inr (IO_OK, s)" "4 \<le> ptr_size P" "pristine P s0"
  shows "sys_out s = []" "services_ok s" "well_typed enc s"
proof -
  have sv: "services s = services s0" using tvd_init_services [OF assms(1)] .
  have p: "sys_ok P s0" "unconnected s0" "sys_out s0 = []" using assms(3) by (simp_all add: pristine_def)
  from p(1) services_ok_same [OF sv] show "services_ok s" by (simp add: sys_ok_def)
  from tvd_init_total [OF p(1,2) assms(2), of opts] assms(1) p(3) show "sys_out s = []" by simp
  moreover have "tasks s = []" using services_tasks [OF sv] p(2) by (simp add: unconnected_def)
  ultimately show "well_typed enc s" by (simp add: well_typed_def)
qed

text \<open>A closed run: the connection is established; the client is whatever \<open>recvmsg\<close> hands over.\<close>

definition client_of :: "u8 list \<Rightarrow> unit platform" where
  "client_of octets = sample_platform\<lparr>recvmsg := \<lambda>_ _ w. ((int (length octets), octets), w)\<rparr>"

lemma client_of_lib: "pdu_codec (client_of octets) sample_enc" "append_total (client_of octets)"
  "PDU_MAX_DATA_LENGTH (client_of octets) = 65535" "ptr_size (client_of octets) = 8"
proof -
  show "pdu_codec (client_of octets) sample_enc"
    by (rule sample_append_codec) (simp_all add: client_of_def sample_platform_def)
  show "append_total (client_of octets)"
    using sample_append_total by (simp add: append_total_def client_of_def)
qed (simp_all add: client_of_def)

lemma connected_run:
  obtains s s1 where
    "tvd_init (client_of octets) \<lparr>socket_name = ''tvd''\<rparr> (tvd_start ()) = Inr (IO_OK, s)"
    "tvd_reach (client_of octets) s s1"
    "io_rbuf (s_io s1) = Some \<lparr>rb_addr = 2, rb_maxlen = 65535, rb_len = 0, rb_raw = []\<rparr>"
    "sendq (s_io s1) = []" "sent (s_env s1) = []" "tasks s1 = []" "live (s_env s1) = {1, 2}"
    "next_addr (s_env s1) = 3" "g_service_handler s1 = [SERVICE_REGISTRY \<mapsto> Registry_handler]"
    "g_send_pdu s1 = Some Io_send_pdu" "s_hal s1 = hal_start"
proof -
  let ?P = "client_of octets"
  obtain s where i: "tvd_init ?P \<lparr>socket_name = ''tvd''\<rparr> (tvd_start ()) = Inr (IO_OK, s)"
    and s: "io_rbuf (s_io s) = None" "sendq (s_io s) = []" "sent (s_env s) = []" "tasks s = []"
      "epoll_funcs (s_io s) = Ptr 1 \<lparr>epollin = None, epollout = Some Fd_con_out, epollerr = Some Fd_con_err, epollhup = None\<rparr>"
      "live (s_env s) = {1}" "next_addr (s_env s) = 2" "g_service_handler s = (\<lambda>_. None)" "s_hal s = hal_start"
    using create_sockaddr_un_eq [of ?P "''tvd''"]
    by (simp add: tvd_init_def init_io_def Let_def malloc_def fresh_def connect_socket_def
        client_of_def add_fd_events_def sizeof_sun_path_def tvd_start_def INIT_IO_STATE_def wake_def
        release_wake_lock_def)
  obtain s1 where c: "fd_con_out ?P 3 s = Inr (IO_OK, s1)"
    and s1: "io_rbuf (s_io s1) = Some \<lparr>rb_addr = 2, rb_maxlen = 65535, rb_len = 0, rb_raw = []\<rparr>"
      "sendq (s_io s1) = []" "sent (s_env s1) = []" "tasks s1 = []" "live (s_env s1) = {1, 2}"
      "next_addr (s_env s1) = 3" "g_service_handler s1 = [SERVICE_REGISTRY \<mapsto> Registry_handler]"
      "g_send_pdu s1 = Some Io_send_pdu" "s_hal s1 = hal_start"
    using s by (simp add: fd_con_out_def connected_socket_def create_pdu_rbuf_def fresh_def Let_def
        start_main_loop_def init_registry_def add_fd_events_def client_of_def INIT_IO_STATE_def insert_commute)
  have "tvd_reach ?P s s1"
    using tvd_reach.here tvd_step.connected [OF c s(2)] by (blast intro: tvd_reach.more)
  with i s1 show thesis by (intro that) simp_all
qed

text \<open>A client that sends PDUs of a service that does not exist.\<close>

definition stray_platform :: "unit platform" where
  "stray_platform = client_of [9, 5, 0, 0]"

lemma stray_run:
  "\<exists>s s' p. tvd_init stray_platform \<lparr>socket_name = ''tvd''\<rparr> (tvd_start ()) = Inr (IO_OK, s) \<and>
     tvd_reach stray_platform s s' \<and> outgoing s' = [p] \<and> pdu_service p = 9 \<and> pdu_opcode p = 0"
proof -
  obtain s s1 where i: "tvd_init stray_platform \<lparr>socket_name = ''tvd''\<rparr> (tvd_start ()) = Inr (IO_OK, s)"
    "tvd_reach stray_platform s s1"
    and s1: "io_rbuf (s_io s1) = Some \<lparr>rb_addr = 2, rb_maxlen = 65535, rb_len = 0, rb_raw = []\<rparr>"
      "sendq (s_io s1) = []" "sent (s_env s1) = []" "tasks s1 = []" "live (s_env s1) = {1, 2}"
      "next_addr (s_env s1) = 3" "g_service_handler s1 = [SERVICE_REGISTRY \<mapsto> Registry_handler]"
    unfolding stray_platform_def by (rule connected_run)
  have "\<exists>r s2 p. fd_io_in stray_platform (dtv_impl stray_platform) s1 = Inr (r, s2) \<and> outgoing s2 = [p] \<and>
      pdu_service p = 9 \<and> pdu_opcode p = 0"
    using s1 by (simp add: fd_io_in_def io_state_in_def wake_def get_rbuf_def set_rbuf_def handle_rbuf_def
        acquire_wake_lock_def release_wake_lock_def Let_def stray_platform_def client_of_def sample_platform_def
        io_handle_pdu_def handle_pdu_by_service_def handle_pdu_def service_table_def service_id_defs
        error_code_defs send_error_reply_def OPCODE_ERROR_RSP_SIZE_def OPCODE_ERROR_def
        sys_create_wbuf_def create_pdu_wbuf_def fresh_def io_state_send_def wbuf_append_def
        sample_append_def init_pdu_def io_state_send_pending_wbufs_def destroy_pdu_wbuf_def
        outgoing_def sys_out_def output_stream_def)
  then obtain r s2 p where r: "fd_io_in stray_platform (dtv_impl stray_platform) s1 = Inr (r, s2)"
    "outgoing s2 = [p]" "pdu_service p = 9" "pdu_opcode p = 0" by blast
  from tvd_reach.more [OF i(2) tvd_step.readable [OF r(1)]] i(1) r(2-4) show ?thesis by blast
qed

section \<open>Properties\<close>



end
