(* ===== verification/Tvd_Session.thy ===== *)
theory Tvd_Session
  imports Tvd_Typed
begin

text \<open>
  What a client may rely on: the conversation over the socket as an abstract machine whose only
  state is whether the DTV service is registered, and the refinement of that machine by the daemon. Every
  output of every run of the daemon is an output of the machine.
\<close>

section \<open>The conversation\<close>

text \<open>The daemon replies to a command, or notifies the client.\<close>

datatype talk = Reply pdu pdu | Notify pdu

fun emitted :: "talk \<Rightarrow> pdu" where
  "emitted (Reply cmd p) = p"
| "emitted (Notify p) = p"

inductive talk_step ::
  "'w platform \<Rightarrow> (pdu_arg \<Rightarrow> u8 list) \<Rightarrow> bool \<Rightarrow> talk \<Rightarrow> bool \<Rightarrow> bool" for P enc where
  refused: "pdu_service p = pdu_service cmd \<Longrightarrow> pdu_opcode p = OPCODE_ERROR \<Longrightarrow> payload enc is_octet p \<Longrightarrow>
    talk_step P enc reg (Reply cmd p) reg"
| registers: "pdu_service cmd = SERVICE_REGISTRY \<Longrightarrow> pdu_opcode cmd = OPCODE_REGISTER_MODULE \<Longrightarrow>
    read_pdu_at P cmd 0 [FmtC] = Some [ArgC SERVICE_DTV] \<Longrightarrow>
    p = \<lparr>pdu_service = SERVICE_REGISTRY, pdu_opcode = OPCODE_REGISTER_MODULE,
         pdu_data = enc (ArgI (of_nat PROTOCOL_VERSION))\<rparr> \<Longrightarrow>
    talk_step P enc False (Reply cmd p) True"
| unregisters: "pdu_service cmd = SERVICE_REGISTRY \<Longrightarrow> pdu_opcode cmd = OPCODE_UNREGISTER_MODULE \<Longrightarrow>
    read_pdu_at P cmd 0 [FmtC] = Some [ArgC SERVICE_DTV] \<Longrightarrow>
    p = \<lparr>pdu_service = SERVICE_REGISTRY, pdu_opcode = OPCODE_UNREGISTER_MODULE, pdu_data = []\<rparr> \<Longrightarrow>
    talk_step P enc reg (Reply cmd p) False"
| serves: "pdu_service cmd = SERVICE_DTV \<Longrightarrow> pdu_service p = SERVICE_DTV \<Longrightarrow>
    pdu_opcode p = pdu_opcode cmd \<Longrightarrow> payload enc (dtv_response_form (pdu_opcode cmd)) p \<Longrightarrow>
    talk_step P enc True (Reply cmd p) True"
| notifies: "notification enc p \<Longrightarrow> talk_step P enc True (Notify p) True"

inductive_simps talk_step_reply: "talk_step P enc reg (Reply cmd p) reg'"
inductive_simps talk_step_notify: "talk_step P enc reg (Notify p) reg'"

inductive conversation ::
  "'w platform \<Rightarrow> (pdu_arg \<Rightarrow> u8 list) \<Rightarrow> bool \<Rightarrow> talk list \<Rightarrow> bool \<Rightarrow> bool" for P enc reg where
  silent: "conversation P enc reg [] reg"
| talked: "conversation P enc reg ts reg1 \<Longrightarrow> talk_step P enc reg1 t reg2 \<Longrightarrow>
    conversation P enc reg (ts @ [t]) reg2"

text \<open>A reply answers a PDU that was received.\<close>

fun genuine :: "'w platform \<Rightarrow> talk \<Rightarrow> bool" where
  "genuine P (Reply cmd p) \<longleftrightarrow> (\<exists>c. received P c \<and> pdu_rbuf_has_pdu P c \<and> cmd = rbuf_pdu P c)"
| "genuine P (Notify p) \<longleftrightarrow> True"

section \<open>The abstraction\<close>

definition dtv_registered :: "'w sys \<Rightarrow> bool" where
  "dtv_registered s \<longleftrightarrow> g_service_handler s SERVICE_DTV \<noteq> None"

definition session_ok :: "(pdu_arg \<Rightarrow> u8 list) \<Rightarrow> 'w sys \<Rightarrow> bool" where
  "session_ok enc s \<longleftrightarrow> services_ok s \<and> well_typed enc s \<and> (dtv_send_pdu s \<noteq> None \<longleftrightarrow> dtv_registered s)"

text \<open>What the send functions and the handlers are.\<close>

definition registration :: "'w sys \<Rightarrow> (u8 \<Rightarrow> handler_fn option) \<times> send_fn option" where
  "registration s = (g_service_handler s, dtv_send_pdu s)"

lemma registration_services: "services s' = services s \<Longrightarrow> registration s' = registration s"
  by (simp add: registration_def services_def)

lemma registration_same:
  "registration s' = registration s \<Longrightarrow> dtv_registered s' = dtv_registered s"
  "registration s' = registration s \<Longrightarrow> dtv_send_pdu s' = dtv_send_pdu s"
  by (simp_all add: registration_def dtv_registered_def)

section \<open>Registering and unregistering\<close>

lemma dtv_impl_unregisters:
  assumes "unregister_dtv P (dtv_impl P) s = Inr (r, s')" shows "r = ERROR_NONE"
  using assms
  by (auto simp: unregister_dtv_def hal_uninit_sys_def call_drv_def tv_input_hal_uninit_def dtv_impl_def
      dtv_uninit_def andThen_Inr_iff split: if_splits)

lemma version_appended:
  assumes "append_total P" "4 \<le> PDU_MAX_DATA_LENGTH P"
  shows "wbuf_append P [ArgI v] (init_pdu sv oc w) \<noteq> Inr (False, w')"
proof -
  have "append_to_pdu P (wb_pdu (init_pdu sv oc w)) [ArgI v] \<noteq> None"
    using assms by (simp add: append_total_def del: not_None_eq)
  then show ?thesis by (auto simp: wbuf_append_def split: if_splits)
qed

lemma register_module_effect:
  assumes room: "append_total P" "4 \<le> PDU_MAX_DATA_LENGTH P"
    and run: "register_module P A cmd s = Inr (st, s')"
  shows "if st = ERROR_NONE
         then read_pdu_at P cmd 0 [FmtC] = Some [ArgC SERVICE_DTV] \<and> \<not> dtv_registered s \<and>
              registration s' = ((g_service_handler s)(SERVICE_DTV := Some Dtv_handler), g_send_pdu s)
         else registration s' = registration s"
proof (cases "\<exists>v. read_pdu_at P cmd 0 [FmtC] = Some [ArgC v] \<and> g_service_handler s v = None \<and>
    g_register_service P A v \<noteq> None")
  case False
  with run have "s' = s \<and> st \<noteq> ERROR_NONE"
    by (auto simp: register_module_def split: option.splits list.splits pdu_arg.splits if_splits)
  then show ?thesis by simp
next
  case True
  then have v: "read_pdu_at P cmd 0 [FmtC] = Some [ArgC SERVICE_DTV]"
    "g_service_handler s SERVICE_DTV = None"
    by (auto simp: g_register_service_def split: if_splits)
  have in_range: "\<not> PDU_MAX_NUM_SERVICES P \<le> unat SERVICE_DTV"
    using run v by (auto simp: register_module_def)
  obtain w s1 where c: "sys_create_wbuf P OPCODE_REGISTER_MODULE_RSP_SIZE 0 False s = (w, s1)"
    by (metis surj_pair)
  have s1: "services s1 = services s"
    using sys_create_wbuf_services [of P OPCODE_REGISTER_MODULE_RSP_SIZE 0 False s] c by simp
  then have g1: "g_send_pdu s1 = g_send_pdu s" by (simp add: services_def)
  show ?thesis
  proof (cases w)
    case None
    with run v c in_range have "st = ERROR_NOMEM" "s' = s1"
      by (simp_all add: register_module_def g_register_service_def)
    with registration_services [OF s1] show ?thesis by simp
  next
    case (Some b)
    with run v c in_range obtain h s2 where 2: "register_dtv P A (g_send_pdu s) s1 = Inr (h, s2)"
      using g1 by (auto simp: register_module_def g_register_service_def andThen_Inr_iff)
    note r = register_dtv_services [OF 2]
    show ?thesis
    proof (cases h)
      case None
      with Some run v c in_range 2 g1 have "services s' = services s2 \<and> st \<noteq> ERROR_NONE"
        by (auto simp: register_module_def g_register_service_def andThen_Inr_iff dest: services_keep)
      with r None s1 show ?thesis by (auto simp: registration_def services_def)
    next
      case hf: (Some hf)
      let ?s = "s2\<lparr>g_service_handler := (g_service_handler s2)(SERVICE_DTV := Some hf)\<rparr>"
      from hf Some run v c in_range 2 g1 have "services s' = services ?s \<and> st = ERROR_NONE"
        by (auto simp: register_module_def g_register_service_def andThen_Inr_iff Let_def
            registry_send_pdu_def version_appended [OF room] split: if_splits dest!: services_keep)
      with r hf v s1 show ?thesis by (auto simp: registration_def services_def dtv_registered_def)
    qed
  qed
qed

lemma unregister_module_effect:
  assumes run: "unregister_module P (dtv_impl P) cmd s = Inr (st, s')"
  shows "if st = ERROR_NONE
         then read_pdu_at P cmd 0 [FmtC] = Some [ArgC SERVICE_DTV] \<and>
              registration s' = ((g_service_handler s)(SERVICE_DTV := None), None)
         else registration s' = registration s"
proof (cases "\<exists>v. read_pdu_at P cmd 0 [FmtC] = Some [ArgC v]")
  case False
  with run have "s' = s \<and> st \<noteq> ERROR_NONE"
    by (auto simp: unregister_module_def split: option.splits list.splits pdu_arg.splits)
  then show ?thesis by simp
next
  case True
  then obtain v where v: "read_pdu_at P cmd 0 [FmtC] = Some [ArgC v]" by blast
  obtain w s1 where c: "sys_create_wbuf P 0 0 False s = (w, s1)" by (metis surj_pair)
  have s1: "services s1 = services s" using sys_create_wbuf_services [of P 0 0 False s] c by simp
  show ?thesis
  proof (cases "\<exists>b r s2. w = Some b \<and> v = SERVICE_DTV \<and> unregister_dtv P (dtv_impl P) s1 = Inr (r, s2)")
    case False
    with run v c have "services s' = services s1" "st \<in> {ERROR_NOMEM, ERROR_FAIL}"
      by (auto simp: unregister_module_def g_unregister_service_def andThen_Inr_iff
          split: option.splits if_splits dest: services_keep)
    then show ?thesis using registration_services [of s' s] s1 error_codes_differ [THEN not_sym] by auto
  next
    case True
    then obtain b r s2 where 2: "w = Some b" "v = SERVICE_DTV"
      "unregister_dtv P (dtv_impl P) s1 = Inr (r, s2)" by blast
    note u = unregister_dtv_services [OF 2(3)] and r = dtv_impl_unregisters [OF 2(3)]
    have "\<not> r < 0" using r by (simp add: error_code_defs)
    with run v c 2 have "services s' =
        services (s2\<lparr>g_service_handler := (g_service_handler s2)(SERVICE_DTV := None)\<rparr>) \<and> st = ERROR_NONE"
      by (auto simp: unregister_module_def g_unregister_service_def andThen_Inr_iff Let_def
          registry_send_pdu_def split: if_splits dest: services_keep)
    with u r v 2(2) s1 show ?thesis by (auto simp: registration_def services_def)
  qed
qed

section \<open>The simulation\<close>

lemma session_ok_same:
  assumes "sys_out s' = sys_out s" "services s' = services s" "session_ok enc s"
  shows "session_ok enc s'"
  using assms services_ok_same [OF assms(2)] well_typed_same [OF assms(1) services_tasks [OF assms(2)]]
    registration_same [OF registration_services [OF assms(2)]]
  by (simp add: session_ok_def)

text \<open>What a command does to the registration, and the reply it gets.\<close>

definition command_result ::
  "'w platform \<Rightarrow> (pdu_arg \<Rightarrow> u8 list) \<Rightarrow> pdu \<Rightarrow> 'w sys \<Rightarrow> int \<Rightarrow> 'w sys \<Rightarrow> bool" where
  "command_result P enc cmd s st s' \<longleftrightarrow>
     (dtv_send_pdu s' \<noteq> None \<longleftrightarrow> dtv_registered s') \<and>
     (if st = ERROR_NONE
      then \<exists>p. sys_out s' = sys_out s @ [p] \<and>
             talk_step P enc (dtv_registered s) (Reply cmd p) (dtv_registered s')
      else sys_out s' = sys_out s \<and> dtv_registered s' = dtv_registered s)"

lemma dtv_command_result:
  assumes codec: "pdu_codec P enc" and ok: "session_ok enc s"
    and cmd: "pdu_service cmd = SERVICE_DTV" "g_service_handler s SERVICE_DTV = Some Dtv_handler"
    and run: "dtv_handler P (dtv_impl P) cmd s = Inr (st, s')"
  shows "command_result P enc cmd s st s'"
proof -
  have same: "registration s' = registration s"
    using dtv_handler_services [OF run] by (auto intro: registration_services)
  have "answers (\<lambda>p. payload enc (dtv_response_form (pdu_opcode p)) p) sys_out cmd s st s'"
    using dtv_impl_quiet.dtv_handler_answers [OF codec run] .
  then show ?thesis
    using ok cmd registration_same [OF same]
    by (auto simp: command_result_def answers_def session_ok_def dtv_registered_def talk_step_reply)
qed

lemma registry_command_result:
  assumes codec: "pdu_codec P enc" and room: "append_total P" "4 \<le> PDU_MAX_DATA_LENGTH P"
    and ok: "session_ok enc s"
    and cmd: "pdu_service cmd = SERVICE_REGISTRY" "g_service_handler s SERVICE_REGISTRY \<noteq> None"
    and run: "registry_handler P (dtv_impl P) cmd s = Inr (st, s')"
  shows "command_result P enc cmd s st s'"
proof -
  have send: "g_send_pdu s \<noteq> None" and reg: "dtv_send_pdu s \<noteq> None \<longleftrightarrow> dtv_registered s"
    using ok cmd(2) by (simp_all add: session_ok_def services_ok_def)
  consider (reg) "pdu_opcode cmd = OPCODE_REGISTER_MODULE" "register_module P (dtv_impl P) cmd s = Inr (st, s')"
    | (unreg) "pdu_opcode cmd = OPCODE_UNREGISTER_MODULE" "unregister_module P (dtv_impl P) cmd s = Inr (st, s')"
    | (none) "st = ERROR_UNSUPPORTED" "s' = s"
    using run by (auto simp: registry_handler_def handle_pdu_by_opcode_def handle_pdu_def registry_table_def
        split: if_splits option.splits)
  then show ?thesis
  proof cases
    case reg
    note eff = register_module_effect [OF room reg(2)]
    have ans: "responds enc (just [ArgI (of_nat PROTOCOL_VERSION)]) cmd s st s'"
      using dtv_impl_quiet.register_module_answers [OF codec reg(2)] .
    show ?thesis
    proof (cases "st = ERROR_NONE")
      case True
      with ans obtain p where p: "sys_out s' = sys_out s @ [p]" "pdu_service p = pdu_service cmd"
        "pdu_opcode p = pdu_opcode cmd" "pdu_data p = enc (ArgI (of_nat PROTOCOL_VERSION))"
        by (auto simp: answers_def payload_def just_def)
      then have "p = \<lparr>pdu_service = SERVICE_REGISTRY, pdu_opcode = OPCODE_REGISTER_MODULE,
          pdu_data = enc (ArgI (of_nat PROTOCOL_VERSION))\<rparr>" using cmd(1) reg(1) by simp
      with True eff p(1) cmd(1) reg(1) send show ?thesis
        by (auto simp: command_result_def registration_def dtv_registered_def talk_step_reply)
    qed (use eff ans reg registration_same [of s' s] \<open>dtv_send_pdu s \<noteq> None \<longleftrightarrow> dtv_registered s\<close>
        in \<open>simp add: command_result_def\<close>)
  next
    case unreg
    note eff = unregister_module_effect [OF unreg(2)]
    have ans: "responds enc (just []) cmd s st s'"
      using dtv_impl_quiet.unregister_module_answers [OF unreg(2)] .
    show ?thesis
    proof (cases "st = ERROR_NONE")
      case True
      with ans obtain p where p: "sys_out s' = sys_out s @ [p]" "pdu_service p = pdu_service cmd"
        "pdu_opcode p = pdu_opcode cmd" "pdu_data p = []"
        by (auto simp: answers_def payload_def just_def)
      then have "p = \<lparr>pdu_service = SERVICE_REGISTRY, pdu_opcode = OPCODE_UNREGISTER_MODULE, pdu_data = []\<rparr>"
        using cmd(1) unreg(1) by simp
      with True eff p(1) cmd(1) unreg(1) show ?thesis
        by (auto simp: command_result_def registration_def dtv_registered_def talk_step_reply)
    qed (use eff ans registration_same [of s' s] \<open>dtv_send_pdu s \<noteq> None \<longleftrightarrow> dtv_registered s\<close>
        in \<open>simp add: command_result_def\<close>)
  qed (use reg in \<open>simp add: command_result_def\<close>)
qed

lemma command_talks:
  assumes codec: "pdu_codec P enc" and room: "append_total P" "4 \<le> PDU_MAX_DATA_LENGTH P"
    and ok: "session_ok enc s" and run: "io_handle_pdu P (dtv_impl P) cmd s = Inr (r, s')"
  shows "session_ok enc s'"
    and "\<exists>p. sys_out s' = sys_out s @ [p] \<and>
           talk_step P enc (dtv_registered s) (Reply cmd p) (dtv_registered s')"
proof -
  have fits: "octet_fits P" using room by (simp add: octet_fits_def)
  obtain st s1 where 1: "handle_pdu_by_service P cmd (service_table P (dtv_impl P) (g_service_handler s)) s =
      Inr (st, s1)"
    "(if st \<noteq> 0 then andThen (send_error_reply P (pdu_service cmd) (word_of_int st) s1)
        (\<lambda>s. Inr (0, s)) else Inr (0, s1)) = Inr (r, s')"
    using run by (auto simp: io_handle_pdu_def andThen_Inr_iff)
  have res: "command_result P enc cmd s st s1"
  proof (cases "g_service_handler s (pdu_service cmd)")
    case None
    with 1(1) ok show ?thesis
      by (auto simp: handle_pdu_by_service_def handle_pdu_def service_table_def command_result_def
          session_ok_def split: if_splits)
  next
    case (Some f)
    with ok have f: "(pdu_service cmd, f) \<in> {(SERVICE_REGISTRY, Registry_handler), (SERVICE_DTV, Dtv_handler)}"
      unfolding session_ok_def services_ok_def by blast
    have "call_handler P (dtv_impl P) f cmd s = Inr (st, s1) \<or> st = ERROR_UNSUPPORTED \<and> s1 = s"
      using 1(1) Some by (auto simp: handle_pdu_by_service_def handle_pdu_def service_table_def split: if_splits)
    then show ?thesis
    proof
      assume "call_handler P (dtv_impl P) f cmd s = Inr (st, s1)"
      with f Some show ?thesis
        by (auto intro: dtv_command_result [OF codec ok] registry_command_result [OF codec room ok])
    qed (use ok in \<open>simp add: command_result_def session_ok_def\<close>)
  qed
  have send: "(dtv_send_pdu s' \<noteq> None \<longleftrightarrow> dtv_registered s') \<and> (\<exists>p. sys_out s' = sys_out s @ [p] \<and>
      talk_step P enc (dtv_registered s) (Reply cmd p) (dtv_registered s'))"
  proof (cases "st = 0")
    case True
    with 1(2) res show ?thesis by (simp add: command_result_def ERROR_NONE_def)
  next
    case False
    with res have s1: "sys_out s1 = sys_out s" "dtv_registered s1 = dtv_registered s"
      "dtv_send_pdu s1 \<noteq> None \<longleftrightarrow> dtv_registered s1"
      by (simp_all add: command_result_def ERROR_NONE_def)
    from False 1(2) have e: "send_error_reply P (pdu_service cmd) (word_of_int st) s1 = Inr s'"
      by (auto simp: andThen_Inr_iff)
    obtain p where p: "sys_out s' = sys_out s1 @ [p]" "pdu_service p = pdu_service cmd"
      "pdu_opcode p = OPCODE_ERROR" "payload enc is_octet p"
      using dtv_impl_quiet.send_error_reply_output [OF codec e] fits by blast
    have "registration s' = registration s1"
      using send_error_reply_services [OF e] by (rule registration_services)
    with registration_same [OF this] s1 p show ?thesis by (auto simp: talk_step_reply)
  qed
  then show "\<exists>p. sys_out s' = sys_out s @ [p] \<and>
      talk_step P enc (dtv_registered s) (Reply cmd p) (dtv_registered s')" by blast
  have "services_ok s" "well_typed enc s" using ok by (simp_all add: session_ok_def)
  with send io_handle_pdu_ok [OF _ run] command_typed [OF codec fits _ _ run]
  show "session_ok enc s'" by (simp add: session_ok_def)
qed

section \<open>Runs\<close>

text \<open>A step of the daemon says nothing, or is one step of the conversation.\<close>

definition simulated ::
  "'w platform \<Rightarrow> (pdu_arg \<Rightarrow> u8 list) \<Rightarrow> 'w sys \<Rightarrow> 'w sys \<Rightarrow> bool" where
  "simulated P enc s s' \<longleftrightarrow>
     sys_out s' = sys_out s \<and> dtv_registered s' = dtv_registered s \<or>
     (\<exists>t. sys_out s' = sys_out s @ [emitted t] \<and> genuine P t \<and>
        talk_step P enc (dtv_registered s) t (dtv_registered s'))"

lemma quiet_step:
  assumes "sys_out s' = sys_out s" "registration s' = registration s" "services_ok s'" "well_typed enc s'"
    and "session_ok enc s"
  shows "session_ok enc s' \<and> simulated P enc s s'"
  using assms registration_same [OF assms(2)] by (simp add: session_ok_def simulated_def)

lemma start_main_loop_registration:
  "start_main_loop P s = (r, s') \<Longrightarrow> dtv_send_pdu s' = dtv_send_pdu s \<and>
     dtv_registered s' = dtv_registered s"
  by (auto simp: start_main_loop_def init_registry_def uninit_registry_def Let_def dtv_registered_def
      split: if_splits prod.splits)

lemma fd_con_out_registration:
  assumes "fd_con_out P fd s = Inr (r, s')"
  shows "dtv_send_pdu s' = dtv_send_pdu s \<and> dtv_registered s' = dtv_registered s"
proof -
  obtain r1 s1 where 1: "connected_socket P fd s = Inr (r1, s1)"
    using assms by (auto simp: fd_con_out_def andThen_Inr_iff)
  have "services s1 = services s"
    using 1 by (auto simp: connected_socket_def Let_def andThen_Inr_iff
        split: if_splits prod.splits option.splits)
  then have s1: "dtv_send_pdu s1 = dtv_send_pdu s" "dtv_registered s1 = dtv_registered s"
    by (simp_all add: services_def dtv_registered_def)
  obtain r2 s2 where 2: "start_main_loop P s1 = (r2, s2)" by (metis surj_pair)
  with assms 1 s1 start_main_loop_registration [OF 2] show ?thesis
    by (auto simp: fd_con_out_def split: if_splits)
qed

lemma ntf_result_registration: "ntf_result P s s' \<Longrightarrow> registration s' = registration s"
  by (auto simp: ntf_result_def registration_def services_def dest: post_ntf_services)

lemma step_simulated:
  assumes codec: "pdu_codec P enc" and room: "append_total P" "4 \<le> PDU_MAX_DATA_LENGTH P"
    and step: "tvd_step P s s'" and ok: "session_ok enc s"
  shows "session_ok enc s' \<and> simulated P enc s s'"
proof -
  have fits: "octet_fits P" using room by (simp add: octet_fits_def)
  have ok1: "services_ok s" "well_typed enc s" using ok by (simp_all add: session_ok_def)
  have ok2: "services_ok s'" "well_typed enc s'"
    using step_services_ok [OF step ok1(1)] step_typed [OF codec fits step ok1] by simp_all
  note silent = quiet_step [OF _ _ ok2 ok]
  from step show ?thesis
  proof (rule tvd_stepE)
    fix r
    assume "fd_io_in P (dtv_impl P) s = Inr (r, s')"
    then obtain k where "io_state_in P (io_handle_pdu P (dtv_impl P)) s = Inr (k, s')"
      by (auto simp: fd_io_in_def andThen_Inr_iff)
    from io_state_in_result [OF this] show ?thesis
    proof
      assume "\<exists>s1 s2 c k. received P c \<and> pdu_rbuf_has_pdu P c \<and>
        sys_out s1 = sys_out s \<and> services s1 = services s \<and>
        io_handle_pdu P (dtv_impl P) (rbuf_pdu P c) s1 = Inr (k, s2) \<and> sys_out s' = sys_out s2 \<and>
        services s' = services s2"
      then obtain s1 s2 c k where c: "received P c" "pdu_rbuf_has_pdu P c" and
        1: "sys_out s1 = sys_out s" "services s1 = services s" and
        2: "io_handle_pdu P (dtv_impl P) (rbuf_pdu P c) s1 = Inr (k, s2)" and
        3: "sys_out s' = sys_out s2" "services s' = services s2" by blast
      note talk = command_talks [OF codec room session_ok_same [OF 1 ok] 2]
      obtain p where p: "sys_out s2 = sys_out s1 @ [p]"
        "talk_step P enc (dtv_registered s1) (Reply (rbuf_pdu P c) p) (dtv_registered s2)"
        using talk(2) by blast
      have "genuine P (Reply (rbuf_pdu P c) p)" using c by auto
      moreover have "dtv_registered s1 = dtv_registered s" "dtv_registered s' = dtv_registered s2"
        using registration_same(1) registration_services 1(2) 3(2) by blast+
      ultimately show ?thesis
        using session_ok_same [OF 3 talk(1)] p 1(1) 3(1) unfolding simulated_def
        by (intro conjI disjI2 exI [of _ "Reply (rbuf_pdu P c) p"]) simp_all
    next
      assume "sys_out s' = sys_out s \<and> services s' = services s"
      then show ?thesis using silent registration_services by blast
    qed
  next
    fix w ts
    assume t: "tasks s = w # ts" "send_ntf_pdu P w (s\<lparr>tasks := ts\<rparr>) = Inr s'"
    show ?thesis
    proof (cases "dtv_send_pdu s")
      case None
      with t show ?thesis by (intro silent) (auto simp: send_ntf_pdu_def registration_def)
    next
      case (Some f)
      with t(2) have c: "call_send P (Some f) w (s\<lparr>tasks := ts\<rparr>) = Inr s'" by (simp add: send_ntf_pdu_def)
      have out: "sys_out s' = sys_out s @ [wb_pdu w]" using call_send_output [OF c] by simp
      have "registration s' = registration s"
        using registration_services [OF call_send_services [OF c]] by (simp add: registration_def)
      note reg = registration_same [OF this]
      have "dtv_registered s" using ok Some by (simp add: session_ok_def)
      moreover have "notification enc (wb_pdu w)" using ok1(2) t(1) by (simp add: well_typed_def)
      ultimately have "simulated P enc s s'"
        using out reg unfolding simulated_def
        by (intro disjI2 exI [of _ "Notify (wb_pdu w)"]) (simp add: talk_step_notify)
      with ok ok2 reg show ?thesis by (simp add: session_ok_def)
    qed
  next
    fix fd r
    assume c: "fd_con_out P fd s = Inr (r, s')" "sendq (s_io s) = []"
    with fd_con_out_output [OF c] fd_con_out_registration [OF c(1)] ok ok2 show ?thesis
      by (simp add: session_ok_def simulated_def)
  next
    fix r
    assume "fd_io_out P s = Inr (r, s')"
    then show ?thesis
      by (intro silent) (auto simp: fd_io_out_def andThen_Inr_iff sys_out_def registration_def
          dest: io_state_out_output)
  next
    fix r
    assume "fd_io_err P s = Inr (r, s')"
    then show ?thesis
      by (intro silent) (auto simp: fd_io_err_def andThen_Inr_iff sys_out_def registration_def
          dest: io_state_err_output)
  next
    fix r
    assume "fd_io_hup P s = Inr (r, s')"
    then show ?thesis
      by (intro silent) (auto simp: fd_io_hup_def io_state_hup_err andThen_Inr_iff sys_out_def
          registration_def dest: io_state_err_output)
  next
    fix ev h e
    assume "s' = s\<lparr>s_hal := h, s_env := e\<rparr>" "device_init_notify P ev (s_hal s) (s_env s) = Inr (h, e)"
    then show ?thesis
      by (intro silent) (auto simp: sys_out_same_env registration_def dest: notify_sent)
  qed (auto intro!: silent dest!: notification_result simp: ntf_result_output ntf_result_registration)
qed

lemma reach_simulated:
  assumes "tvd_reach P s s'" and codec: "pdu_codec P enc"
    and room: "append_total P" "4 \<le> PDU_MAX_DATA_LENGTH P" and ok: "session_ok enc s"
  shows "session_ok enc s' \<and> (\<exists>ts. conversation P enc (dtv_registered s) ts (dtv_registered s') \<and>
           sys_out s' = sys_out s @ map emitted ts \<and> list_all (genuine P) ts)"
  using assms(1)
proof (induction rule: tvd_reach.induct)
  case here
  have "conversation P enc (dtv_registered s) [] (dtv_registered s)" by (rule conversation.silent)
  with ok show ?case by force
next
  case (more s1 s2)
  then obtain ts where ts: "conversation P enc (dtv_registered s) ts (dtv_registered s1)"
    "sys_out s1 = sys_out s @ map emitted ts" "list_all (genuine P) ts" "session_ok enc s1" by blast
  from step_simulated [OF codec room more.hyps(2) ts(4)]
  have ok2: "session_ok enc s2" and "simulated P enc s1 s2" by simp_all
  from this(2) show ?case unfolding simulated_def
  proof
    assume "\<exists>t. sys_out s2 = sys_out s1 @ [emitted t] \<and> genuine P t \<and>
        talk_step P enc (dtv_registered s1) t (dtv_registered s2)"
    then obtain t where t: "sys_out s2 = sys_out s1 @ [emitted t]" "genuine P t"
      "talk_step P enc (dtv_registered s1) t (dtv_registered s2)" by blast
    from conversation.talked [OF ts(1) t(3)] t(1,2) ts ok2 show ?thesis
      by (intro conjI exI [of _ "ts @ [t]"]) simp_all
  qed (use ts ok2 in auto)
qed

lemma started_session:
  assumes "tvd_init P opts s0 = Inr (IO_OK, s)" "4 \<le> ptr_size P" "pristine P s0"
  shows "session_ok enc s" "\<not> dtv_registered s" "sys_out s = []"
proof -
  have sv: "services s = services s0" using tvd_init_services [OF assms(1)] .
  with assms(3) show "\<not> dtv_registered s" by (simp add: services_def dtv_registered_def pristine_def)
  with sv started_typed [OF assms] assms(3) show "session_ok enc s"
    by (simp add: session_ok_def services_def pristine_def)
  show "sys_out s = []" by (rule started_typed(1) [OF assms])
qed

text \<open>What a run from the start has put out.\<close>

definition conversed :: "'w platform \<Rightarrow> (pdu_arg \<Rightarrow> u8 list) \<Rightarrow> 'w sys \<Rightarrow> bool" where
  "conversed P enc s \<longleftrightarrow>
     (\<exists>ts. conversation P enc False ts (dtv_registered s) \<and> sys_out s = map emitted ts \<and> list_all (genuine P) ts)"

lemma run_conversed:
  assumes "pdu_codec P enc" and "append_total P" and "4 \<le> PDU_MAX_DATA_LENGTH P" and "4 \<le> ptr_size P"
    and "tvd_init P opts s0 = Inr (IO_OK, s)" and "pristine P s0" and "tvd_reach P s s'"
  shows "conversed P enc s'"
proof -
  note st = started_session [OF assms(5,4,6)]
  from reach_simulated [OF assms(7,1-3) st(1)] st(2,3) show ?thesis by (simp add: conversed_def)
qed

text \<open>The machine confirms a registration before it serves anything or sends a notification.\<close>

definition version_pdu :: "(pdu_arg \<Rightarrow> u8 list) \<Rightarrow> pdu" where
  "version_pdu enc = \<lparr>pdu_service = SERVICE_REGISTRY, pdu_opcode = OPCODE_REGISTER_MODULE,
     pdu_data = enc (ArgI (of_nat PROTOCOL_VERSION))\<rparr>"

lemma conversation_registered:
  assumes "conversation P enc False ts reg" "reg"
  shows "version_pdu enc \<in> set (map emitted ts)"
  using assms
proof (induction rule: conversation.induct)
  case (talked ts reg1 t reg2)
  from talked.hyps(2) talked.IH talked.prems show ?case
    by (cases rule: talk_step.cases) (auto simp: version_pdu_def)
qed simp

lemma conversation_split:
  "conversation P enc reg (ts @ us) reg' \<Longrightarrow> \<exists>m. conversation P enc reg ts m"
proof (induction us arbitrary: reg' rule: rev_induct)
  case (snoc u us)
  from snoc.prems obtain m where "conversation P enc reg (ts @ us) m"
    by (cases rule: conversation.cases) auto
  then show ?case by (rule snoc.IH)
qed auto

lemma conversation_at:
  assumes "conversation P enc reg (ts @ t # us) reg'"
  obtains m m' where "conversation P enc reg ts m" "talk_step P enc m t m'"
proof -
  from assms have "conversation P enc reg ((ts @ [t]) @ us) reg'" by simp
  then obtain m' where "conversation P enc reg (ts @ [t]) m'" using conversation_split by blast
  then show thesis by (cases rule: conversation.cases) (auto intro: that)
qed

lemma talk_step_notification:
  assumes "talk_step P enc m t m'" "pdu_opcode (emitted t) \<in> {OPCODE_SCANNED_COMPLETE, OPCODE_SCAN_STOPPED}"
  shows "m"
  using assms
  by (cases rule: talk_step.cases)
    (auto simp: OPCODE_ERROR_def OPCODE_REGISTER_MODULE_def OPCODE_UNREGISTER_MODULE_def
      OPCODE_SCANNED_COMPLETE_def OPCODE_SCAN_STOPPED_def)

lemma notified_after_registration:
  assumes "conversation P enc False ts reg" "map emitted ts = xs @ p # ys"
    and "pdu_opcode p \<in> {OPCODE_SCANNED_COMPLETE, OPCODE_SCAN_STOPPED}"
  shows "version_pdu enc \<in> set xs"
proof -
  obtain us t vs where ts: "ts = us @ t # vs" "map emitted us = xs" "emitted t = p"
    using assms(2) by (auto simp: map_eq_append_conv map_eq_Cons_conv)
  with assms(1) obtain m m' where m: "conversation P enc False us m" "talk_step P enc m t m'"
    using conversation_at by blast
  with talk_step_notification [OF m(2)] ts(3) assms(3) have m by simp
  from conversation_registered [OF m(1) this] ts(2) show ?thesis by simp
qed

section \<open>Properties\<close>

text \<open>
  C3: Every run of the daemon is a conversation: what it has sent or queued from its start on is, PDU for
  PDU, the output of a machine that knows only whether the DTV service is registered. A command that was received gets
  one reply, in the order of arrival: an error PDU that changes nothing; the protocol version, once the service is
  registered, which happens only when it was not; an empty PDU when it is unregistered; or, while it is registered, a DTV response of the
  form of its opcode. Notifications are sent only while it is registered.
\<close>

theorem daemon_refines_conversation:
  assumes "pdu_codec P enc" and "append_total P" and "4 \<le> PDU_MAX_DATA_LENGTH P" and "4 \<le> ptr_size P"
    and "tvd_init P opts (tvd_start w) = Inr (IO_OK, s)" and "tvd_reach P s s'"
  shows "\<exists>ts. conversation P enc False ts (dtv_registered s') \<and> sys_out s' = map emitted ts \<and>
           list_all (genuine P) ts"
proof -
  from run_conversed [OF assms(1-5) tvd_start_pristine assms(6)] show ?thesis by (simp add: conversed_def)
qed

text \<open>A client that registers the DTV service.\<close>

definition registering_platform :: "unit platform" where
  "registering_platform = client_of [0, 1, 1, 0, 1]"

lemma registering_run:
  obtains s s' p where
    "tvd_init registering_platform \<lparr>socket_name = ''tvd''\<rparr> (tvd_start ()) = Inr (IO_OK, s)"
    "tvd_reach registering_platform s s'" "sys_out s' = [p]" "pdu_opcode p = OPCODE_REGISTER_MODULE"
    "dtv_registered s'" "tasks s' = []" "live (s_env s') = {1, 2}" "dtv_callbacks_set s'"
    "dtv_send_pdu s' = Some Io_send_pdu" "sendq (s_io s') = []" "next_addr (s_env s') = 4"
proof -
  obtain s s1 where i: "tvd_init registering_platform \<lparr>socket_name = ''tvd''\<rparr> (tvd_start ()) = Inr (IO_OK, s)"
    "tvd_reach registering_platform s s1"
    and s1: "io_rbuf (s_io s1) = Some \<lparr>rb_addr = 2, rb_maxlen = 65535, rb_len = 0, rb_raw = []\<rparr>"
      "sendq (s_io s1) = []" "sent (s_env s1) = []" "tasks s1 = []" "live (s_env s1) = {1, 2}"
      "next_addr (s_env s1) = 3" "g_service_handler s1 = [SERVICE_REGISTRY \<mapsto> Registry_handler]"
      "g_send_pdu s1 = Some Io_send_pdu" "s_hal s1 = hal_start"
    unfolding registering_platform_def by (rule connected_run)
  have "\<exists>r s2 p. fd_io_in registering_platform (dtv_impl registering_platform) s1 = Inr (r, s2) \<and>
      sys_out s2 = [p] \<and> pdu_opcode p = OPCODE_REGISTER_MODULE \<and> dtv_registered s2 \<and>
      tasks s2 = [] \<and> live (s_env s2) = {1, 2} \<and> dtv_callbacks_set s2 \<and>
      dtv_send_pdu s2 = Some Io_send_pdu \<and> sendq (s_io s2) = [] \<and> next_addr (s_env s2) = 4"
    using s1 by (simp add: fd_io_in_def io_state_in_def wake_def get_rbuf_def set_rbuf_def handle_rbuf_def
        acquire_wake_lock_def release_wake_lock_def Let_def registering_platform_def client_of_def sample_platform_def
        io_handle_pdu_def handle_pdu_by_service_def handle_pdu_def service_table_def service_id_defs
        error_code_defs registry_handler_def handle_pdu_by_opcode_def registry_table_def
        OPCODE_REGISTER_MODULE_def OPCODE_UNREGISTER_MODULE_def OPCODE_REGISTER_MODULE_RSP_SIZE_def
        register_module_def g_register_service_def register_dtv_def hal_init_sys_def call_drv_def
        tv_input_hal_init_def dtv_impl_def dtv_init_def registry_send_pdu_def call_send_def io_send_pdu_def
        sys_create_wbuf_def create_pdu_wbuf_def fresh_def io_state_send_def wbuf_append_def
        sample_append_def init_pdu_def io_state_send_pending_wbufs_def destroy_pdu_wbuf_def
        sys_out_def output_stream_def dtv_registered_def dtv_callbacks_set_def on_env_def
        TV_STATUS_SUCCESS_def PROTOCOL_VERSION_def)
  then obtain r s2 p where r: "fd_io_in registering_platform (dtv_impl registering_platform) s1 = Inr (r, s2)"
    "sys_out s2 = [p]" "pdu_opcode p = OPCODE_REGISTER_MODULE" "dtv_registered s2" "tasks s2 = []"
    "live (s_env s2) = {1, 2}" "dtv_callbacks_set s2" "dtv_send_pdu s2 = Some Io_send_pdu"
    "sendq (s_io s2) = []" "next_addr (s_env s2) = 4" by blast
  show thesis
    by (rule that [OF i(1) tvd_reach.more [OF i(2) tvd_step.readable [OF r(1)]] r(2-10)])
qed

theorem daemon_refines_conversation_witness:
  "\<exists>s s' p ts. tvd_init registering_platform \<lparr>socket_name = ''tvd''\<rparr> (tvd_start ()) = Inr (IO_OK, s) \<and>
     tvd_reach registering_platform s s' \<and> sys_out s' = [p] \<and> pdu_opcode p = OPCODE_REGISTER_MODULE \<and>
     conversation registering_platform sample_enc False ts True \<and> map emitted ts = [p]"
proof -
  obtain s s' p where r: "tvd_init registering_platform \<lparr>socket_name = ''tvd''\<rparr> (tvd_start ()) = Inr (IO_OK, s)"
    "tvd_reach registering_platform s s'" "sys_out s' = [p]" "pdu_opcode p = OPCODE_REGISTER_MODULE"
    "dtv_registered s'" using registering_run .
  from daemon_refines_conversation [OF client_of_lib(1,2) _ _ r(1,2) [unfolded registering_platform_def]]
    client_of_lib(3,4) r(3,5)
  obtain ts where "conversation registering_platform sample_enc False ts True" "map emitted ts = [p]"
    by (auto simp: registering_platform_def)
  with r show ?thesis
    by (intro exI [of _ s] exI [of _ s'] exI [of _ p] exI [of _ ts] conjI)
qed

text \<open>
  C5: The daemon never notifies a client that has not registered the DTV service: whenever it has sent or queued
  a scan notification, a confirmation of the registration, with the version of the protocol, lies before it in
  the output.
\<close>

theorem notifications_follow_registration:
  assumes "pdu_codec P enc" and "append_total P" and "4 \<le> PDU_MAX_DATA_LENGTH P" and "4 \<le> ptr_size P"
    and "tvd_init P opts (tvd_start w) = Inr (IO_OK, s)" and "tvd_reach P s s'"
    and "sys_out s' = before @ p # after"
    and "pdu_opcode p \<in> {OPCODE_SCANNED_COMPLETE, OPCODE_SCAN_STOPPED}"
  shows "version_pdu enc \<in> set before"
proof -
  from run_conversed [OF assms(1-5) tvd_start_pristine assms(6)] obtain ts where
    "conversation P enc False ts (dtv_registered s')" "sys_out s' = map emitted ts" by (auto simp: conversed_def)
  with assms(7) show ?thesis by (intro notified_after_registration [OF _ _ assms(8)]) simp_all
qed

lemma notifying_run:
  "\<exists>s s' p q. tvd_init registering_platform \<lparr>socket_name = ''tvd''\<rparr> (tvd_start ()) = Inr (IO_OK, s) \<and>
     tvd_reach registering_platform s s' \<and> sys_out s' = [p, q] \<and> pdu_opcode q = OPCODE_SCANNED_COMPLETE"
proof -
  let ?P = "registering_platform"
  obtain s s2 p where r: "tvd_init ?P \<lparr>socket_name = ''tvd''\<rparr> (tvd_start ()) = Inr (IO_OK, s)"
    "tvd_reach ?P s s2" "sys_out s2 = [p]" "tasks s2 = []"
    "live (s_env s2) = {1, 2}" "dtv_callbacks_set s2" "dtv_send_pdu s2 = Some Io_send_pdu"
    "sendq (s_io s2) = []" "next_addr (s_env s2) = 4" using registering_run .
  have "\<exists>s3 w. scan_status_nfy_cb ?P DTV_SCAN_COMPLETE (Ptr 1 ''7'') 1 s2 = Inr s3 \<and> tasks s3 = [w] \<and>
      sys_out s3 = [p] \<and> dtv_send_pdu s3 = Some Io_send_pdu \<and> sendq (s_io s3) = [] \<and>
      wb_addr w \<in> live (s_env s3) \<and> pdu_opcode (wb_pdu w) = OPCODE_SCANNED_COMPLETE"
    using r(3-9) by (simp add: scan_status_nfy_cb_def scanned_complete_cb_def registering_platform_def
        client_of_def sample_platform_def sys_create_wbuf_def create_pdu_wbuf_def fresh_def ntf_size_def
        to_size_def wbuf_append_def sample_append_def init_pdu_def post_ntf_def Let_def
        sys_out_def output_stream_def)
  then obtain s3 w where n: "scan_status_nfy_cb ?P DTV_SCAN_COMPLETE (Ptr 1 ''7'') 1 s2 = Inr s3"
    "tasks s3 = [w]" "sys_out s3 = [p]" "dtv_send_pdu s3 = Some Io_send_pdu" "sendq (s_io s3) = []"
    "wb_addr w \<in> live (s_env s3)" "pdu_opcode (wb_pdu w) = OPCODE_SCANNED_COMPLETE" by blast
  have "\<exists>s4. send_ntf_pdu ?P w (s3\<lparr>tasks := []\<rparr>) = Inr s4"
    using n(4-6) by (simp add: send_ntf_pdu_def call_send_def io_send_pdu_def io_state_send_def
        io_state_send_pending_wbufs_def destroy_pdu_wbuf_def registering_platform_def client_of_def)
  then obtain s4 where t: "send_ntf_pdu ?P w (s3\<lparr>tasks := []\<rparr>) = Inr s4" by blast
  have "sys_out s4 = [p, wb_pdu w]"
    using t n(3,4) call_send_output [of ?P "Some Io_send_pdu" w "s3\<lparr>tasks := []\<rparr>" s4]
    by (simp add: send_ntf_pdu_def)
  moreover have "tvd_reach ?P s s4"
    using tvd_reach.more [OF tvd_reach.more [OF r(2) tvd_step.scan [OF dtv_callbacks_setD(2) [OF r(6)] n(1)]] tvd_step.task [OF n(2) t]] .
  ultimately show ?thesis using r(1) n(7) by blast
qed

theorem notifications_follow_registration_witness:
  "\<exists>s s' q. tvd_init registering_platform \<lparr>socket_name = ''tvd''\<rparr> (tvd_start ()) = Inr (IO_OK, s) \<and>
     tvd_reach registering_platform s s' \<and> sys_out s' = [version_pdu sample_enc, q] \<and>
     pdu_opcode q = OPCODE_SCANNED_COMPLETE"
proof -
  obtain s s' p q where r: "tvd_init registering_platform \<lparr>socket_name = ''tvd''\<rparr> (tvd_start ()) = Inr (IO_OK, s)"
    "tvd_reach registering_platform s s'" "sys_out s' = [p] @ q # []" "pdu_opcode q = OPCODE_SCANNED_COMPLETE"
    using notifying_run by auto
  from notifications_follow_registration [OF client_of_lib(1,2) _ _ r(1,2) [unfolded registering_platform_def] r(3)]
    client_of_lib(3,4) r(4)
  have "version_pdu sample_enc = p" by simp
  with r show ?thesis by auto
qed

end
