(* ===== verification/Tvd_Program.thy ===== *)
theory Tvd_Program
  imports Tvd_Session
begin

text \<open>
  The program as a whole: \<open>main\<close> of main.c composed with \<open>init\<close>, the handlers the epoll loop runs, and
  \<open>uninit\<close>. \<open>epoll_loop\<close> of libfdio is an argument and nothing is assumed of it.
\<close>

section \<open>The whole program\<close>

text \<open>The state in which \<open>init\<close> is called.\<close>

definition started :: "'w platform \<Rightarrow> 'w \<Rightarrow> 'w sys" where
  "started P w = (wake True (tvd_start w))\<lparr>s_env := make_daemon P (s_env (wake True (tvd_start w)))\<rparr>"

lemma started_ok: "sys_ok P (started P w)" "unconnected (started P w)" "awake (s_env (started P w))"
  "live (s_env (started P w)) = {}" "pristine P (started P w)"
proof -
  let ?s = "wake True (tvd_start w)"
  have "sys_ok P ?s" by (rule wake_ok [OF tvd_start_ok])
  then show ok: "sys_ok P (started P w)"
    unfolding started_def by (rule sys_ok_frame) simp_all
  show idle: "unconnected (started P w)" "awake (s_env (started P w))" "live (s_env (started P w)) = {}"
    by (simp_all add: started_def unconnected_def tvd_start_def IO_STATE_INITIALIZER_def wake_def
        acquire_wake_lock_def)
  show "pristine P (started P w)"
    using ok idle by (simp add: pristine_def started_def tvd_start_def sys_out_def output_stream_def
        IO_STATE_INITIALIZER_def wake_def acquire_wake_lock_def)
qed

text \<open>
  What the callbacks do after a successful \<open>init\<close>, whatever events the loop hands to the handlers before it
  calls \<open>uninit\<close>. What the client has been sent by then is the beginning of the output of a conversation,
  provided that libpdu appends whatever there is room for.
\<close>

definition serves :: "'w platform \<Rightarrow> (pdu_arg \<Rightarrow> u8 list) \<Rightarrow> 'w sys \<Rightarrow> event list \<Rightarrow> bool" where
  "serves P enc s1 evs \<longleftrightarrow>
     run_steps (daemon_step P) evs s1 = Inl Abort_call \<or>
     (\<exists>s2 s3. run_steps (daemon_step P) evs s1 = Inr s2 \<and> sys_ok P s2 \<and> tvd_uninit P s2 = Inr s3 \<and>
        prefix (sent (s_env s3)) (sys_out s2) \<and>
        (append_total P \<and> 4 \<le> PDU_MAX_DATA_LENGTH P \<longrightarrow> conversed P enc s2))"

lemma init_serves:
  assumes P: "dependable P enc" "4 \<le> ptr_size P" and i: "tvd_init P opts (started P w) = Inr (IO_OK, s1)"
    and legal: "list_all (legal_event P) evs"
  shows "serves P enc s1 evs"
proof -
  have "sys_ok P s1 \<and> dependable P enc"
    using tvd_init_total [OF started_ok(1,2) P(2), of opts w] i P(1) by auto
  from daemon.run_survives [OF this legal] show ?thesis
  proof
    assume "run_steps (daemon_step P) evs s1 = Inl Abort_call"
    then show ?thesis by (simp add: serves_def)
  next
    assume "\<exists>s'. run_steps (daemon_step P) evs s1 = Inr s' \<and> sys_ok P s' \<and> dependable P enc"
    then obtain s2 where 2: "run_steps (daemon_step P) evs s1 = Inr s2" "sys_ok P s2" by blast
    obtain s3 where 3: "tvd_uninit P s2 = Inr s3" "sys_out s3 = sys_out s2"
      using tvd_uninit_total [OF 2(2)] by blast
    have "tvd_reach P s1 s2" using 2(1) tvd_reach.here by (rule daemon_run_reach)
    then have said: "append_total P \<and> 4 \<le> PDU_MAX_DATA_LENGTH P \<longrightarrow> conversed P enc s2"
      using run_conversed [OF _ _ _ P(2) i started_ok(5)] P(1) by (simp add: dependable_def)
    have "prefix (sent (s_env s3)) (sys_out s3)" by (simp add: sys_out_def output_stream_def)
    then have sent: "prefix (sent (s_env s3)) (sys_out s2)" by (simp only: 3(2))
    with 2 3(1) said sent show ?thesis unfolding serves_def by blast
  qed
qed

lemma main_callbacks:
  assumes P: "dependable P enc" "4 \<le> ptr_size P"
  shows "\<exists>r s1. tvd_init P opts (started P w) = Inr (r, s1) \<and>
     (if r = IO_OK
      then \<not> awake (s_env s1) \<and> (\<forall>evs. list_all (legal_event P) evs \<longrightarrow> serves P enc s1 evs)
      else awake (s_env s1) \<and> live (s_env s1) = {})"
proof -
  obtain r s1 where i: "tvd_init P opts (started P w) = Inr (r, s1)" and
    r: "if r = IO_OK then sys_ok P s1 \<and> awaits_connection s1 \<and> \<not> awake (s_env s1)
        else live (s_env s1) = {} \<and> awake (s_env s1)"
    using tvd_init_total [OF started_ok(1,2) P(2), of opts w]
      started_ok(3,4) [of P w] by (elim exE conjE) (simp split: if_splits)
  show ?thesis
  proof (cases "r = IO_OK")
    case True
    with i r init_serves [OF P, of opts w s1] show ?thesis by auto
  next
    case False
    with i r show ?thesis by auto
  qed
qed

lemma main_accepted:
  assumes "list_all address_option args"
  shows "tvd_main P loop args (tvd_start w) =
     andThen (loop (tvd_init P (given_options args)) (tvd_uninit P) (started P w))
       (\<lambda>(r, s). Inr (if r < 0 then EXIT_FAILURE else EXIT_SUCCESS, s))"
  by (simp add: tvd_main_def parse_opts_given [OF assms] started_def Let_def)

lemma main_rejected:
  assumes "\<not> list_all address_option args"
  shows "tvd_main P loop args s =
    Inr (if fst (hd (dropWhile address_option args)) = CHR ''h'' then EXIT_SUCCESS else EXIT_FAILURE,
      wake False (wake True s))"
proof -
  obtain c arg rest where d: "dropWhile address_option args = (c, arg) # rest"
    using assms by (cases "dropWhile address_option args")
      (auto simp: list_all_iff dropWhile_eq_Nil_conv)
  then show ?thesis by (simp add: tvd_main_def parse_opts_result split: list.splits)
qed

section \<open>Properties\<close>

text \<open>
  C12: \<open>main\<close> from the command line to the exit status. An option other than an address with a non-empty name
  ends it at once with the wake lock released, with success if the first such option asks for help and
  with failure otherwise. If there is none, \<open>main\<close> calls the epoll loop once, whatever that function does,
  with \<open>init\<close> for the last address given, or \<open>tvd\<close>, with \<open>uninit\<close>, and in the state of a daemon that has just
  been started; it fails exactly if the loop returns a negative number, and changes nothing after it. In
  that state \<open>init\<close> returns. If it succeeds the wake lock is released, and after any events \<open>uninit\<close> runs
  through, unless an error reply could not be sent and the daemon has aborted, and what the client has
  been sent by then is the beginning of the output of a conversation of the abstract machine. If it
  fails nothing is left allocated and the wake lock is still held.
\<close>

theorem main_outcome:
  assumes "dependable P enc" and "4 \<le> ptr_size P"
  shows "if list_all address_option args
         then tvd_main P loop args (tvd_start w) =
             andThen (loop (tvd_init P (given_options args)) (tvd_uninit P) (started P w))
               (\<lambda>(r, s). Inr (if r < 0 then EXIT_FAILURE else EXIT_SUCCESS, s)) \<and>
           (\<exists>r s1. tvd_init P (given_options args) (started P w) = Inr (r, s1) \<and>
             (if r = IO_OK
              then \<not> awake (s_env s1) \<and> (\<forall>evs. list_all (legal_event P) evs \<longrightarrow> serves P enc s1 evs)
              else awake (s_env s1) \<and> live (s_env s1) = {}))
         else tvd_main P loop args (tvd_start w) =
           Inr (if fst (hd (dropWhile address_option args)) = CHR ''h'' then EXIT_SUCCESS else EXIT_FAILURE,
             wake False (wake True (tvd_start w)))"
  using main_accepted [of args P loop w] main_callbacks [OF assms, of "given_options args" w]
    main_rejected [of args P loop "tvd_start w"]
  by (cases "list_all address_option args") (simp_all only: if_True if_False simp_thms)

text \<open>Two loops: one that serves two events, and one that fails before it has called \<open>init\<close>.\<close>

definition sample_loop ::
  "(unit sys \<Rightarrow> (ioresult \<times> unit sys) res) \<Rightarrow> (unit sys \<Rightarrow> unit sys res) \<Rightarrow> unit sys \<Rightarrow> (int \<times> unit sys) res" where
  "sample_loop ini fin s =
     andThen (ini s) (\<lambda>(r, s1).
       if r = IO_OK
       then andThen (run_steps (daemon_step client_platform) [Socket Ev_out 3, Socket Ev_in 3] s1) (\<lambda>s2.
              andThen (fin s2) (\<lambda>s3. Inr (0, s3)))
       else Inr (-1, s1))"

definition failing_loop ::
  "(unit sys \<Rightarrow> (ioresult \<times> unit sys) res) \<Rightarrow> (unit sys \<Rightarrow> unit sys res) \<Rightarrow> unit sys \<Rightarrow> (int \<times> unit sys) res" where
  "failing_loop ini fin s = Inr (-1, s)"

theorem main_outcome_witness:
  "tvd_main client_platform sample_loop [(CHR ''a'', Some ''x''), (CHR ''h'', None)] (tvd_start ()) =
     Inr (EXIT_SUCCESS, wake False (wake True (tvd_start ()))) \<and>
   tvd_main client_platform failing_loop [(CHR ''a'', Some ''x'')] (tvd_start ()) =
     Inr (EXIT_FAILURE, started client_platform ()) \<and>
   (\<exists>s1. tvd_init client_platform \<lparr>socket_name = ''x''\<rparr> (started client_platform ()) = Inr (IO_OK, s1) \<and>
     \<not> awake (s_env s1) \<and> serves client_platform sample_enc s1 [Socket Ev_out 3, Socket Ev_in 3] \<and>
     tvd_main client_platform sample_loop [(CHR ''a'', Some ''x'')] (tvd_start ()) \<in>
       {Inl Abort_call} \<union> {Inr (EXIT_SUCCESS, s3) |s3. True})"
proof -
  let ?P = client_platform and ?a = "[(CHR ''a'', Some ''x'')]" and ?evs = "[Socket Ev_out 3, Socket Ev_in 3]"
  note main = main_outcome [OF client_dependable(2,1), where w = "()"]
  obtain s1 where i: "tvd_init ?P \<lparr>socket_name = ''x''\<rparr> (started ?P ()) = Inr (IO_OK, s1)"
    using create_sockaddr_un_eq [of ?P "''x''"]
    by (simp add: tvd_init_def init_io_def Let_def malloc_def fresh_def connect_socket_def
        client_platform_def add_fd_events_def sizeof_sun_path_def)
  have opts: "list_all address_option ?a" "given_options ?a = \<lparr>socket_name = ''x''\<rparr>"
    by (simp_all add: address_option_def given_options_def)
  have served: "\<not> awake (s_env s1)" "\<forall>evs. list_all (legal_event ?P) evs \<longrightarrow> serves ?P sample_enc s1 evs"
    using main [of ?a sample_loop] opts i by auto
  have "tvd_main ?P failing_loop ?a (tvd_start ()) = Inr (EXIT_FAILURE, started ?P ())"
    using main [of ?a failing_loop] opts by (simp add: failing_loop_def)
  moreover have "tvd_main ?P sample_loop [(CHR ''a'', Some ''x''), (CHR ''h'', None)] (tvd_start ()) =
      Inr (EXIT_SUCCESS, wake False (wake True (tvd_start ())))"
    using main [of "[(CHR ''a'', Some ''x''), (CHR ''h'', None)]" sample_loop]
    by (simp add: address_option_def)
  moreover have ran: "serves ?P sample_enc s1 ?evs" using served(2) by simp
  moreover have "tvd_main ?P sample_loop ?a (tvd_start ()) = andThen (run_steps (daemon_step ?P) ?evs s1)
      (\<lambda>s2. andThen (tvd_uninit ?P s2) (\<lambda>s3. Inr (EXIT_SUCCESS, s3)))"
  proof -
    have "sample_loop (tvd_init ?P \<lparr>socket_name = ''x''\<rparr>) (tvd_uninit ?P) (started ?P ()) =
        andThen (run_steps (daemon_step ?P) ?evs s1) (\<lambda>s2. andThen (tvd_uninit ?P s2) (\<lambda>s3. Inr (0, s3)))"
      by (simp add: sample_loop_def i del: run_steps.simps)
    moreover have "tvd_main ?P sample_loop ?a (tvd_start ()) =
        andThen (sample_loop (tvd_init ?P \<lparr>socket_name = ''x''\<rparr>) (tvd_uninit ?P) (started ?P ()))
          (\<lambda>(r, s). Inr (if r < 0 then EXIT_FAILURE else EXIT_SUCCESS, s))"
      using main [of ?a sample_loop] opts by simp
    ultimately show ?thesis by (simp add: andThen_assoc del: run_steps.simps)
  qed
  then have "tvd_main ?P sample_loop ?a (tvd_start ()) \<in> {Inl Abort_call} \<union> {Inr (EXIT_SUCCESS, s3) |s3. True}"
    using ran by (auto simp: serves_def simp del: run_steps.simps)
  ultimately show ?thesis using i served(1) by blast
qed

end
