(* ===== verification/Tvd_Request.thy ===== *)
theory Tvd_Request
  imports Tvd_Session
begin

text \<open>
  From the octets of a command to the octets of its answer: receiving (\<open>io_state_in\<close>), handling
  (\<open>handle_pdu\<close> and the services), queueing (\<open>io_state_send\<close>) and flushing (\<open>io_state_out\<close>) composed.
\<close>

section \<open>A request\<close>

text \<open>The next \<open>recvmsg\<close> on the connection completes the PDU \<open>cmd\<close>.\<close>

definition receives :: "'w platform \<Rightarrow> 'w sys \<Rightarrow> pdu \<Rightarrow> bool" where
  "receives P s cmd \<longleftrightarrow>
     (case io_rbuf (s_io s) of
        None \<Rightarrow> False
      | Some b \<Rightarrow>
          (case recvmsg P (io_fd (s_io s)) (rb_maxlen b) (world (s_env s)) of
             ((res, octets), _) \<Rightarrow>
               let c = b\<lparr>rb_raw := octets @ drop (length octets) (rb_raw b), rb_len := nat res\<rparr>
               in 0 < res \<and> pdu_rbuf_has_pdu P c \<and> rbuf_pdu P c = cmd))"

text \<open>Memory for write buffers, and an epoll loop that accepts the descriptor.\<close>

definition well_supplied :: "'w platform \<Rightarrow> bool" where
  "well_supplied P \<longleftrightarrow>
     (\<forall>n t w. fst (create_pdu_wbuf_ok P n t w)) \<and>
     (\<forall>fd ev w. 0 \<le> fst (add_fd_events_to_epoll_loop P fd ev w))"

section \<open>Error replies do not abort\<close>

lemma send_pending_no_abort: "send_pending P fd q e \<noteq> Inl Abort_call"
  by (induction q arbitrary: e)
    (auto simp: destroy_pdu_wbuf_def free_ptr_def split: prod.splits)

lemma wbuf_append_no_abort: "wbuf_append P args w \<noteq> Inl Abort_call"
  by (auto simp: wbuf_append_def split: option.splits)

lemma add_fd_events_supplied: "well_supplied P \<Longrightarrow> add_fd_events P fd ev e = (r, e') \<Longrightarrow> 0 \<le> r"
  by (auto simp: well_supplied_def add_fd_events_def ext_call_def split: prod.splits) (metis fst_conv)

lemma io_state_send_supplied:
  assumes "well_supplied P"
  shows "io_state_send P w io e \<noteq> Inl Abort_call"
    and "io_state_send P w io e = Inr (r, io', e') \<Longrightarrow> 0 \<le> r"
  using send_pending_no_abort [of P] add_fd_events_supplied [OF assms]
  by (auto simp: io_state_send_def io_state_send_pending_wbufs_def Let_def andThen_Inr_iff
      andThen_Inl_iff split: if_splits prod.splits) (metis not_less)+

lemma error_reply_supplied:
  assumes "well_supplied P" shows "send_error_reply P sv err s \<noteq> Inl Abort_call"
proof -
  have "fst (create_pdu_wbuf_ok P n t w)" for n t w using assms by (simp add: well_supplied_def)
  then obtain w s1 where c: "sys_create_wbuf P OPCODE_ERROR_RSP_SIZE 0 False s = (Some w, s1)"
    by (simp add: sys_create_wbuf_def create_pdu_wbuf_def ext_call_def fresh_def case_prod_beta)
  show ?thesis
  proof
    assume "send_error_reply P sv err s = Inl Abort_call"
    then obtain w1 where w1: "andThen (io_state_send P w1 (s_io s1) (s_env s1)) (\<lambda>(r, io, e).
        if r < 0 then Inl Abort_call else Inr (s1\<lparr>s_io := io, s_env := e\<rparr>)) = Inl Abort_call"
      by (auto simp: send_error_reply_def c andThen_Inl_iff wbuf_append_no_abort)
    then obtain r io e where "io_state_send P w1 (s_io s1) (s_env s1) = Inr (r, io, e)" "r < 0"
      using io_state_send_supplied(1) [OF assms] by (auto simp: andThen_Inl_iff split: if_splits)
    with io_state_send_supplied(2) [OF assms] show False by fastforce
  qed
qed

lemma command_supplied:
  assumes ok: "sys_ok P s" and P: "dependable P enc" "well_supplied P" and cmd: "benign s cmd"
  shows "\<exists>s'. io_handle_pdu P (dtv_impl P) cmd s = Inr (0, s') \<and> sys_ok P s' \<and>
           io_rbuf (s_io s') = io_rbuf (s_io s)"
proof -
  have lib: "pdu_codec P enc" "PDU_MAX_NUM_SERVICES P = 256" using P(1) by (simp_all add: dependable_def)
  obtain st s1 where "handle_pdu_by_service P cmd (service_table P (dtv_impl P) (g_service_handler s)) s =
      Inr (st, s1)"
    using service_command_total [OF ok lib cmd] by blast
  then have "io_handle_pdu P (dtv_impl P) cmd s \<noteq> Inl Abort_call"
    using error_reply_supplied [OF P(2)] by (auto simp: io_handle_pdu_def andThen_Inl_iff)
  with io_handle_pdu_total [OF ok lib cmd] show ?thesis by blast
qed

section \<open>Waiting output is watched\<close>

text \<open>The epoll loop watches the connection as its state says, and for writability while PDUs wait.\<close>

definition attended :: "'w sys \<Rightarrow> bool" where
  "attended s \<longleftrightarrow> polled (s_io s, s_env s)"

lemma attended_frame:
  "s_io s' = s_io s \<Longrightarrow> watched (s_env s') = watched (s_env s) \<Longrightarrow> attended s' = attended s"
  by (simp add: attended_def polled_def)

lemma attended_handlers [simp]: "attended (s\<lparr>g_service_handler := g\<rparr>) = attended s"
  by (simp add: attended_def)

lemma attended_input [simp]: "attended (set_rbuf b s) = attended s" "attended (wake v s) = attended s"
  by (simp_all add: attended_def polled_def set_rbuf_def wake_def acquire_wake_lock_def release_wake_lock_def)

lemma create_attended: "sys_create_wbuf P n t c s = (w, s') \<Longrightarrow> attended s' = attended s"
  by (rule attended_frame) (auto simp: sys_create_wbuf_def create_pdu_wbuf_def fresh_def
      split: prod.splits if_splits dest!: ext_call_env)

lemma destroy_attended: "on_env (destroy_pdu_wbuf w) s = Inr s' \<Longrightarrow> attended s' = attended s"
  by (rule attended_frame) (auto simp: on_env_def destroy_pdu_wbuf_def free_ptr_def split: if_splits)

lemma malloc_attended: "attended (snd (sys_malloc P n x s)) = attended s"
  by (rule attended_frame) (auto simp: sys_malloc_def malloc_def fresh_def split: prod.splits if_splits dest!: ext_call_env)

lemma send_pending_watched: "send_pending P fd q e = Inr (q', e') \<Longrightarrow> watched e' = watched e"
proof (induction q arbitrary: e)
  case (Cons w q)
  obtain res e1 where x: "ext_call (send_pdu_wbuf P w fd) e = (res, e1)" by (metis surj_pair)
  show ?case
  proof (cases "res \<noteq> 0")
    case True
    with Cons.prems x obtain e2 where "destroy_pdu_wbuf w (e1\<lparr>sent := sent e1 @ [wb_pdu w]\<rparr>) = Inr e2"
      "send_pending P fd q e2 = Inr (q', e')" by (auto simp: andThen_Inr_iff split: if_splits)
    with Cons.IH [of e2] ext_call_env [OF x] show ?thesis
      by (auto simp: destroy_pdu_wbuf_def free_ptr_def split: if_splits)
  qed (use Cons.prems x ext_call_env [OF x] in \<open>auto split: if_splits\<close>)
qed simp

lemma io_state_send_polled:
  assumes "well_supplied P" "io_state_send P w io e = Inr (r, io', e')" "polled (io, e)"
  shows "polled (io', e')"
proof -
  let ?io = "io\<lparr>sendq := sendq io @ [w]\<rparr>"
  obtain q e1 where p: "send_pending P (io_fd io) (sendq io @ [w]) e = Inr (q, e1)"
    using assms(2) by (auto simp: io_state_send_def io_state_send_pending_wbufs_def andThen_Inr_iff split: if_splits)
  note w = send_pending_watched [OF p]
  let ?io1 = "io\<lparr>sendq := q\<rparr>" and ?ev = "or (epoll_events io) EPOLLOUT"
  obtain r2 e2 where a: "add_fd_events P (io_fd io) ?ev e1 = (r2, e2)" by (metis surj_pair)
  have "0 \<le> r2" by (rule add_fd_events_supplied [OF assms(1) a])
  then have w2: "watched e2 = (watched e1)(io_fd io := Some ?ev)" using add_fd_events_env [OF a] by simp
  show ?thesis
  proof (cases "q \<noteq> [] \<and> and (epoll_events io) EPOLLOUT = 0")
    case True
    with assms(2) p a \<open>0 \<le> r2\<close> have "io' = ?io1\<lparr>epoll_events := ?ev\<rparr>" "e' = e2"
      by (auto simp: io_state_send_def io_state_send_pending_wbufs_def Let_def split: if_splits)
    with w2 or_EPOLLOUT [of "epoll_events io"] show ?thesis by (simp add: polled_def)
  next
    case False
    with assms(2) p have "io' = ?io1" "e' = e1"
      by (auto simp: io_state_send_def io_state_send_pending_wbufs_def split: if_splits)
    with False w assms(3) show ?thesis by (auto simp: polled_def)
  qed
qed

lemma call_send_attended:
  "well_supplied P \<Longrightarrow> call_send P f w s = Inr s' \<Longrightarrow> attended s \<Longrightarrow> attended s'"
  by (auto simp: call_send_def io_send_pdu_def attended_def andThen_Inr_iff split: option.splits send_fn.splits
      intro: io_state_send_polled)

lemma error_reply_attended:
  assumes "well_supplied P" "send_error_reply P sv err s = Inr s'" "attended s"
  shows "attended s'"
proof -
  obtain w s1 where c: "sys_create_wbuf P OPCODE_ERROR_RSP_SIZE 0 False s = (w, s1)" by (metis surj_pair)
  from assms(2) c obtain w1 r io e where "io_state_send P w1 (s_io s1) (s_env s1) = Inr (r, io, e)"
    "s' = s1\<lparr>s_io := io, s_env := e\<rparr>"
    by (auto simp: send_error_reply_def andThen_Inr_iff split: option.splits if_splits)
  with io_state_send_polled [OF assms(1) this(1)] create_attended [OF c] assms(3)
  show ?thesis by (simp add: attended_def)
qed

lemma register_dtv_attended:
  assumes "sys_ok P s" "register_dtv P (dtv_impl P) f s = Inr (h, s')"
  shows "attended s' = attended s"
  using register_dtv_total [OF assms(1), of f] assms(2)
  by (intro attended_frame) (auto simp: world_only_def)

lemma unregister_dtv_attended:
  assumes "sys_ok P s" "unregister_dtv P (dtv_impl P) s = Inr (r, s')"
  shows "attended s' = attended s"
  using unregister_dtv_total [OF assms(1)] assms(2) close_all_world [of "s_env s" P "active_streams (s_hal s)"]
  by (intro attended_frame) (auto simp: world_only_def)

lemma register_module_attended:
  assumes sup: "well_supplied P" and ok: "sys_ok P s" and run: "register_module P (dtv_impl P) cmd s = Inr (st, s')"
    and att: "attended s"
  shows "attended s'"
proof -
  obtain w s1 where c: "sys_create_wbuf P OPCODE_REGISTER_MODULE_RSP_SIZE 0 False s = (w, s1)" by (metis surj_pair)
  note ok1 = sys_create_wbuf_ok(1) [OF c ok]
  have att1: "attended s1" using create_attended [OF c] att by simp
  show ?thesis
    using run att c att1
    by (auto simp: register_module_def g_register_service_def andThen_Inr_iff Let_def registry_send_pdu_def
        split: option.splits list.splits pdu_arg.splits if_splits
        dest!: register_dtv_attended [OF ok1] destroy_attended call_send_attended [OF sup])
qed

lemma unregister_module_attended:
  assumes sup: "well_supplied P" and ok: "sys_ok P s" and run: "unregister_module P (dtv_impl P) cmd s = Inr (st, s')"
    and att: "attended s"
  shows "attended s'"
proof -
  obtain w s1 where c: "sys_create_wbuf P 0 0 False s = (w, s1)" by (metis surj_pair)
  note ok1 = sys_create_wbuf_ok(1) [OF c ok]
  have att1: "attended s1" using create_attended [OF c] att by simp
  show ?thesis
    using run att c att1
    by (auto simp: unregister_module_def g_unregister_service_def andThen_Inr_iff Let_def registry_send_pdu_def
        split: option.splits list.splits pdu_arg.splits if_splits
        dest!: unregister_dtv_attended [OF ok1] destroy_attended call_send_attended [OF sup])
qed

lemma dtv_handler_attended:
  assumes "rejected_opcode (pdu_opcode cmd)" "dtv_handler P (dtv_impl P) cmd s = Inr (st, s')" "attended s"
  shows "attended s'"
  using assms get_channels_stub [of P cmd s] get_programs_stub [of P cmd s]
  by (auto simp: dtv_handler_def handle_pdu_by_opcode_def handle_pdu_def dtv_table_def rejected_opcode_def
      start_scan_stub stop_scan_stub clean_cache_stub malloc_attended split: if_splits option.splits)

lemma command_attended:
  assumes sup: "well_supplied P" and ok: "sys_ok P s" and cmd: "benign s cmd"
    and run: "io_handle_pdu P (dtv_impl P) cmd s = Inr (r, s')" and att: "attended s"
  shows "attended s'"
proof -
  obtain st s1 where 1: "handle_pdu_by_service P cmd (service_table P (dtv_impl P) (g_service_handler s)) s = Inr (st, s1)"
    "(if st \<noteq> 0 then andThen (send_error_reply P (pdu_service cmd) (word_of_int st) s1)
        (\<lambda>s. Inr (0, s)) else Inr (0, s1)) = Inr (r, s')"
    using run by (auto simp: io_handle_pdu_def andThen_Inr_iff)
  have "attended s1"
  proof (cases "g_service_handler s (pdu_service cmd)")
    case None
    with 1(1) att show ?thesis
      by (auto simp: handle_pdu_by_service_def handle_pdu_def service_table_def split: if_splits)
  next
    case (Some f)
    with 1(1) have "call_handler P (dtv_impl P) f cmd s = Inr (st, s1) \<or> s1 = s"
      by (auto simp: handle_pdu_by_service_def handle_pdu_def service_table_def split: if_splits)
    with Some cmd att show ?thesis
      by (cases f) (auto simp: benign_def registry_handler_def handle_pdu_by_opcode_def handle_pdu_def
          registry_table_def split: if_splits option.splits
          intro: dtv_handler_attended register_module_attended [OF sup ok] unregister_module_attended [OF sup ok])
  qed
  with 1(2) show ?thesis
    by (auto simp: andThen_Inr_iff split: if_splits intro: error_reply_attended [OF sup])
qed

section \<open>Receiving a request\<close>

lemma receivesE:
  assumes "receives P s cmd" and sok: "sys_ok P s"
  obtains c s1 where "received P c" "pdu_rbuf_has_pdu P c" "rbuf_pdu P c = cmd"
    "io_rbuf (s_io s1) = Some c" "sys_out s1 = sys_out s" "services s1 = services s" "sys_ok P s1"
    "attended s1 = attended s"
    "io_state_in P handle s =
       andThen (andThen (handle cmd s1) (\<lambda>(r, s).
         if r < 0 then Inr (-1, s)
         else andThen (get_rbuf s) (\<lambda>b. Inr (0, set_rbuf (b\<lparr>rb_len := 0\<rparr>) s))))
       (\<lambda>(r, s). Inr (r, wake False s))"
proof -
  obtain b res octets w where b: "io_rbuf (s_io s) = Some b"
    and r: "recvmsg P (io_fd (s_io s)) (rb_maxlen b) (world (s_env s)) = ((res, octets), w)" "0 < res"
    and c: "pdu_rbuf_has_pdu P (b\<lparr>rb_raw := octets @ drop (length octets) (rb_raw b), rb_len := nat res\<rparr>)"
      "rbuf_pdu P (b\<lparr>rb_raw := octets @ drop (length octets) (rb_raw b), rb_len := nat res\<rparr>) = cmd"
    using assms by (auto simp: receives_def Let_def split: option.splits prod.splits)
  let ?s = "wake True s"
  define c where "c = b\<lparr>rb_raw := octets @ drop (length octets) (rb_raw b), rb_len := nat res\<rparr>"
  obtain e where e: "ext_call (recvmsg P (io_fd (s_io ?s)) (rb_maxlen b)) (s_env ?s) = ((res, octets), e)"
    using r by (auto simp: ext_call_def wake_def acquire_wake_lock_def)
  let ?c = "b\<lparr>rb_raw := octets @ drop (length octets) (rb_raw b)\<rparr>"
  define s1 where "s1 = set_rbuf c (set_rbuf ?c (?s\<lparr>s_env := e\<rparr>))"
  have b0: "io_rbuf (s_io ?s) = Some b" using b by (simp add: wake_def)
  have rv: "received P c"
    unfolding received_def c_def using r by (intro exI conjI) (assumption, simp_all)
  have ok0: "sys_ok P ?s" using sok by simp
  have ok1: "sys_ok P (set_rbuf ?c (?s\<lparr>s_env := e\<rparr>))"
    using b0 by (intro set_rbuf_ok [OF ext_call_ok [OF ok0 e]]) simp_all
  have ok2: "sys_ok P s1"
    unfolding s1_def by (rule set_rbuf_ok [OF ok1, of ?c]) (simp_all add: c_def set_rbuf_def)
  have g: "get_rbuf ?s = Inr b" using ok0 b0 by (rule get_rbuf_ok)
  have g1: "get_rbuf (set_rbuf ?c (?s\<lparr>s_env := e\<rparr>)) = Inr ?c"
    using ok1 by (rule get_rbuf_ok) (simp add: set_rbuf_def)
  have run: "io_state_in P handle s = andThen (andThen (handle cmd s1) (\<lambda>(r, s).
         if r < 0 then Inr (-1, s)
         else andThen (get_rbuf s) (\<lambda>b. Inr (0, set_rbuf (b\<lparr>rb_len := 0\<rparr>) s))))
       (\<lambda>(r, s). Inr (r, wake False s))"
    using r(2) c g1 unfolding io_state_in_def Let_def g andThen.simps e prod.case
    by (simp add: handle_rbuf_def Let_def s1_def c_def)
  show thesis
  proof (rule that [OF rv _ _ _ _ _ ok2 _ run])
    show "sys_out s1 = sys_out s" using ext_call_sent [OF e] by (simp add: s1_def sys_out_same_env)
    show "io_rbuf (s_io s1) = Some c" by (simp add: s1_def set_rbuf_def)
    have "attended (?s\<lparr>s_env := e\<rparr>) = attended ?s"
      using ext_call_env [OF e] by (intro attended_frame) simp_all
    then show "attended s1 = attended s" by (simp add: s1_def)
  qed (use c in \<open>simp_all add: c_def s1_def\<close>)
qed

section \<open>Properties\<close>

text \<open>
  C6: A request that has been received completely is answered. As long as write buffers can be allocated, the epoll
  loop accepts the descriptor and the command is none of the three that fault with dtv.c, the input callback
  returns success with the wake lock released and a well-formed state, and has put exactly one PDU behind the
  output: the response of the service with the payload its opcode asks for, or an error PDU. Once the socket has been writable as
  often as PDUs wait, and taken at least one each time, the client has been sent all of that, the answer last; and
  if the connection was watched as its state says, it still is, for writability as long as PDUs wait.
\<close>

theorem request_answered:
  assumes "sys_ok P s" and "dependable P enc" and "octet_fits P" and "well_supplied P"
    and "receives P s cmd"
  shows "\<exists>s' p. fd_io_in P (dtv_impl P) s = Inr (IO_OK, s') \<and> sys_ok P s' \<and> \<not> awake (s_env s') \<and>
           sys_out s' = sys_out s @ [p] \<and> pdu_service p = pdu_service cmd \<and>
           (pdu_opcode p = pdu_opcode cmd \<and> (\<exists>f. g_service_handler s (pdu_service cmd) = Some f \<and>
              payload enc (handler_form f (pdu_opcode cmd)) p) \<or>
            pdu_opcode p = OPCODE_ERROR \<and> payload enc is_octet p) \<and>
           (\<forall>n io e. writable_events P n (s_io s', s_env s') (io, e) \<and> length (sendq (s_io s')) \<le> n \<longrightarrow>
              sendq io = [] \<and> sent e = sys_out s @ [p]) \<and>
           (attended s \<longrightarrow> attended s')"
proof -
  from assms(5,1) obtain c s1 where c: "received P c" "pdu_rbuf_has_pdu P c" "rbuf_pdu P c = cmd"
    and s1: "io_rbuf (s_io s1) = Some c" "sys_out s1 = sys_out s" "services s1 = services s" "sys_ok P s1" "attended s1 = attended s"
    and run: "io_state_in P (io_handle_pdu P (dtv_impl P)) s =
       andThen (andThen (io_handle_pdu P (dtv_impl P) cmd s1) (\<lambda>(r, s).
         if r < 0 then Inr (-1, s)
         else andThen (get_rbuf s) (\<lambda>b. Inr (0, set_rbuf (b\<lparr>rb_len := 0\<rparr>) s))))
       (\<lambda>(r, s). Inr (r, wake False s))"
    by (rule receivesE)
  have codec: "pdu_codec P enc" and client: "benign_client P" using assms(2) by (simp_all add: dependable_def)
  have "services_ok s1" using s1(4) by (simp add: sys_ok_def)
  then have benign: "benign s1 cmd"
    using client c by (auto simp: benign_def benign_client_def services_ok_def)
  from command_supplied [OF s1(4) assms(2,4) benign] obtain s2 where
    2: "io_handle_pdu P (dtv_impl P) cmd s1 = Inr (0, s2)" "sys_ok P s2" "io_rbuf (s_io s2) = Some c"
    using s1(1) by auto
  let ?s = "wake False (set_rbuf (c\<lparr>rb_len := 0\<rparr>) s2)"
  have "fd_io_in P (dtv_impl P) s = Inr (IO_OK, ?s)"
    using run 2(1) get_rbuf_ok [OF 2(2,3)] by (simp add: fd_io_in_def)
  moreover have ok: "sys_ok P ?s" using set_rbuf_ok [OF 2(2,3), of "c\<lparr>rb_len := 0\<rparr>"] by simp
  moreover obtain p where p: "sys_out s2 = sys_out s1 @ [p]" "pdu_service p = pdu_service cmd"
    "pdu_opcode p = pdu_opcode cmd \<and> (\<exists>f. g_service_handler s1 (pdu_service cmd) = Some f \<and>
        payload enc (handler_form f (pdu_opcode cmd)) p) \<or>
      pdu_opcode p = OPCODE_ERROR \<and> (octet_fits P \<longrightarrow> payload enc is_octet p)"
    using dtv_impl_quiet.io_handle_pdu_answers [OF codec 2(1)] by blast
  moreover have out: "sys_out ?s = sys_out s @ [p]" using p(1) s1(2) by simp
  moreover have "sendq io = [] \<and> sent e = sys_out s @ [p]"
    if "writable_events P n (s_io ?s, s_env ?s) (io, e) \<and> length (sendq (s_io ?s)) \<le> n" for n io e
  proof -
    have "conn_ok (s_io ?s, s_env ?s)" using ok by (simp add: sys_ok_def)
    with that writable_events_drain [of P n "(s_io ?s, s_env ?s)" "(io, e)"]
    have "sendq io = []" "sent e = output_stream (s_io ?s, s_env ?s)" by (simp_all only: fst_conv snd_conv)
    with out show ?thesis by (simp only: sys_out_def)
  qed
  moreover have "g_service_handler s1 = g_service_handler s" using s1(3) by (simp add: services_def)
  moreover have "attended s \<longrightarrow> attended ?s"
    using command_attended [OF assms(4) s1(4) benign 2(1)] s1(5) by simp
  moreover have "\<not> awake (s_env ?s)" by (simp add: wake_def release_wake_lock_def)
  ultimately show ?thesis using assms(3) by (intro exI [of _ ?s] exI [of _ p]) simp
qed

lemma sample_request: "sys_ok client_platform sample_sys" "well_supplied client_platform"
  "octet_fits client_platform" "receives client_platform sample_sys
     \<lparr>pdu_service = SERVICE_REGISTRY, pdu_opcode = OPCODE_REGISTER_MODULE, pdu_data = [1]\<rparr>"
proof -
  have "hal_wf client_platform sample_hal = hal_wf sample_platform sample_hal"
    by (simp add: hal_wf_def client_platform_def)
  with sample_sys_ok(1) show "sys_ok client_platform sample_sys" by (simp add: sys_ok_def)
  show "well_supplied client_platform"
    by (simp add: well_supplied_def client_platform_def sample_platform_def)
  show "octet_fits client_platform"
    using sample_append_total by (simp add: octet_fits_def append_total_def client_platform_def)
  show "receives client_platform sample_sys
     \<lparr>pdu_service = SERVICE_REGISTRY, pdu_opcode = OPCODE_REGISTER_MODULE, pdu_data = [1]\<rparr>"
    by (simp add: receives_def sample_io_def sample_rbuf_def client_platform_def sample_platform_def
        service_id_defs OPCODE_REGISTER_MODULE_def)
qed

theorem request_answered_witness:
  "\<exists>s' p. fd_io_in client_platform (dtv_impl client_platform) sample_sys = Inr (IO_OK, s') \<and>
     sys_out s' = sys_out sample_sys @ [p] \<and> pdu_service p = SERVICE_REGISTRY \<and> attended s'"
proof -
  have "attended sample_sys" by (simp add: attended_def)
  with request_answered [OF sample_request(1) client_dependable(2) sample_request(3,2,4)]
  show ?thesis by fastforce
qed

end
