(* ===== verification/Spec2Isabelle.thy ===== *)
theory Spec2Isabelle
  imports Tvd_Program Tvd_Request
begin

text \<open>
  \<^bold>\<open>tvd\<close>, the TV daemon: it wraps the Android TV input HAL behind a binary protocol on a socket.
  This library models the C code under src/src as HOL functions and proves what holds of it; where
  the code is defective, the theorems say when it fails and how.

  \<^bold>\<open>The program.\<close> main.c parses the options and enters the epoll loop of libfdio, whose callback
  \<open>init\<close> makes io.c connect to the client's socket. When the connection is up, io.c installs the
  registry (registry.c), which is the only service at first; the client registers further ones by
  their id through the tables of service.c, and DTV (dtv_io.c) is the only one there is. A received
  PDU is dispatched by its service (pdu.c) and then, by the service, by its opcode; a handler
  answers through the send function it was registered with, or returns an error code, for which
  io.c sends an error PDU. The DTV service calls the vendor functions of dtv.h, which dtv.c
  implements over the device table of tv_hal.c and otherwise leaves unimplemented; it encodes
  tuners, channels and programs (tv_utils.h) with dtv_pdu.c. Vendor threads announce scan results
  by notifications, which are posted as tasks and sent by the I/O thread. PDUs wait in the send
  queue of the connection until the socket takes them.

  \<^bold>\<open>Theories\<close>, each imported by the next that needs it:
  \<^item> \<^verbatim>\<open>Tvd_Prelude\<close>: faults, sequencing, pointers, loops; \<^verbatim>\<open>Tvd_Platform\<close>: everything outside the
    repository as one record of functions, and the environment (live heap objects, wake lock,
    PDUs sent, watched descriptors); \<^verbatim>\<open>Tvd_Pdubuf\<close>: write buffers, and what tvd relies on libpdu for.
  \<^item> \<^verbatim>\<open>Tv_Utils\<close> (tv_utils.h, tv_utils.c), \<^verbatim>\<open>Memptr\<close> (memptr.c), \<^verbatim>\<open>Pdu_Dispatch\<close> (pdu.h, pdu.c),
    \<^verbatim>\<open>Tv_Hal\<close> (tv_hal.c), \<^verbatim>\<open>Dtv\<close> (dtv.h, dtv.c), \<^verbatim>\<open>Dtv_Pdu\<close> (dtv_pdu.h, dtv_pdu.c), \<^verbatim>\<open>Io_State\<close> (io.c: one
    connection), \<^verbatim>\<open>Tvd_State\<close> (the state of the daemon: one record for the static variables of all
    files), \<^verbatim>\<open>Dtv_Io\<close> (dtv_io.c), \<^verbatim>\<open>Registry\<close> (registry.c, service.c), \<^verbatim>\<open>Io_Loop\<close> (the rest of io.c) and
    \<^verbatim>\<open>Tvd_Main\<close> (main.c) hold the models. Definitions have the names of the C functions; a name
    that is taken in HOL or used twice in the program has a prefix (\<open>io_handle_pdu\<close> is
    \<open>handle_pdu\<close> of io.c, \<open>tvd_init\<close> is \<open>init\<close> of main.c).
  \<^item> \<^verbatim>\<open>Dtv_Protocol\<close>: the forms of the payloads as the code sends them, and what each append function emits;
    \<^verbatim>\<open>Dtv_Replies\<close>, \<^verbatim>\<open>Sys_Total\<close>, \<^verbatim>\<open>Dtv_Outcomes\<close>: what the commands answer, when they cannot fault, and
    when they do.
  \<^item> \<^verbatim>\<open>Tvd_System\<close>: the daemon as a transition system; \<^verbatim>\<open>Tvd_Run\<close>: whole runs, from the start through any
    sequence of events; \<^verbatim>\<open>Tvd_Program\<close>: \<open>main\<close> from the command line to the exit; \<^verbatim>\<open>Tvd_Typed\<close>: the forms of
    doc/ipc.txt, and that all PDUs that leave the daemon have them, with one exception; \<^verbatim>\<open>Tvd_Session\<close>: the conversation with the client as an abstract
    machine, and the daemon as its refinement; \<^verbatim>\<open>Tvd_Request\<close>: one request from its octets to those of its answer.

  \<^bold>\<open>How C is modelled.\<close> A function is a HOL function into \<open>'a res\<close>: \<open>Inr\<close> for a return, \<open>Inl\<close> for an
  execution that C leaves undefined or that calls \<open>abort\<close>. Structures are records, unsigned and
  signed integers are words of their width, \<open>size_t\<close> is a number modulo the platform's width
  (\<open>to_size\<close>). A pointer is null, indeterminate (\<open>Wild\<close>: a variable never assigned) or an address
  with the value it points to; reading and freeing require the address to be live. Uninitialised
  integers have an arbitrary fixed value, uninitialised pointers are \<open>Wild\<close>. Loops are counted and
  run to their bound by structural recursion; no definition needs fuel, and every function is total.
  The loop over the send queue, whose condition depends on the socket, is also stated as a
  \<open>while_option\<close> and shown to end with the same result.
  A write buffer carries its capacity, and an append that leaves it is a fault. The calls of
  \<open>append_to_pdu\<close> are checked against their format strings.

  \<^bold>\<open>What is assumed\<close> of the outside: \<open>pdu_codec\<close> (libpdu's append adds the encodings of the
  arguments, of the sizes that doc/ipc.txt gives, and reading undoes it), and, for some theorems,
  \<open>append_total\<close> (an append within the maximal length succeeds), tables with one entry per octet,
  \<open>ptr_size\<close> at least 4, and allocations that succeed. Each is a named hypothesis, and
  \<open>sample_platform\<close> satisfies them all. Nothing is assumed of the loop that \<open>main\<close> enters: it is any function, and
  what is shown is what \<open>main\<close> makes of its result and what the callbacks it is given do; the vendor functions are assumed at most to send nothing
  themselves (\<open>quiet_driver\<close>).

  \<^bold>\<open>What is shown.\<close>
  \<^item> The whole daemon (\<^verbatim>\<open>Tvd_Run\<close>, \<^verbatim>\<open>Tvd_System\<close>, \<^verbatim>\<open>Tvd_Program\<close>): with a client that avoids three commands, no
    sequence of events after \<open>init\<close> leads to a fault, and \<open>uninit\<close> returns; the exit status of \<open>main\<close> is
    that of the options or of the loop; in every reachable state
    the services are consistent, and the output only ever grows at its end.
  \<^item> The protocol (\<^verbatim>\<open>Tvd_Typed\<close>, \<^verbatim>\<open>Tvd_Session\<close>): all that is sent from the start on is a conversation of an abstract
    machine whose only state is whether the DTV service is registered: one reply per command, each
    with the payload of its opcode, and notifications only behind a confirmed registration; and what the
    client has been sent when \<open>uninit\<close> returns is the beginning of one. The payloads are those of doc/ipc.txt,
    except for handles with file descriptors. A request that has been received is
    answered, and the answer sent (\<^verbatim>\<open>Tvd_Request\<close>), as long as buffers can be allocated (\<open>well_supplied\<close>).
  \<^item> The connection (\<^verbatim>\<open>Io_State\<close>, \<^verbatim>\<open>Io_Loop\<close>): the send queue implements an append-only stream; a
    connection with waiting PDUs is polled; each command gets exactly one answer; the wake lock
    is released after input; set-up and closing leave nothing behind on the paths shown.
  \<^item> The services (\<^verbatim>\<open>Registry\<close>, \<^verbatim>\<open>Dtv_Replies\<close>, \<^verbatim>\<open>Sys_Total\<close>, \<^verbatim>\<open>Dtv_Outcomes\<close>): the outcome of each
    command, on success and on errors, what is sent and what is freed.
  \<^item> The device table (\<^verbatim>\<open>Tv_Hal\<close>): it refines a list of devices under every event of the HAL; opening
    a stream is safe unless the table is full.
  \<^item> Encodings (\<^verbatim>\<open>Dtv_Pdu\<close>, \<^verbatim>\<open>Dtv\<close>): calculated sizes suffice for what is appended as long as their 32-bit sum
    does not wrap, tuners are read back as they were written, ids of tuners are read back except those that
    start with 10 and negative ones.
  \<^item> Defects: each is a theorem about the model of the code as it is, with a concrete witness.

  The contracts between components are locales, interpreted on the models: \<open>element_release\<close>,
  \<open>counted_item\<close> and \<open>sized_item\<close> (arrays of structures and their encodings), \<open>input_listing\<close>,
  \<open>pdu_output\<close>, \<open>command_handler\<close> and \<open>handler_table\<close>, \<open>quiet_driver\<close>, \<open>invariant_steps\<close> and
  \<open>surviving_steps\<close>.

  \<^bold>\<open>Bounds.\<close> MAX_DEVICE_NUM is 100 as in tv_hal.c, so that the octet \<open>device_num\<close> and the octet loop
  indices over the table do not wrap, and indices are natural numbers there. Sizes of PDUs are
  32-bit sums in the code and wrap around in the model; the theorems on responses ask for lists
  that fit into the maximal PDU. Lengths of notifications are of type \<open>size_t\<close>; that a string in
  memory is shorter than the address space is the condition of \<open>legal_event\<close>.

  \<^bold>\<open>Not modelled.\<close> log.h, compiler.h and wakelock.h (log output, attributes, a name); Android.mk;
  the global variables of \<open>getopt\<close> and the texts main.c prints; \<open>assert\<close>; the retry of
  system calls on EINTR; libpdu, libfdio, the HAL, the wake lock and POSIX, which are parameters.
  The members of the union in \<open>tv_stream_t\<close> are separate fields, each used by one stream type.
  The notifications of a channel and of programs are modelled, but \<^verbatim>\<open>Tvd_Run\<close> has no events for them, as
  they end in the mismatched call of \<open>append_channel\<close>. Vendor functions other than dtv.c's are the argument \<open>A\<close> of the commands; a vendor thread runs
  between two callbacks of the I/O thread, as the code has no locks for anything finer.
\<close>

end
